(* ===== verification/Prelude.thy ===== *)
theory Prelude
  imports Complex_Main "HOL-Library.AList" "HOL-Library.Sublist" "HOL-Library.Multiset"
begin

text \<open>
  Shared vocabulary of the development: Go's error results and panics, the
  functions of \<open>strings\<close>, \<open>strconv\<close> and \<open>fmt\<close> that stack-deploy uses, Go maps
  (nil or made), float64 values, and the lemma collections that carry the
  component proofs.

  A Go map is the list of its entries in the order in which a \<open>range\<close> statement
  visits them (\<open>Some es\<close>), or nil (\<open>None\<close>).  The language leaves that order open:
  the definitions take any list, so a theorem about them covers every order.
  Where one function ranges over the same map more than once, every pass has an
  order argument of its own.
\<close>

section \<open>Lemma collections\<close>

named_theorems go_simps \<open>unfolding rules of the Go vocabulary\<close>
named_theorems map_laws \<open>laws of map operations through their abstraction\<close>

section \<open>Results, errors and panics\<close>

text \<open>An \<open>error\<close> value is what \<open>err.Error()\<close> prints. A panic is a third outcome.\<close>

type_synonym error = string

datatype 'a result = Ok 'a | Err error | Panic error

fun and_then :: "'a result \<Rightarrow> ('a \<Rightarrow> 'b result) \<Rightarrow> 'b result" where
  "and_then (Ok x) f = f x"
| "and_then (Err e) f = Err e"
| "and_then (Panic e) f = Panic e"

fun is_ok :: "'a result \<Rightarrow> bool" where
  "is_ok (Ok _) = True"
| "is_ok (Err _) = False"
| "is_ok (Panic _) = False"

fun is_panic :: "'a result \<Rightarrow> bool" where
  "is_panic (Panic _) = True"
| "is_panic (Ok _) = False"
| "is_panic (Err _) = False"

fun map_result :: "('a \<Rightarrow> 'b) \<Rightarrow> 'a result \<Rightarrow> 'b result" where
  "map_result f (Ok x) = Ok (f x)"
| "map_result f (Err e) = Err e"
| "map_result f (Panic e) = Panic e"

section \<open>Package strings\<close>

definition HasPrefix :: "string \<Rightarrow> string \<Rightarrow> bool" where
  "HasPrefix s p = prefix p s"

definition HasSuffix :: "string \<Rightarrow> string \<Rightarrow> bool" where
  "HasSuffix s p = prefix (rev p) (rev s)"

text \<open>\<open>strings.Replace(s, old, new, -1)\<close> for a non-empty \<open>old\<close> (every call of the
  program passes a pattern that starts with a brace or a dollar sign).\<close>

function Replace :: "string \<Rightarrow> string \<Rightarrow> string \<Rightarrow> string" where
  "Replace [] old new = []"
| "Replace (c # cs) old new =
     (if old \<noteq> [] \<and> prefix old (c # cs)
      then new @ Replace (drop (length old) (c # cs)) old new
      else c # Replace cs old new)"
  by pat_completeness auto
termination
  by (relation "measure (\<lambda>(s, old, new). length s)") (auto simp: prefix_def)

fun Join :: "string list \<Rightarrow> string \<Rightarrow> string" where
  "Join [] sep = []"
| "Join [x] sep = x"
| "Join (x # y # ys) sep = x @ sep @ Join (y # ys) sep"

text \<open>\<open>strings.Index(s, c)\<close> for a one-byte separator; \<open>None\<close> stands for -1.\<close>

definition IndexByte :: "string \<Rightarrow> char \<Rightarrow> nat option" where
  "IndexByte s c =
     (if c \<in> set s then Some (length (takeWhile (\<lambda>x. x \<noteq> c) s)) else None)"

text \<open>\<open>strings.SplitN(s, c, 2)\<close> for a one-byte separator.\<close>

definition SplitN2 :: "string \<Rightarrow> char \<Rightarrow> string list" where
  "SplitN2 s c =
     (case IndexByte s c of
        None \<Rightarrow> [s]
      | Some i \<Rightarrow> [take i s, drop (Suc i) s])"

section \<open>Package strconv and the verbs of package fmt\<close>

definition digits :: string where
  "digits = ''0123456789''"

fun show_nat :: "nat \<Rightarrow> string" where
  "show_nat n =
     (if n < 10 then [digits ! n] else show_nat (n div 10) @ [digits ! (n mod 10)])"

declare show_nat.simps [simp del]

definition Itoa :: "int \<Rightarrow> string" where
  "Itoa i = (if i < 0 then CHR ''-'' # show_nat (nat (- i)) else show_nat (nat i))"

definition digit_val :: "char \<Rightarrow> nat option" where
  "digit_val c = IndexByte digits c"

fun digits_val :: "nat \<Rightarrow> string \<Rightarrow> nat option" where
  "digits_val acc [] = Some acc"
| "digits_val acc (c # cs) =
     (case digit_val c of None \<Rightarrow> None | Some d \<Rightarrow> digits_val (10 * acc + d) cs)"

definition max_int :: int where
  "max_int = 9223372036854775807"

text \<open>\<open>strconv.Atoi\<close> on a 64-bit platform: optional sign, at least one digit, and
  the range of \<open>int\<close>; \<open>None\<close> is any error.\<close>

definition Atoi :: "string \<Rightarrow> int option" where
  "Atoi s =
     (let neg = (s \<noteq> [] \<and> hd s = CHR ''-'');
          ds = (if s \<noteq> [] \<and> (hd s = CHR ''-'' \<or> hd s = CHR ''+'') then tl s else s)
      in if ds = [] then None
         else (case digits_val 0 ds of
                 None \<Rightarrow> None
               | Some n \<Rightarrow>
                   (let i = (if neg then - int n else int n)
                    in if - max_int - 1 \<le> i \<and> i \<le> max_int then Some i else None)))"

text \<open>The \<open>%v\<close> rendering of a \<open>[]string\<close>.\<close>

definition show_strings :: "string list \<Rightarrow> string" where
  "show_strings xs = ''['' @ Join xs '' '' @ '']''"

section \<open>float64\<close>

text \<open>The program only compares floats and copies them, so a float is its exact
  rational value or one of the special values.\<close>

datatype float64 = NaN | MInf | Fin rat | PInf

fun fle :: "float64 \<Rightarrow> float64 \<Rightarrow> bool" where
  "fle NaN _ = False"
| "fle _ NaN = False"
| "fle MInf _ = True"
| "fle _ PInf = True"
| "fle (Fin a) (Fin b) = (a \<le> b)"
| "fle _ _ = False"

fun feq :: "float64 \<Rightarrow> float64 \<Rightarrow> bool" where
  "feq NaN _ = False"
| "feq x y = (x = y)"

definition fgt :: "float64 \<Rightarrow> float64 \<Rightarrow> bool" where
  "fgt x y = (fle y x \<and> \<not> feq x y)"

text \<open>Conversion \<open>int(f)\<close>: truncation towards zero. Outside the range of int the
  language leaves the result to the implementation; amd64 gives the least int.\<close>

definition int_of_float :: "float64 \<Rightarrow> int" where
  "int_of_float f =
     (case f of
        Fin q \<Rightarrow>
          (let i = (if q < 0 then - floor (- q) else floor q)
           in if - max_int - 1 \<le> i \<and> i \<le> max_int then i else - max_int - 1)
      | _ \<Rightarrow> - max_int - 1)"

section \<open>Go maps\<close>

type_synonym ('k, 'v) gomap = "('k \<times> 'v) list option"

definition entries :: "('k, 'v) gomap \<Rightarrow> ('k \<times> 'v) list" where
  "entries m = (case m of None \<Rightarrow> [] | Some es \<Rightarrow> es)"

definition mget :: "('k, 'v) gomap \<Rightarrow> 'k \<Rightarrow> 'v option" where
  "mget m k = map_of (entries m) k"

text \<open>A read of a missing key gives the zero value of the element type.\<close>

definition mget_str :: "('k, string) gomap \<Rightarrow> 'k \<Rightarrow> string" where
  "mget_str m k = (case mget m k of None \<Rightarrow> [] | Some v \<Rightarrow> v)"

definition make_map :: "('k, 'v) gomap" where
  "make_map = Some []"

text \<open>An assignment to an entry of a nil map panics.\<close>

definition mput :: "'k \<Rightarrow> 'v \<Rightarrow> ('k, 'v) gomap \<Rightarrow> ('k, 'v) gomap result" where
  "mput k v m =
     (case m of
        None \<Rightarrow> Panic ''assignment to entry in nil map''
      | Some es \<Rightarrow> Ok (Some (AList.update k v es)))"

definition mdel :: "'k \<Rightarrow> ('k, 'v) gomap \<Rightarrow> ('k, 'v) gomap" where
  "mdel k m = map_option (AList.delete k) m"

definition mlen :: "('k, 'v) gomap \<Rightarrow> nat" where
  "mlen m = length (entries m)"

text \<open>Well-formedness of a map value: one entry per key.\<close>

definition map_ok :: "('k, 'v) gomap \<Rightarrow> bool" where
  "map_ok m = distinct (map fst (entries m))"

text \<open>Copying every entry of a map into another one, as the \<open>for k, v := range\<close>
  loops with a single assignment do.\<close>

definition copy_into :: "('k \<times> 'v) list \<Rightarrow> ('k \<times> 'v) list \<Rightarrow> ('k \<times> 'v) list" where
  "copy_into src dst = fold (\<lambda>(k, v) m. AList.update k v m) src dst"

section \<open>Lemmas on results\<close>

lemma and_then_Ok_iff:
  "and_then r f = Ok y \<longleftrightarrow> (\<exists>x. r = Ok x \<and> f x = Ok y)"
  by (cases r) auto

lemma map_result_Ok_iff: "map_result f r = Ok y \<longleftrightarrow> (\<exists>x. r = Ok x \<and> y = f x)"
  by (cases r) auto

lemma and_then_assoc:
  "and_then (and_then r f) g = and_then r (\<lambda>x. and_then (f x) g)"
  by (cases r) auto

section \<open>Lemmas on maps\<close>

lemma entries_simps [simp]:
  "entries None = []" "entries (Some es) = es"
  by (simp_all add: entries_def)

lemma mget_simps [simp]:
  "mget None k = None" "mget (Some es) k = map_of es k"
  by (simp_all add: mget_def)

lemma map_ok_simps [simp]:
  "map_ok None" "map_ok (Some es) = distinct (map fst es)"
  by (simp_all add: map_ok_def)

lemma map_of_update [simp, map_laws]: "map_of (AList.update k v es) = (map_of es)(k \<mapsto> v)"
  by (simp add: update_conv')

lemma map_of_delete [simp, map_laws]: "map_of (AList.delete k es) = (map_of es)(k := None)"
  by (simp add: delete_conv')

lemma distinct_update_keys [simp]:
  "distinct (map fst es) \<Longrightarrow> distinct (map fst (AList.update k v es))"
  by (rule distinct_update)

lemma distinct_delete_keys [simp]:
  "distinct (map fst es) \<Longrightarrow> distinct (map fst (AList.delete k es))"
  by (rule distinct_delete)

lemma set_keys_update [simp]:
  "fst ` set (AList.update k v es) = insert k (fst ` set es)"
  using dom_map_of_conv_image_fst [of "AList.update k v es"]
    dom_map_of_conv_image_fst [of es] by simp

lemma copy_into_simps [simp]:
  "copy_into [] m = m"
  "copy_into ((k, v) # es) m = copy_into es (AList.update k v m)"
  by (simp_all add: copy_into_def)

lemma distinct_copy_into [simp]:
  "distinct (map fst m) \<Longrightarrow> distinct (map fst (copy_into es m))"
  by (induction es arbitrary: m) auto

lemma map_of_permute:
  assumes "mset es = mset es'" and "distinct (map fst es)"
  shows "map_of es = map_of es'"
proof (rule map_of_inject_set [THEN iffD2])
  show "distinct (map fst es)" by (rule assms(2))
  from assms(1) have "mset (map fst es) = mset (map fst es')"
    by simp
  then show "distinct (map fst es')"
    using assms(2) mset_eq_imp_distinct_iff by blast
  from assms(1) show "set es = set es'" by (rule mset_eq_setD)
qed

section \<open>Lemmas on numbers and strings\<close>

lemma digit_val_digits: "d < 10 \<Longrightarrow> digit_val (digits ! d) = Some d"
proof -
  assume "d < 10"
  then have "d \<in> {0,1,2,3,4,5,6,7,8,9}" by auto
  then show ?thesis by (auto simp: digit_val_def digits_def IndexByte_def)
qed

lemma digits_val_append:
  "digits_val acc (xs @ ys) =
     (case digits_val acc xs of None \<Rightarrow> None | Some a \<Rightarrow> digits_val a ys)"
  by (induction xs arbitrary: acc) (auto split: option.splits)

lemma digits_val_show_nat: "digits_val 0 (show_nat n) = Some n"
proof (induction n rule: show_nat.induct)
  case (1 n)
  show ?case
  proof (cases "n < 10")
    case True
    then show ?thesis by (simp add: show_nat.simps [of n] digit_val_digits)
  next
    case False
    with 1 have "digits_val 0 (show_nat (n div 10)) = Some (n div 10)" by simp
    with False show ?thesis
      by (simp add: show_nat.simps [of n] digits_val_append digit_val_digits)
  qed
qed

lemma show_nat_ne [simp]: "show_nat n \<noteq> []"
  by (subst show_nat.simps) simp

lemma show_nat_set: "set (show_nat n) \<subseteq> set digits"
proof (induction n rule: show_nat.induct)
  case (1 n)
  have d: "digits ! (n mod 10) \<in> set digits" by (rule nth_mem) (simp add: digits_def)
  show ?case
  proof (cases "n < 10")
    case True
    then show ?thesis using d by (simp add: show_nat.simps [of n])
  next
    case False
    with 1 d show ?thesis by (simp add: show_nat.simps [of n])
  qed
qed

lemma hd_show_nat: "hd (show_nat n) \<noteq> CHR ''-''" "hd (show_nat n) \<noteq> CHR ''+''"
proof -
  have "hd (show_nat n) \<in> set digits"
    using show_nat_set [of n] hd_in_set [OF show_nat_ne, of n] by blast
  then show "hd (show_nat n) \<noteq> CHR ''-''" "hd (show_nat n) \<noteq> CHR ''+''"
    by (auto simp: digits_def)
qed

lemma Atoi_Itoa:
  assumes "- max_int - 1 \<le> i" and "i \<le> max_int"
  shows "Atoi (Itoa i) = Some i"
  using assms
  by (cases "i < 0")
     (simp_all add: Atoi_def Itoa_def Let_def hd_show_nat digits_val_show_nat)

lemma takeWhile_neq_append:
  "c \<notin> set a \<Longrightarrow> takeWhile (\<lambda>x. x \<noteq> c) (a @ c # b) = a"
  by (induction a) auto

lemma IndexByte_append:
  "c \<notin> set a \<Longrightarrow> IndexByte (a @ c # b) c = Some (length a)"
  by (simp add: IndexByte_def takeWhile_neq_append)

lemma SplitN2_append: "c \<notin> set a \<Longrightarrow> SplitN2 (a @ c # b) c = [a, b]"
  by (simp add: SplitN2_def IndexByte_append)

lemma SplitN2_length: "length (SplitN2 s c) = (if c \<in> set s then 2 else 1)"
  by (auto simp: SplitN2_def IndexByte_def)

section \<open>Stores with a key\<close>

text \<open>The contract of an assignment: reading the assigned key gives the assigned value
  and no other key changes. The loops of the program that assign the entries of a
  map one after the other then compute the union of the two, in any visiting order.\<close>

locale kv_store =
  fixes put :: "'k \<Rightarrow> 'v \<Rightarrow> 's \<Rightarrow> 's"
    and get :: "'s \<Rightarrow> 'k \<Rightarrow> 'v option"
  assumes get_put: "get (put k v s) = (get s)(k \<mapsto> v)"
begin

lemma get_fold_put:
  assumes "distinct (map fst es)"
  shows "get (fold (\<lambda>(k, v). put k v) es s) = get s ++ map_of es"
  using assms
proof (induction es arbitrary: s)
  case Nil
  then show ?case by simp
next
  case (Cons e es)
  obtain k v where e: "e = (k, v)" by (cases e)
  from Cons.prems e have "map_of es k = None"
    by (auto simp: map_of_eq_None_iff)
  with Cons e show ?case
    by (auto simp: get_put fun_eq_iff map_add_def split: option.splits)
qed

lemma get_fold_put_same:
  "distinct (map fst es) \<Longrightarrow> mset es = mset es' \<Longrightarrow>
     get (fold (\<lambda>(k, v). put k v) es s) = get (fold (\<lambda>(k, v). put k v) es' s)"
  using get_fold_put map_of_permute
  by (metis mset_eq_imp_distinct_iff mset_map)

end

interpretation alist: kv_store AList.update map_of
  by unfold_locales simp

text \<open>With distinct keys the copying loop computes the union that prefers the source.\<close>

lemma map_of_copy_into [map_laws]:
  "distinct (map fst es) \<Longrightarrow> map_of (copy_into es m) = map_of m ++ map_of es"
  unfolding copy_into_def by (rule alist.get_fold_put)

end
