(* ===== verification/Constraints.thy ===== *)
theory Constraints
  imports Prelude
begin

text \<open>
  Package \<open>constraints\<close> (src/constraints/constraints.go): the Marathon-style
  placement constraints, their parser, their matching functions and the attributes
  of a Mesos offer.  The regular expression engine is an argument: its two
  operations are the ones the code calls, and no law about them is assumed.
\<close>

section \<open>Data\<close>

text \<open>\<open>Compile\<close> gives the error of \<open>regexp.Compile\<close>, if any; \<open>MatchString\<close> takes the
  source of a compiled pattern and a value.\<close>

record regexp =
  Compile :: "string \<Rightarrow> error option"
  MatchString :: "string \<Rightarrow> string \<Rightarrow> bool"

datatype Constraint =
    Like string
  | Unlike string
  | Unique
  | Cluster string
  | GroupBy int

text \<open>The parts of a \<open>mesos.Offer\<close> the program reads: attributes are pairs of a
  name and the text value (empty for an attribute that is not a text), resources
  are the scalar resources of the offer.\<close>

record Offer =
  offer_id :: string
  slave_id :: string
  hostname :: string
  attributes :: "(string \<times> string) list"
  resources :: "(string \<times> float64) list"

section \<open>Constructors and parser\<close>

definition NewLikeConstraint :: "regexp \<Rightarrow> string \<Rightarrow> Constraint result" where
  "NewLikeConstraint rx r =
     (case Compile rx r of
        Some e \<Rightarrow> Err (''Invalid like: '' @ e)
      | None \<Rightarrow> Ok (Like r))"

definition NewUnlikeConstraint :: "regexp \<Rightarrow> string \<Rightarrow> Constraint result" where
  "NewUnlikeConstraint rx r =
     (case Compile rx r of
        Some e \<Rightarrow> Err (''Invalid unlike: '' @ e)
      | None \<Rightarrow> Ok (Unlike r))"

definition unsupported :: "string list \<Rightarrow> error" where
  "unsupported v = ''Unsupported constraint: '' @ show_strings v"

definition ParseConstraint :: "regexp \<Rightarrow> string list \<Rightarrow> Constraint result" where
  "ParseConstraint rx v =
     (if v = [] then Err (unsupported v)
      else if v ! 0 = ''LIKE'' then
        (if length v < 2 then Err (unsupported v) else NewLikeConstraint rx (v ! 1))
      else if v ! 0 = ''UNLIKE'' then
        (if length v < 2 then Err (unsupported v) else NewUnlikeConstraint rx (v ! 1))
      else if v ! 0 = ''UNIQUE'' then Ok Unique
      else if v ! 0 = ''CLUSTER'' then
        (if length v < 2 then Ok (Cluster []) else Ok (Cluster (v ! 1)))
      else if v ! 0 = ''GROUP_BY'' then
        (if length v < 2 then Ok (GroupBy 1)
         else (case Atoi (v ! 1) of
                 None \<Rightarrow> Err (''Invalid constraint: '' @ show_strings v)
               | Some g \<Rightarrow> Ok (GroupBy g)))
      else Err (unsupported v))"

definition MustParseConstraint :: "regexp \<Rightarrow> string list \<Rightarrow> Constraint result" where
  "MustParseConstraint rx v =
     (case ParseConstraint rx v of Ok c \<Rightarrow> Ok c | Err e \<Rightarrow> Panic e | Panic e \<Rightarrow> Panic e)"

type_synonym constraint_map = "(string, Constraint list) gomap"

fun parse_loop :: "regexp \<Rightarrow> string list list \<Rightarrow> (string \<times> Constraint list) list
    \<Rightarrow> (string \<times> Constraint list) list result" where
  "parse_loop rx [] acc = Ok acc"
| "parse_loop rx (raw # raws) acc =
     (if raw = [] then Err ''Invalid constraint''
      else and_then (ParseConstraint rx (tl raw)) (\<lambda>c.
        let old = (case map_of acc (hd raw) of None \<Rightarrow> [] | Some cs \<Rightarrow> cs)
        in parse_loop rx raws (AList.update (hd raw) (old @ [c]) acc)))"

definition ParseConstraints :: "regexp \<Rightarrow> string list list \<Rightarrow> constraint_map result" where
  "ParseConstraints rx raws =
     (if raws = [] then Ok None else map_result Some (parse_loop rx raws []))"

section \<open>Matching\<close>

fun unique_loop :: "string \<Rightarrow> string list \<Rightarrow> bool" where
  "unique_loop v [] = True"
| "unique_loop v (x # xs) = (if v = x then False else unique_loop v xs)"

definition count_of :: "(string \<times> int) list \<Rightarrow> string \<Rightarrow> int" where
  "count_of m v = (case map_of m v of None \<Rightarrow> 0 | Some n \<Rightarrow> n)"

definition count_values :: "string list \<Rightarrow> (string \<times> int) list" where
  "count_values vs = fold (\<lambda>v m. AList.update v (count_of m v + 1) m) vs []"

definition max_int32 :: int where
  "max_int32 = 2147483647"

definition min_count :: "(string \<times> int) list \<Rightarrow> int" where
  "min_count counts =
     (let m = fold (\<lambda>(k, v) mn. if v < mn then v else mn) counts max_int32
      in if m = max_int32 then 0 else m)"

fun Matches :: "regexp \<Rightarrow> Constraint \<Rightarrow> string \<Rightarrow> string list \<Rightarrow> bool" where
  "Matches rx (Like r) value values = MatchString rx r value"
| "Matches rx (Unlike r) value values = (\<not> MatchString rx r value)"
| "Matches rx Unique value values = unique_loop value values"
| "Matches rx (Cluster c) value values =
     (if c \<noteq> [] then c = value else (values = [] \<or> values ! 0 = value))"
| "Matches rx (GroupBy g) value values =
     (let counts = count_values values
      in if int (length counts) < g then map_of counts value = None
         else count_of counts value = min_count counts)"

fun String :: "Constraint \<Rightarrow> string" where
  "String (Like r) = ''like:'' @ r"
| "String (Unlike r) = ''unlike:'' @ r"
| "String Unique = ''unique''"
| "String (Cluster c) = (if c \<noteq> [] then ''cluster:'' @ c else ''cluster'')"
| "String (GroupBy g) = (if g > 1 then ''groupBy:'' @ Itoa g else ''groupBy'')"

definition OfferAttributes :: "Offer \<Rightarrow> (string \<times> string) list" where
  "OfferAttributes offer =
     fold (\<lambda>(name, text) m. if text \<noteq> [] then AList.update name text m else m)
       (attributes offer) [(''hostname'', hostname offer)]"

section \<open>Placements\<close>

text \<open>The values of one attribute over the slaves or tasks that a constraint has let
  through, in the order they were accepted: every further value has been matched
  against the ones before it.\<close>

inductive placement :: "regexp \<Rightarrow> Constraint \<Rightarrow> string list \<Rightarrow> bool"
  for rx :: regexp and c :: Constraint where
  none_placed: "placement rx c []"
| place: "placement rx c vs \<Longrightarrow> Matches rx c v vs \<Longrightarrow> placement rx c (vs @ [v])"

inductive_cases placement_snocE: "placement rx c (vs @ [v])"

text \<open>An engine for patterns without metacharacters: they match where they occur.\<close>

definition literal_regexp :: regexp where
  "literal_regexp = \<lparr>Compile = (\<lambda>_. None), MatchString = (\<lambda>r v. sublist r v)\<rparr>"

section \<open>Lemmas\<close>

lemma placement_snocI:
  "placement rx c vs \<Longrightarrow> Matches rx c v vs \<Longrightarrow> placement rx c (vs @ [v])"
  by (rule place)

lemma placement_singleton: "Matches rx c v [] \<Longrightarrow> placement rx c [v]"
  using place [OF none_placed] by fastforce

lemma placement_pair:
  "Matches rx c u [] \<Longrightarrow> Matches rx c v [u] \<Longrightarrow> placement rx c [u, v]"
  using place [OF placement_singleton] by fastforce

lemma unique_loop_iff [simp]: "unique_loop v xs \<longleftrightarrow> v \<notin> set xs"
  by (induction xs) auto

lemma count_values_snoc [simp]:
  "count_values (vs @ [v]) =
     AList.update v (count_of (count_values vs) v + 1) (count_values vs)"
  by (simp add: count_values_def)

lemma count_values_Nil [simp]: "count_values [] = []"
  by (simp add: count_values_def)

lemma count_of_simps [simp]:
  "count_of [] v = 0"
  "count_of (AList.update u n m) v = (if v = u then n else count_of m v)"
  by (auto simp: count_of_def)

lemma distinct_count_values [simp]: "distinct (map fst (count_values vs))"
  by (induction vs rule: rev_induct) auto

lemma count_of_count_values [simp]:
  "count_of (count_values vs) v = int (count_list vs v)"
  by (induction vs rule: rev_induct) auto

lemma keys_count_values [simp]: "fst ` set (count_values vs) = set vs"
  by (induction vs rule: rev_induct) auto

lemma lookup_count_values:
  "map_of (count_values vs) v = None \<longleftrightarrow> v \<notin> set vs"
  by (simp add: map_of_eq_None_iff)

lemma length_count_values [simp]: "length (count_values vs) = card (set vs)"
proof -
  have "length (count_values vs) = card (set (map fst (count_values vs)))"
    using distinct_card [OF distinct_count_values] by simp
  then show ?thesis by simp
qed

lemma values_count_values:
  "(k, n) \<in> set (count_values vs) \<longleftrightarrow> k \<in> set vs \<and> n = int (count_list vs k)"
proof -
  have "(k, n) \<in> set (count_values vs) \<longleftrightarrow> map_of (count_values vs) k = Some n"
    by simp
  also have "\<dots> \<longleftrightarrow> k \<in> set vs \<and> n = int (count_list vs k)"
    using lookup_count_values [of vs k] count_of_count_values [of vs k]
    by (cases "map_of (count_values vs) k")
       (auto simp: count_of_def simp del: map_of_eq_Some_iff Some_eq_map_of_iff)
  finally show ?thesis .
qed

lemma count_list_pos: "v \<in> set vs \<Longrightarrow> 0 < count_list vs v"
  by (simp add: count_list_0_iff neq0_conv [symmetric])

lemma fold_min_le:
  "fold (\<lambda>(k, v) mn. if v < mn then v else mn) cs (b::int) \<le> b"
  "(k, v) \<in> set cs \<Longrightarrow> fold (\<lambda>(k, v) mn. if v < mn then v else mn) cs b \<le> v"
proof -
  have *: "fold (\<lambda>(k, v) mn. if v < mn then v else mn) cs (b::int) \<le> b \<and>
      (\<forall>(k, v) \<in> set cs. fold (\<lambda>(k, v) mn. if v < mn then v else mn) cs b \<le> v)"
    by (induction cs arbitrary: b) (fastforce split: prod.splits if_splits)+
  from * show "fold (\<lambda>(k, v) mn. if v < mn then v else mn) cs (b::int) \<le> b" ..
  from * show "(k, v) \<in> set cs \<Longrightarrow>
      fold (\<lambda>(k, v) mn. if v < mn then v else mn) cs b \<le> v" by auto
qed

lemma fold_min_ge:
  "l \<le> b \<Longrightarrow> \<forall>(k, v) \<in> set cs. l \<le> v \<Longrightarrow>
     l \<le> fold (\<lambda>(k, v) mn. if v < mn then v else mn) cs (b::int)"
  by (induction cs arbitrary: b) auto

text \<open>On a non-empty list the minimum loop returns a lower bound of the counts that is
  at least one; the sentinel is never taken for a count.\<close>

lemma min_count_bounds:
  assumes "vs \<noteq> []" and "int (length vs) < max_int32"
  shows "1 \<le> min_count (count_values vs)"
    and "v \<in> set vs \<Longrightarrow> min_count (count_values vs) \<le> int (count_list vs v)"
proof -
  let ?m = "fold (\<lambda>(k, v) mn. if v < mn then v else mn) (count_values vs) max_int32"
  have le: "u \<in> set vs \<Longrightarrow> ?m \<le> int (count_list vs u)" for u
    by (rule fold_min_le(2) [of u]) (simp add: values_count_values)
  from assms(1) obtain u where u: "u \<in> set vs" by (cases vs) auto
  have "int (count_list vs u) \<le> int (length vs)" by (simp add: count_le_length)
  with le [OF u] assms(2) have lt: "?m < max_int32" by linarith
  have "1 \<le> ?m"
  proof (rule fold_min_ge)
    show "(1::int) \<le> max_int32" by (simp add: max_int32_def)
    show "\<forall>(k, v) \<in> set (count_values vs). 1 \<le> v"
      by (auto simp: values_count_values Suc_le_eq count_list_pos)
  qed
  with lt show "1 \<le> min_count (count_values vs)"
    by (simp add: min_count_def)
  show "v \<in> set vs \<Longrightarrow> min_count (count_values vs) \<le> int (count_list vs v)"
    using lt le by (simp add: min_count_def)
qed

text \<open>The balance that \<open>GroupBy\<close> keeps: at most \<open>max 1 g\<close> groups, no group more than
  one ahead of another, and single members while groups are still being opened.\<close>

definition grouped :: "int \<Rightarrow> string list \<Rightarrow> bool" where
  "grouped g vs \<longleftrightarrow>
     int (card (set vs)) \<le> max 1 g \<and>
     (\<forall>a \<in> set vs. \<forall>b \<in> set vs. count_list vs a \<le> count_list vs b + 1) \<and>
     (int (card (set vs)) < g \<longrightarrow> (\<forall>a \<in> set vs. count_list vs a = 1))"

lemma grouped_open:
  assumes "grouped g vs" and "int (card (set vs)) < g" and "v \<notin> set vs"
  shows "grouped g (vs @ [v])"
proof -
  from assms have one: "\<forall>a \<in> set vs. count_list vs a = 1"
    and "count_list vs v = 0" by (auto simp: grouped_def count_notin)
  with assms show ?thesis by (auto simp: grouped_def)
qed

lemma grouped_fill:
  assumes "grouped g vs" and "g \<le> int (card (set vs))" and "v \<in> set vs"
    and "\<forall>b \<in> set vs. count_list vs v \<le> count_list vs b"
  shows "grouped g (vs @ [v])"
proof -
  from assms(3) have "set (vs @ [v]) = set vs" by auto
  with assms show ?thesis
    by (fastforce simp: grouped_def insert_absorb)
qed

lemma grouped_step:
  assumes "grouped g vs" and "Matches rx (GroupBy g) v vs"
    and "int (length vs) < max_int32"
  shows "grouped g (vs @ [v])"
proof (cases "int (card (set vs)) < g")
  case True
  with assms show ?thesis
    by (intro grouped_open) (simp_all add: lookup_count_values)
next
  case False
  with assms(2) have m: "int (count_list vs v) = min_count (count_values vs)" by simp
  show ?thesis
  proof (cases "vs = []")
    case True
    with False show ?thesis by (simp add: grouped_def)
  next
    case ne: False
    note mb = min_count_bounds [OF ne assms(3)]
    from m mb(1) have "count_list vs v \<noteq> 0" by linarith
    then have "v \<in> set vs" by (auto simp: count_list_0_iff)
    moreover have "\<forall>b \<in> set vs. count_list vs v \<le> count_list vs b"
      by (metis m mb(2) of_nat_le_iff)
    ultimately show ?thesis
      using assms(1) False by (intro grouped_fill) auto
  qed
qed

lemma placement_grouped:
  "placement rx (GroupBy g) vs \<Longrightarrow> int (length vs) < max_int32 \<Longrightarrow> grouped g vs"
proof (induction rule: placement.induct)
  case none_placed
  then show ?case by (simp add: grouped_def)
next
  case (place vs v)
  then show ?case by (intro grouped_step) auto
qed

lemma placement_Unique_iff: "placement rx Unique vs \<longleftrightarrow> distinct vs"
proof (induction vs rule: rev_induct)
  case Nil
  show ?case by (simp add: none_placed)
next
  case (snoc v vs)
  have "placement rx Unique (vs @ [v]) \<longleftrightarrow> placement rx Unique vs \<and> v \<notin> set vs"
    by (auto elim: placement_snocE intro: place)
  with snoc show ?case by auto
qed

text \<open>The constraints recorded for an attribute, in the order they were given.\<close>

definition constraints_of :: "(string \<times> Constraint list) list \<Rightarrow> string \<Rightarrow> Constraint list" where
  "constraints_of m a = (case map_of m a of None \<Rightarrow> [] | Some cs \<Rightarrow> cs)"

lemma constraints_of_update [simp]:
  "constraints_of (AList.update k cs m) a = (if a = k then cs else constraints_of m a)"
  by (simp add: constraints_of_def)

lemma parse_loop_Ok:
  "parse_loop rx raws acc = Ok m \<Longrightarrow>
     \<exists>cs. constraints_of m a = constraints_of acc a @ cs \<and>
       map Ok cs = map (\<lambda>r. ParseConstraint rx (tl r)) (filter (\<lambda>r. hd r = a) raws)"
proof (induction raws arbitrary: acc)
  case Nil
  then show ?case by simp
next
  case (Cons raw raws)
  from Cons.prems obtain c where ne: "raw \<noteq> []" and c: "ParseConstraint rx (tl raw) = Ok c"
    and rec: "parse_loop rx raws
      (AList.update (hd raw) (constraints_of acc (hd raw) @ [c]) acc) = Ok m"
    by (auto simp: and_then_Ok_iff Let_def constraints_of_def split: if_splits)
  from Cons.IH [OF rec] obtain cs where
    "constraints_of m a =
       (if a = hd raw then constraints_of acc a @ [c] else constraints_of acc a) @ cs"
    "map Ok cs = map (\<lambda>r. ParseConstraint rx (tl r)) (filter (\<lambda>r. hd r = a) raws)"
    by (auto split: if_splits)
  with c show ?case
    by (intro exI [of _ "(if a = hd raw then [c] else []) @ cs"]) auto
qed

lemma parse_loop_is_ok:
  "is_ok (parse_loop rx raws acc) \<longleftrightarrow>
     (\<forall>r \<in> set raws. r \<noteq> [] \<and> is_ok (ParseConstraint rx (tl r)))"
proof (induction raws arbitrary: acc)
  case Nil
  then show ?case by simp
next
  case (Cons raw raws)
  then show ?case
    by (cases "ParseConstraint rx (tl raw)") (auto simp: Let_def)
qed

lemma is_ok_map_result [simp]: "is_ok (map_result f r) = is_ok r"
  by (cases r) auto

lemma ParseConstraint_no_panic: "\<not> is_panic (ParseConstraint rx v)"
  by (auto simp: ParseConstraint_def NewLikeConstraint_def NewUnlikeConstraint_def
      split: option.splits)

lemma parse_loop_no_panic: "\<not> is_panic (parse_loop rx raws acc)"
proof (induction raws arbitrary: acc)
  case Nil
  then show ?case by simp
next
  case (Cons raw raws)
  with ParseConstraint_no_panic [of rx "tl raw"] show ?case
    by (cases "ParseConstraint rx (tl raw)") (auto simp: Let_def)
qed

lemma ParseConstraints_no_panic: "\<not> is_panic (ParseConstraints rx raws)"
  using parse_loop_no_panic [of rx raws "[]"]
  by (cases "parse_loop rx raws []") (auto simp: ParseConstraints_def)

section \<open>Properties\<close>

text \<open>C28: A GROUP_BY constraint keeps the deployment balanced: whatever values the
  matching function has accepted one after the other (fewer than 2^31 - 1 of them),
  there are at most \<open>max 1 groups\<close> different ones and their numbers of occurrences
  differ by at most one.\<close>
theorem group_by_balanced:
  assumes "placement rx (GroupBy g) vs" and "int (length vs) < max_int32"
  shows "int (card (set vs)) \<le> max 1 g \<and>
    (\<forall>a \<in> set vs. \<forall>b \<in> set vs. count_list vs a \<le> count_list vs b + 1)"
  using placement_grouped [OF assms] by (simp add: grouped_def)

theorem group_by_balanced_witness:
  "placement literal_regexp (GroupBy 2) [''a'', ''b'', ''a''] \<and>
   int (card (set [''a'', ''b'', ''a''])) \<le> max 1 2 \<and>
   count_list [''a'', ''b'', ''a''] ''a'' \<le> count_list [''a'', ''b'', ''a''] ''b'' + 1"
proof -
  let ?vs = "[''a'', ''b'', ''a'']"
  have p: "placement literal_regexp (GroupBy 2) ?vs"
    by (rule placement_snocI [where vs = "[''a'', ''b'']", simplified])
       (simp_all add: placement_singleton placement_pair min_count_def max_int32_def
         count_values_def count_of_def)
  have l: "int (length ?vs) < max_int32" by (simp add: max_int32_def)
  show ?thesis using p group_by_balanced [OF p l] by simp
qed

text \<open>The accepted values under a UNIQUE constraint are pairwise different, and
  conversely every list of different values can be placed.\<close>
theorem unique_placement: "placement rx Unique vs \<longleftrightarrow> distinct vs"
  by (rule placement_Unique_iff)

text \<open>A CLUSTER constraint puts everything on one value: the named one, or the
  value of the first placement when no value is named.\<close>
theorem cluster_placement:
  "placement rx (Cluster c) vs \<longleftrightarrow>
     (if c \<noteq> [] then set vs \<subseteq> {c} else (\<forall>v \<in> set vs. v = vs ! 0))"
proof (induction vs rule: rev_induct)
  case Nil
  show ?case by (simp add: none_placed)
next
  case (snoc v vs)
  have "placement rx (Cluster c) (vs @ [v]) \<longleftrightarrow>
      placement rx (Cluster c) vs \<and> Matches rx (Cluster c) v vs"
    by (auto elim: placement_snocE intro: place)
  with snoc show ?case
    by (cases vs) (auto split: if_splits)
qed

theorem cluster_placement_witness:
  "placement literal_regexp (Cluster ''rack1'') [''rack1'', ''rack1''] \<and>
   \<not> placement literal_regexp (Cluster []) [''rack1'', ''rack2'']"
  using cluster_placement [of literal_regexp "''rack1''" "[''rack1'', ''rack1'']"]
    cluster_placement [of literal_regexp "[]" "[''rack1'', ''rack2'']"]
  by simp

text \<open>Parsing a list of raw constraints succeeds exactly when every one of them
  names an attribute and a supported constraint, and the result then holds, for each
  attribute, the constraints given for it, parsed one by one and in the given order.\<close>
theorem ParseConstraints_spec:
  "is_ok (ParseConstraints rx raws) =
     (\<forall>r \<in> set raws. r \<noteq> [] \<and> is_ok (ParseConstraint rx (tl r))) \<and>
   (\<forall>m a. ParseConstraints rx raws = Ok m \<longrightarrow>
     map Ok (constraints_of (entries m) a) =
       map (\<lambda>r. ParseConstraint rx (tl r)) (filter (\<lambda>r. hd r = a) raws))"
proof (cases "raws = []")
  case True
  then show ?thesis by (simp add: ParseConstraints_def constraints_of_def)
next
  case False
  then have P: "ParseConstraints rx raws = map_result Some (parse_loop rx raws [])"
    by (simp add: ParseConstraints_def)
  have "map Ok (constraints_of es a) =
      map (\<lambda>r. ParseConstraint rx (tl r)) (filter (\<lambda>r. hd r = a) raws)"
    if "parse_loop rx raws [] = Ok es" for es a
    using parse_loop_Ok [OF that, of a] by (auto simp: constraints_of_def)
  then show ?thesis
    by (auto simp: P parse_loop_is_ok map_result_Ok_iff)
qed

theorem ParseConstraints_spec_witness:
  "\<exists>m. ParseConstraints literal_regexp [[''rack'', ''LIKE'', ''r''], [''rack'', ''UNIQUE'']] = Ok m
     \<and> map Ok (constraints_of (entries m) ''rack'') = [Ok (Like ''r''), Ok Unique]"
proof -
  let ?raws = "[[''rack'', ''LIKE'', ''r''], [''rack'', ''UNIQUE'']]"
  note spec = ParseConstraints_spec [of literal_regexp ?raws]
  note parse = ParseConstraint_def NewLikeConstraint_def literal_regexp_def
  have "is_ok (ParseConstraints literal_regexp ?raws)"
    unfolding conjunct1 [OF spec] by (simp add: parse)
  then obtain m where m: "ParseConstraints literal_regexp ?raws = Ok m"
    by (cases "ParseConstraints literal_regexp ?raws") auto
  from conjunct2 [OF spec, rule_format, OF m, of "''rack''"]
  have "map Ok (constraints_of (entries m) ''rack'') = [Ok (Like ''r''), Ok Unique]"
    by (simp add: parse)
  with m show ?thesis by (intro exI conjI)
qed

end
