(* ===== verification/Variables.thy ===== *)
theory Variables
  imports Prelude
begin

text \<open>
  The stack context (src/framework/variables.go): three layers of variables, the
  lookup order between them, their union, and the JSON form in which the context is
  persisted.  Each method is one function on the record.  The setters and \<open>Get\<close> hold the
  mutex of the Go type and are atomic; \<open>All\<close> and the printing and encoding methods read the
  three maps without it, and are modelled for a context that is not written meanwhile.
\<close>

section \<open>State and operations\<close>

record Variables =
  stackVariables :: "(string \<times> string) list"
  arbitraryVariables :: "(string \<times> string) list"
  globalVariables :: "(string \<times> string) list"

definition NewVariables :: Variables where
  "NewVariables = \<lparr>stackVariables = [], arbitraryVariables = [], globalVariables = []\<rparr>"

definition SetStackVariable :: "string \<Rightarrow> string \<Rightarrow> Variables \<Rightarrow> Variables" where
  "SetStackVariable key value v =
     v\<lparr>stackVariables := AList.update key value (stackVariables v)\<rparr>"

definition SetArbitraryVariable :: "string \<Rightarrow> string \<Rightarrow> Variables \<Rightarrow> Variables" where
  "SetArbitraryVariable key value v =
     v\<lparr>arbitraryVariables := AList.update key value (arbitraryVariables v)\<rparr>"

definition SetGlobalVariable :: "string \<Rightarrow> string \<Rightarrow> Variables \<Rightarrow> Variables" where
  "SetGlobalVariable key value v =
     v\<lparr>globalVariables := AList.update key value (globalVariables v)\<rparr>"

definition Get :: "Variables \<Rightarrow> string \<Rightarrow> string result" where
  "Get v key =
     (case map_of (stackVariables v) key of
        Some value \<Rightarrow> Ok value
      | None \<Rightarrow>
          (case map_of (arbitraryVariables v) key of
             Some value \<Rightarrow> Ok value
           | None \<Rightarrow>
               (case map_of (globalVariables v) key of
                  Some value \<Rightarrow> Ok value
                | None \<Rightarrow> Err (''Key '' @ key @ '' is not present''))))"

definition MustGet :: "Variables \<Rightarrow> string \<Rightarrow> string result" where
  "MustGet v key =
     (case Get v key of Ok value \<Rightarrow> Ok value | Err e \<Rightarrow> Panic e | Panic e \<Rightarrow> Panic e)"

definition All :: "Variables \<Rightarrow> (string \<times> string) list" where
  "All v =
     copy_into (stackVariables v)
       (copy_into (arbitraryVariables v)
         (copy_into (globalVariables v) []))"

text \<open>The JSON document is an object of three objects of strings. \<open>enc\<close> and \<open>dec\<close>
  stand for \<open>json.Marshal\<close> and \<open>json.Unmarshal\<close> at that type; a missing member of the
  decoded object reads as a nil map.\<close>

type_synonym var_doc = "(string \<times> (string \<times> string) list) list"

definition variables_doc :: "Variables \<Rightarrow> var_doc" where
  "variables_doc v =
     [(''StackVariables'', stackVariables v),
      (''ArbitraryVariables'', arbitraryVariables v),
      (''GlobalVariables'', globalVariables v)]"

definition MarshalJSON :: "(var_doc \<Rightarrow> 'j result) \<Rightarrow> Variables \<Rightarrow> 'j result" where
  "MarshalJSON enc v = enc (variables_doc v)"

definition doc_member :: "var_doc \<Rightarrow> string \<Rightarrow> (string \<times> string) list" where
  "doc_member ctx name = (case map_of ctx name of None \<Rightarrow> [] | Some es \<Rightarrow> es)"

definition UnmarshalJSON ::
    "('j \<Rightarrow> var_doc result) \<Rightarrow> 'j \<Rightarrow> Variables \<Rightarrow> Variables result" where
  "UnmarshalJSON dec data v =
     and_then (dec data) (\<lambda>ctx.
       let v1 = fold (\<lambda>(k, x). SetStackVariable k x) (doc_member ctx ''StackVariables'') v;
           v2 = fold (\<lambda>(k, x). SetArbitraryVariable k x)
                  (doc_member ctx ''ArbitraryVariables'') v1;
           v3 = fold (\<lambda>(k, x). SetGlobalVariable k x)
                  (doc_member ctx ''GlobalVariables'') v2
       in Ok v3)"

text \<open>Well-formedness: one entry per key in every layer. Two contexts are the same
  when their layers are the same maps.\<close>

definition vars_ok :: "Variables \<Rightarrow> bool" where
  "vars_ok v \<longleftrightarrow>
     distinct (map fst (stackVariables v)) \<and>
     distinct (map fst (arbitraryVariables v)) \<and>
     distinct (map fst (globalVariables v))"

definition same_vars :: "Variables \<Rightarrow> Variables \<Rightarrow> bool" where
  "same_vars v w \<longleftrightarrow>
     map_of (stackVariables v) = map_of (stackVariables w) \<and>
     map_of (arbitraryVariables v) = map_of (arbitraryVariables w) \<and>
     map_of (globalVariables v) = map_of (globalVariables w)"

section \<open>Lemmas\<close>

lemmas set_variable_defs =
  SetStackVariable_def SetArbitraryVariable_def SetGlobalVariable_def

interpretation stack_layer: kv_store SetStackVariable "\<lambda>v. map_of (stackVariables v)"
  by unfold_locales (simp add: set_variable_defs)

interpretation arbitrary_layer:
  kv_store SetArbitraryVariable "\<lambda>v. map_of (arbitraryVariables v)"
  by unfold_locales (simp add: set_variable_defs)

interpretation global_layer: kv_store SetGlobalVariable "\<lambda>v. map_of (globalVariables v)"
  by unfold_locales (simp add: set_variable_defs)

lemma vars_ok_New [simp]: "vars_ok NewVariables"
  by (simp add: vars_ok_def NewVariables_def)

lemma vars_ok_Set [simp]:
  "vars_ok v \<Longrightarrow> vars_ok (SetStackVariable k x v)"
  "vars_ok v \<Longrightarrow> vars_ok (SetArbitraryVariable k x v)"
  "vars_ok v \<Longrightarrow> vars_ok (SetGlobalVariable k x v)"
  by (simp_all add: vars_ok_def set_variable_defs)

lemma vars_ok_fold_Set [simp]:
  "vars_ok v \<Longrightarrow> vars_ok (fold (\<lambda>(k, x). SetStackVariable k x) es v)"
  "vars_ok v \<Longrightarrow> vars_ok (fold (\<lambda>(k, x). SetArbitraryVariable k x) es v)"
  "vars_ok v \<Longrightarrow> vars_ok (fold (\<lambda>(k, x). SetGlobalVariable k x) es v)"
  by (induction es arbitrary: v; force)+

lemma Set_frame [simp]:
  "arbitraryVariables (SetStackVariable k x v) = arbitraryVariables v"
  "globalVariables (SetStackVariable k x v) = globalVariables v"
  "stackVariables (SetArbitraryVariable k x v) = stackVariables v"
  "globalVariables (SetArbitraryVariable k x v) = globalVariables v"
  "stackVariables (SetGlobalVariable k x v) = stackVariables v"
  "arbitraryVariables (SetGlobalVariable k x v) = arbitraryVariables v"
  by (simp_all add: set_variable_defs)

lemma fold_Set_frame [simp]:
  "arbitraryVariables (fold (\<lambda>(k, x). SetStackVariable k x) es v) = arbitraryVariables v"
  "globalVariables (fold (\<lambda>(k, x). SetStackVariable k x) es v) = globalVariables v"
  "stackVariables (fold (\<lambda>(k, x). SetArbitraryVariable k x) es v) = stackVariables v"
  "globalVariables (fold (\<lambda>(k, x). SetArbitraryVariable k x) es v) = globalVariables v"
  "stackVariables (fold (\<lambda>(k, x). SetGlobalVariable k x) es v) = stackVariables v"
  "arbitraryVariables (fold (\<lambda>(k, x). SetGlobalVariable k x) es v) = arbitraryVariables v"
  by (induction es arbitrary: v; force)+

lemma map_of_All:
  "vars_ok v \<Longrightarrow> map_of (All v) =
     map_of (globalVariables v) ++ map_of (arbitraryVariables v) ++ map_of (stackVariables v)"
  by (simp add: All_def vars_ok_def map_of_copy_into)

lemma distinct_All [simp]: "distinct (map fst (All v))"
  by (simp add: All_def)

lemma Get_Ok_iff:
  "Get v k = Ok x \<longleftrightarrow>
     (map_of (globalVariables v) ++ map_of (arbitraryVariables v)
        ++ map_of (stackVariables v)) k = Some x"
  by (simp add: Get_def map_add_def split: option.splits)

lemma Get_no_panic [simp]: "Get v k \<noteq> Panic e"
  by (simp add: Get_def split: option.splits)

lemma Get_SetStackVariable [simp]:
  "Get (SetStackVariable k x v) k' = (if k' = k then Ok x else Get v k')"
  by (simp add: Get_def set_variable_defs split: option.split)

lemma MustGet_Ok_iff [simp]: "MustGet v k = Ok x \<longleftrightarrow> Get v k = Ok x"
  by (simp add: MustGet_def split: result.splits)

text \<open>Persisting a context and reading it back into a fresh one restores every
  layer, provided the JSON codec returns the document it was given (its documented
  behaviour on objects of strings).\<close>
lemma Variables_json_roundtrip:
  assumes "vars_ok v" and "MarshalJSON enc v = Ok data"
    and codec: "dec data = Ok (variables_doc v)"
  shows "\<exists>w. UnmarshalJSON dec data NewVariables = Ok w \<and> vars_ok w \<and> same_vars w v"
proof -
  have "UnmarshalJSON dec data NewVariables = Ok
     (fold (\<lambda>(k, x). SetGlobalVariable k x) (globalVariables v)
       (fold (\<lambda>(k, x). SetArbitraryVariable k x) (arbitraryVariables v)
         (fold (\<lambda>(k, x). SetStackVariable k x) (stackVariables v) NewVariables)))"
    (is "_ = Ok ?w")
    by (simp add: UnmarshalJSON_def codec Let_def doc_member_def variables_doc_def)
  moreover have "same_vars ?w v"
    using assms(1)
    by (simp add: same_vars_def vars_ok_def NewVariables_def stack_layer.get_fold_put
        arbitrary_layer.get_fold_put global_layer.get_fold_put)
  moreover have "vars_ok ?w"
    by simp
  ultimately show ?thesis by blast
qed

section \<open>Properties\<close>

text \<open>C35: The two ways of reading the context agree and follow one precedence: \<open>Get\<close>
  returns a value for a key exactly when \<open>All\<close> maps the key to it, a stack variable
  shadows an arbitrary one and both shadow a global one, in the lookup and in the union.\<close>
theorem Get_eq_All:
  assumes "vars_ok v"
  shows "(Get v k = Ok x \<longleftrightarrow> map_of (All v) k = Some x) \<and>
    map_of (All v) k =
      (case map_of (stackVariables v) k of
         Some y \<Rightarrow> Some y
       | None \<Rightarrow>
           (case map_of (arbitraryVariables v) k of
              Some y \<Rightarrow> Some y
            | None \<Rightarrow> map_of (globalVariables v) k))"
  by (simp add: Get_Ok_iff map_of_All [OF assms] map_add_def split: option.split)

theorem Get_eq_All_witness:
  "let v = SetGlobalVariable ''zone'' ''g'' (SetStackVariable ''zone'' ''s'' NewVariables)
   in vars_ok v \<and> Get v ''zone'' = Ok ''s'' \<and> map_of (All v) ''zone'' = Some ''s''"
proof -
  let ?v = "SetGlobalVariable ''zone'' ''g'' (SetStackVariable ''zone'' ''s'' NewVariables)"
  have ok: "vars_ok ?v" by simp
  have "Get ?v ''zone'' = Ok ''s''"
    by (simp add: Get_def set_variable_defs NewVariables_def)
  with ok Get_eq_All [OF ok, of "''zone''" "''s''"] show ?thesis by (simp add: Let_def)
qed

end
