(* ===== verification/Docker.thy ===== *)
theory Docker
  imports Prelude
begin

text \<open>
  The Docker section of an application (src/framework/docker.go) and its translation
  into the container description that Marathon takes.  The marathon types are the
  fields of the vendored client that the translation fills; a pointer field that is
  always set is its value, an element of a slice of pointers may be nil.
\<close>

record DockerPortMapping =
  ContainerPort :: int
  HostPort :: int
  ServicePort :: int
  Protocol :: string

record DockerVolume =
  ContainerPath :: string
  HostPath :: string
  Mode :: string

record Docker =
  ForcePullImage :: bool
  Image :: string
  Network :: string
  Parameters :: "(string, string) gomap"
  PortMappings :: "DockerPortMapping option list"
  Privileged :: bool
  Volumes :: "DockerVolume option list"

record marathon_PortMapping =
  m_ContainerPort :: int
  m_HostPort :: int
  m_ServicePort :: int
  m_Protocol :: string

record marathon_Volume =
  m_ContainerPath :: string
  m_HostPath :: string
  m_Mode :: string

record marathon_Docker =
  m_ForcePullImage :: bool
  m_Image :: string
  m_Network :: string
  m_Parameters :: "(string \<times> string) list"
  m_PortMappings :: "marathon_PortMapping list"
  m_Privileged :: bool

record marathon_Container =
  m_Type :: string
  m_Docker :: marathon_Docker
  m_Volumes :: "marathon_Volume list"

definition nil_dereference :: error where
  "nil_dereference = ''invalid memory address or nil pointer dereference''"

definition DockerPortMapping_Marathon :: "DockerPortMapping \<Rightarrow> marathon_PortMapping" where
  "DockerPortMapping_Marathon dpm =
     \<lparr>m_ContainerPort = ContainerPort dpm, m_HostPort = HostPort dpm,
      m_ServicePort = ServicePort dpm, m_Protocol = Protocol dpm\<rparr>"

definition DockerVolume_Marathon :: "DockerVolume \<Rightarrow> marathon_Volume" where
  "DockerVolume_Marathon dv =
     \<lparr>m_ContainerPath = ContainerPath dv, m_HostPath = HostPath dv, m_Mode = Mode dv\<rparr>"

definition marathonParameters :: "Docker \<Rightarrow> (string \<times> string) list" where
  "marathonParameters d =
     (if mlen (Parameters d) = 0 then [] else map (\<lambda>(k, v). (k, v)) (entries (Parameters d)))"

fun deref_map :: "('a \<Rightarrow> 'b) \<Rightarrow> 'a option list \<Rightarrow> 'b list result" where
  "deref_map f [] = Ok []"
| "deref_map f (None # ps) = Panic nil_dereference"
| "deref_map f (Some p # ps) = map_result (\<lambda>qs. f p # qs) (deref_map f ps)"

definition marathonPortMappings :: "Docker \<Rightarrow> marathon_PortMapping list result" where
  "marathonPortMappings d =
     (if PortMappings d = [] then Ok []
      else deref_map DockerPortMapping_Marathon (PortMappings d))"

definition marathonVolumes :: "Docker \<Rightarrow> marathon_Volume list result" where
  "marathonVolumes d =
     (if Volumes d = [] then Ok [] else deref_map DockerVolume_Marathon (Volumes d))"

definition MarathonContainer :: "Docker \<Rightarrow> marathon_Container result" where
  "MarathonContainer d =
     and_then (marathonPortMappings d) (\<lambda>portMappings.
       and_then (marathonVolumes d) (\<lambda>volumes. Ok
         \<lparr>m_Type = ''DOCKER'',
          m_Docker =
            \<lparr>m_ForcePullImage = ForcePullImage d, m_Image = Image d, m_Network = Network d,
             m_Parameters = marathonParameters d, m_PortMappings = portMappings,
             m_Privileged = Privileged d\<rparr>,
          m_Volumes = volumes\<rparr>))"

section \<open>Lemmas\<close>

lemma deref_map_Some [simp]: "deref_map f (map Some ps) = Ok (map f ps)"
  by (induction ps) auto

lemma deref_map_nil: "None \<in> set ps \<Longrightarrow> deref_map f ps = Panic nil_dereference"
  by (induction f ps rule: deref_map.induct) auto

lemma all_Some_conv: "None \<notin> set ps \<Longrightarrow> \<exists>qs. ps = map Some qs"
  by (auto simp: ex_map_conv) (metis option.exhaust)

lemma MarathonContainer_Some:
  assumes "PortMappings d = map Some pms" and "Volumes d = map Some vs"
  shows "MarathonContainer d = Ok
    \<lparr>m_Type = ''DOCKER'',
     m_Docker =
       \<lparr>m_ForcePullImage = ForcePullImage d, m_Image = Image d, m_Network = Network d,
        m_Parameters = entries (Parameters d),
        m_PortMappings = map DockerPortMapping_Marathon pms,
        m_Privileged = Privileged d\<rparr>,
     m_Volumes = map DockerVolume_Marathon vs\<rparr>"
  using assms
  by (simp add: MarathonContainer_def marathonPortMappings_def marathonVolumes_def
      marathonParameters_def mlen_def)

text \<open>The translation panics exactly when one of the port mappings or volumes of the
  stack file is null, and otherwise keeps everything.\<close>

lemma MarathonContainer_panic_iff:
  "is_panic (MarathonContainer d) \<longleftrightarrow> None \<in> set (PortMappings d) \<or> None \<in> set (Volumes d)"
proof (cases "None \<in> set (PortMappings d)")
  case True
  then show ?thesis
    by (auto simp: MarathonContainer_def marathonPortMappings_def deref_map_nil)
next
  case False
  then obtain pms where pms: "PortMappings d = map Some pms"
    using all_Some_conv by meson
  show ?thesis
  proof (cases "None \<in> set (Volumes d)")
    case True
    with pms show ?thesis
      by (auto simp: MarathonContainer_def marathonPortMappings_def marathonVolumes_def
          deref_map_nil)
  next
    case F: False
    then obtain vs where "Volumes d = map Some vs" using all_Some_conv by meson
    with pms False F show ?thesis by (simp add: MarathonContainer_Some)
  qed
qed

end
