(* ===== verification/MesosState.thy ===== *)
theory MesosState
  imports Prelude
begin

text \<open>
  The view of the Mesos cluster (src/framework/mesos_state.go): the slaves with their
  attributes, and the refresh from the master.  The HTTP exchange and the JSON decoder
  are arguments of \<open>Update\<close>.
\<close>

text \<open>\<open>Resources\<close> of a slave are decoded and never read, and are left out.\<close>

record Slave =
  Active :: bool
  Attributes :: "(string, string) gomap"
  Hostname :: string
  SlaveID :: string
  PID :: string

record MesosClusterState =
  ActivatedSlaves :: float64
  Slaves :: "Slave list"
  master :: string

definition strip_slash :: "string \<Rightarrow> string" where
  "strip_slash s = (if HasSuffix s ''/'' then take (length s - 1) s else s)"

definition with_scheme :: "string \<Rightarrow> string" where
  "with_scheme s = (if \<not> HasPrefix s ''http://'' then ''http://'' @ s else s)"

definition NewMesosClusterState :: "string \<Rightarrow> MesosClusterState" where
  "NewMesosClusterState m =
     \<lparr>ActivatedSlaves = Fin 0, Slaves = [], master = strip_slash (with_scheme m)\<rparr>"

definition GetActivatedSlaves :: "MesosClusterState \<Rightarrow> int" where
  "GetActivatedSlaves ms = int_of_float (ActivatedSlaves ms)"

definition GetSlaves :: "MesosClusterState \<Rightarrow> Slave list" where
  "GetSlaves ms = Slaves ms"

text \<open>\<open>http_get url\<close> is the body of the response, an error of the exchange or of the
  read, or the panic of using the nil request of a malformed URL. \<open>decode body ms\<close>
  is the state after \<open>json.Unmarshal\<close> into it, with the decoder's error.\<close>

definition Update ::
    "(string \<Rightarrow> 'b result) \<Rightarrow> ('b \<Rightarrow> MesosClusterState \<Rightarrow> MesosClusterState \<times> error option)
     \<Rightarrow> MesosClusterState \<Rightarrow> MesosClusterState \<times> unit result" where
  "Update http_get decode ms =
     (case http_get (master ms @ ''/master/state.json'') of
        Ok body \<Rightarrow>
          (case decode body ms of
             (ms', Some e) \<Rightarrow> (ms', Err e)
           | (ms', None) \<Rightarrow> (ms', Ok ()))
      | Err e \<Rightarrow> (ms, Err e)
      | Panic e \<Rightarrow> (ms, Panic e))"

definition Attribute :: "Slave \<Rightarrow> string \<Rightarrow> string" where
  "Attribute s name =
     (if name = ''hostname'' then Hostname s else mget_str (Attributes s) name)"

section \<open>Lemmas\<close>

lemma HasPrefix_with_scheme [simp]: "HasPrefix (with_scheme s) ''http://''"
  by (simp add: with_scheme_def HasPrefix_def)

lemma with_scheme_idem [simp]: "with_scheme (with_scheme s) = with_scheme s"
  by (subst with_scheme_def) simp

end
