(* ===== verification/Application.thy ===== *)
theory Application
  imports Constraints Variables Docker MesosState
begin

text \<open>
  An application of a stack (src/framework/application.go, with the errors of
  src/framework/errors.go and the helpers of src/framework/util.go): its data, its
  validation, the resolution of variable references, the number of instances, the
  request to Marathon, and the whole deployment \<open>Run\<close>.
  Marathon, the shell, the Mesos scheduler and the task runners are the fields of the
  record \<open>environment\<close>, functions on a world \<open>'w\<close>; nothing is assumed about them.
\<close>

section \<open>Data\<close>

datatype ApplicationStatus =
  ApplicationStatusStaging | ApplicationStatusRunning | ApplicationStatusFailed

fun ApplicationStatuses :: "ApplicationStatus \<Rightarrow> string" where
  "ApplicationStatuses ApplicationStatusStaging = ''STAGING''"
| "ApplicationStatuses ApplicationStatusRunning = ''RUNNING''"
| "ApplicationStatuses ApplicationStatusFailed = ''FAILED''"

text \<open>What the YAML decoder puts behind an \<open>interface{}\<close>; a float is represented by the
  text that \<open>fmt\<close> prints for it, the only thing the program does with one.\<close>

datatype yaml =
    YNil
  | YStr string
  | YInt int
  | YBool bool
  | YFloat string
  | YSeq "yaml list"
  | YMap "(yaml \<times> yaml) list"

record Application =
  Type :: string
  ID :: string
  Version :: string
  Cpu :: float64
  Mem :: float64
  Ports :: "int list"
  Instances :: string
  Constraints :: "string list list"
  User :: string
  Healthcheck :: string
  LaunchCommand :: string
  Args :: "string list"
  Env :: "(string, string) gomap"
  ArtifactURLs :: "string list"
  AdditionalArtifacts :: "string list"
  Scheduler :: "(string, string) gomap"
  Tasks :: "(yaml \<times> yaml) list"
  Dependencies :: "string list"
  DockerSpec :: "Docker option"
  StartTime :: string
  TimeSchedule :: string
  BeforeScheduler :: "string list"
  AfterScheduler :: "string list"
  BeforeTask :: "string list"
  AfterTask :: "string list"
  AfterTasks :: "string list"

text \<open>The zero value of the struct.\<close>

definition empty_application :: Application where
  "empty_application =
     \<lparr>Type = [], ID = [], Version = [], Cpu = Fin 0, Mem = Fin 0, Ports = [],
      Instances = [], Constraints = [], User = [], Healthcheck = [], LaunchCommand = [],
      Args = [], Env = None, ArtifactURLs = [], AdditionalArtifacts = [], Scheduler = None,
      Tasks = [], Dependencies = [], DockerSpec = None, StartTime = [], TimeSchedule = [],
      BeforeScheduler = [], AfterScheduler = [], BeforeTask = [], AfterTask = [],
      AfterTasks = []\<rparr>"

definition ErrApplicationNoType :: error where
  "ErrApplicationNoType = ''No application type''"
definition ErrApplicationNoTaskRunner :: error where
  "ErrApplicationNoTaskRunner = ''No task runner available for application''"
definition ErrApplicationNoID :: error where
  "ErrApplicationNoID = ''No application ID''"
definition ErrApplicationInvalidCPU :: error where
  "ErrApplicationInvalidCPU = ''Invalid application CPU''"
definition ErrApplicationInvalidMem :: error where
  "ErrApplicationInvalidMem = ''Invalid application Mem''"
definition ErrApplicationInvalidInstances :: error where
  "ErrApplicationInvalidInstances =
     ''Invalid number of application instances: supported are numbers greater than zero and ''
       @ [CHR 0x27] @ ''all'' @ [CHR 0x27]"
definition ErrApplicationDoesNotExist :: error where
  "ErrApplicationDoesNotExist = ''Application does not exist''"
definition ErrTaskNotRunning :: error where
  "ErrTaskNotRunning = ''Task is not running''"
definition ErrHealthcheckNotPassing :: error where
  "ErrHealthcheckNotPassing = ''Task healthcheck is not passing''"

section \<open>Validation\<close>

text \<open>\<open>runners\<close> tells which keys the global map \<open>TaskRunners\<close> has.\<close>

definition Application_Validate :: "regexp \<Rightarrow> (string \<Rightarrow> bool) \<Rightarrow> Application \<Rightarrow> unit result" where
  "Application_Validate rx runners a =
     (if Type a = [] then Err ErrApplicationNoType
      else if Tasks a \<noteq> [] \<and> \<not> runners (Type a) then Err ErrApplicationNoTaskRunner
      else if ID a = [] then Err ErrApplicationNoID
      else if fle (Cpu a) (Fin 0) then Err ErrApplicationInvalidCPU
      else if fle (Mem a) (Fin 0) then Err ErrApplicationInvalidMem
      else if Instances a \<noteq> [] \<and> Instances a \<noteq> ''all'' \<and>
              (case Atoi (Instances a) of None \<Rightarrow> True | Some n \<Rightarrow> n < 1)
           then Err ErrApplicationInvalidInstances
      else map_result (\<lambda>_. ()) (ParseConstraints rx (Constraints a)))"

text \<open>\<open>running\<close> is the map of application states, keyed by application ID.\<close>

fun IsDependencySatisfied :: "string list \<Rightarrow> (string \<times> ApplicationStatus) list \<Rightarrow> bool" where
  "IsDependencySatisfied [] running = True"
| "IsDependencySatisfied (d # ds) running =
     (if map_of running d \<noteq> Some ApplicationStatusRunning then False
      else IsDependencySatisfied ds running)"

section \<open>Variable references\<close>

text \<open>The \<open>fmt.Sprint\<close> rendering of a decoded value.\<close>

function (sequential) Sprint :: "yaml \<Rightarrow> string" where
  "Sprint YNil = ''<nil>''"
| "Sprint (YStr s) = s"
| "Sprint (YInt i) = Itoa i"
| "Sprint (YBool b) = (if b then ''true'' else ''false'')"
| "Sprint (YFloat t) = t"
| "Sprint (YSeq xs) = ''['' @ Join (map Sprint xs) '' '' @ '']''"
| "Sprint (YMap kvs) =
     ''['' @ Join (map (\<lambda>kv. ''{'' @ Sprint (fst kv) @ '' '' @ Sprint (snd kv) @ ''}'') kvs) '' ''
       @ '']''"
  by pat_completeness auto
termination
  by (relation "measure size")
     (auto simp: less_Suc_eq_le elim!: in_set_conv_decomp [THEN iffD1, elim_format])

definition MapSliceToMap :: "(yaml \<times> yaml) list \<Rightarrow> (string \<times> string) list" where
  "MapSliceToMap slice = fold (\<lambda>(k, v) m. AList.update (Sprint k) (Sprint v) m) slice []"

definition reference :: "string \<Rightarrow> string" where
  "reference k = ''${'' @ k @ ''}''"

definition substitute :: "string \<times> string \<Rightarrow> string \<Rightarrow> string" where
  "substitute kv s = Replace s (reference (fst kv)) (snd kv)"

text \<open>\<open>kvs\<close> is \<open>context.All()\<close> in the order this call visits it.\<close>

definition resolveCmdVariables :: "(string \<times> string) list \<Rightarrow> string list \<Rightarrow> string list" where
  "resolveCmdVariables kvs cmds = fold (\<lambda>kv cs. map (substitute kv) cs) kvs cmds"

fun resolve_task :: "string \<times> string \<Rightarrow> yaml \<times> yaml \<Rightarrow> (yaml \<times> yaml) result" where
  "resolve_task kv (key, YNil) = Ok (key, YNil)"
| "resolve_task kv (key, YMap items) =
     Ok (key, YMap (map (\<lambda>(k, x). (k, YStr (substitute kv (Sprint x)))) items))"
| "resolve_task kv (key, _) =
     Panic ''interface conversion: interface is not yaml.MapSlice''"

fun resolve_tasks :: "string \<times> string \<Rightarrow> (yaml \<times> yaml) list \<Rightarrow> (yaml \<times> yaml) list result" where
  "resolve_tasks kv [] = Ok []"
| "resolve_tasks kv (t # ts) =
     and_then (resolve_task kv t) (\<lambda>t'. map_result (\<lambda>ts'. t' # ts') (resolve_tasks kv ts))"

text \<open>One iteration of the outer loop; \<open>inner j\<close> is the order in which the \<open>j\<close>-th of the
  five command lists ranges over the context again.\<close>

definition resolve_pass ::
    "(nat \<Rightarrow> (string \<times> string) list) \<Rightarrow> string \<times> string \<Rightarrow> Application \<Rightarrow> Application result" where
  "resolve_pass inner kv a =
     map_result (\<lambda>tasks.
       a\<lparr>LaunchCommand := substitute kv (LaunchCommand a),
         Env := map_option (map (\<lambda>(k, x). (k, substitute kv x))) (Env a),
         Scheduler := map_option (map (\<lambda>(k, x). (k, substitute kv x))) (Scheduler a),
         Args := map (substitute kv) (Args a),
         Tasks := tasks,
         BeforeScheduler := resolveCmdVariables (inner 0) (BeforeScheduler a),
         AfterScheduler := resolveCmdVariables (inner 1) (AfterScheduler a),
         BeforeTask := resolveCmdVariables (inner 2) (BeforeTask a),
         AfterTask := resolveCmdVariables (inner 3) (AfterTask a),
         AfterTasks := resolveCmdVariables (inner 4) (AfterTasks a)\<rparr>)
     (resolve_tasks kv (Tasks a))"

fun resolve_loop ::
    "(nat \<Rightarrow> nat \<Rightarrow> (string \<times> string) list) \<Rightarrow> nat \<Rightarrow> (string \<times> string) list
     \<Rightarrow> Application \<Rightarrow> Application result" where
  "resolve_loop inner i [] a = Ok a"
| "resolve_loop inner i (kv # kvs) a =
     and_then (resolve_pass (inner i) kv a) (\<lambda>a'. resolve_loop inner (Suc i) kvs a')"

text \<open>A range order picks, for the outer loop (\<open>None\<close>) and for every command list of
  every iteration (\<open>Some (i, j)\<close>), an arrangement of the entries it is given.\<close>

type_synonym range_order =
  "(nat \<times> nat) option \<Rightarrow> (string \<times> string) list \<Rightarrow> (string \<times> string) list"

definition resolveVariables :: "range_order \<Rightarrow> Variables \<Rightarrow> Application \<Rightarrow> Application result" where
  "resolveVariables ord context a =
     resolve_loop (\<lambda>i j. ord (Some (i, j)) (All context)) 0 (ord None (All context)) a"

text \<open>\<open>FindString\<close> of the pattern \<open>variableRegexp\<close>: the leftmost dollar-brace that is
  followed by a closing brace on the same line, up to the last closing brace of that
  line (the star is greedy and the dot does not match a newline).\<close>

definition same_line :: "string \<Rightarrow> string" where
  "same_line s = takeWhile (\<lambda>x. x \<noteq> CHR 0x0A) s"

fun find_variable :: "string \<Rightarrow> string" where
  "find_variable [] = []"
| "find_variable (c # cs) =
     (let rest = same_line (drop 2 (c # cs))
      in if prefix ''${'' (c # cs) \<and> CHR ''}'' \<in> set rest
         then ''${'' @ rev (dropWhile (\<lambda>x. x \<noteq> CHR ''}'') (rev rest))
         else find_variable cs)"

text \<open>\<open>shown\<close> is the rendering of the context that the error message quotes.\<close>

definition ensureStringVariableResolved :: "string \<Rightarrow> string \<Rightarrow> unit result" where
  "ensureStringVariableResolved shown value =
     (let unresolved = find_variable value
      in if unresolved \<noteq> []
         then Err (''Unresolved variable '' @ unresolved @ ''. Available variables:'' @
                   [CHR 0x0A] @ shown)
         else Ok ())"

text \<open>The dynamic types that the type switch sees. A \<open>yaml.MapItem\<close> has no case.\<close>

datatype dyn_value =
    StringValue string
  | StringsValue "string list"
  | MapValue "(string, string) gomap"
  | MapSliceValue "(yaml \<times> yaml) list"
  | MapItemValue "yaml \<times> yaml"

fun ensure_strings :: "string \<Rightarrow> string list \<Rightarrow> unit result" where
  "ensure_strings shown [] = Ok ()"
| "ensure_strings shown (s # ss) =
     and_then (ensureStringVariableResolved shown s) (\<lambda>_. ensure_strings shown ss)"

function (sequential) ensure_yaml :: "string \<Rightarrow> yaml \<Rightarrow> unit result"
  and ensure_items :: "string \<Rightarrow> (yaml \<times> yaml) list \<Rightarrow> unit result" where
  "ensure_yaml shown (YStr s) = ensureStringVariableResolved shown s"
| "ensure_yaml shown (YMap items) = ensure_items shown items"
| "ensure_yaml shown _ = Ok ()"
| "ensure_items shown [] = Ok ()"
| "ensure_items shown (kv # kvs) =
     and_then (ensure_yaml shown (snd kv)) (\<lambda>_. ensure_items shown kvs)"
  by pat_completeness auto
termination
  by (relation "measure (\<lambda>x. case x of Inl (_, y) \<Rightarrow> size y
                              | Inr (_, ys) \<Rightarrow> size_list (size_prod size size) ys)")
     (auto simp: size_prod_def split: prod.splits)

fun ensure_value :: "string \<Rightarrow> dyn_value \<Rightarrow> unit result" where
  "ensure_value shown (StringValue s) = ensureStringVariableResolved shown s"
| "ensure_value shown (StringsValue ss) = ensure_strings shown ss"
| "ensure_value shown (MapValue m) = ensure_strings shown (map snd (entries m))"
| "ensure_value shown (MapSliceValue items) = ensure_items shown items"
| "ensure_value shown (MapItemValue item) = Ok ()"

fun ensureVariablesResolved :: "string \<Rightarrow> dyn_value list \<Rightarrow> unit result" where
  "ensureVariablesResolved shown [] = Ok ()"
| "ensureVariablesResolved shown (v # vs) =
     and_then (ensure_value shown v) (\<lambda>_. ensureVariablesResolved shown vs)"

end
