(* ===== verification/ApplicationRun.thy ===== *)
theory ApplicationRun
  imports Application
begin

text \<open>
  The deployment of one application (src/framework/application.go, lines 123 to 502):
  the number of instances, the request to Marathon, the wait until the application
  runs, and \<open>Run\<close>, the sequence of all steps with its early returns.
\<close>

section \<open>Instances\<close>

definition GetConstraints :: "regexp \<Rightarrow> Application \<Rightarrow> constraint_map result" where
  "GetConstraints rx a =
     (case ParseConstraints rx (Constraints a) of
        Ok cs \<Rightarrow> Ok cs | Err e \<Rightarrow> Panic e | Panic e \<Rightarrow> Panic e)"

definition otherSlavesAttributes :: "Slave list \<Rightarrow> string \<Rightarrow> string list" where
  "otherSlavesAttributes slaves name =
     filter (\<lambda>v. v \<noteq> []) (map (\<lambda>s. Attribute s name) slaves)"

definition slaveMatches ::
    "regexp \<Rightarrow> (string \<times> Constraint list) list \<Rightarrow> Slave \<Rightarrow> Slave list \<Rightarrow> bool" where
  "slaveMatches rx cs slave others =
     list_all (\<lambda>(attribute, attributeConstraints).
       let slaveAttribute = Attribute slave attribute
       in slaveAttribute \<noteq> [] \<and>
          list_all (\<lambda>c. Matches rx c slaveAttribute (otherSlavesAttributes others attribute))
            attributeConstraints) cs"

definition matching_slaves ::
    "regexp \<Rightarrow> (string \<times> Constraint list) list \<Rightarrow> Slave list \<Rightarrow> Slave list" where
  "matching_slaves rx cs slaves =
     fold (\<lambda>slave matching. if slaveMatches rx cs slave matching
                            then matching @ [slave] else matching) slaves []"

definition calculateAllInstances ::
    "regexp \<Rightarrow> Application \<Rightarrow> MesosClusterState \<Rightarrow> int result" where
  "calculateAllInstances rx a mesos =
     and_then (GetConstraints rx a) (\<lambda>cs.
       if mlen cs = 0 then Ok (GetActivatedSlaves mesos)
       else Ok (int (length (matching_slaves rx (entries cs) (GetSlaves mesos)))))"

definition GetInstances :: "regexp \<Rightarrow> Application \<Rightarrow> MesosClusterState \<Rightarrow> int result" where
  "GetInstances rx a mesos =
     (if Instances a = [] then Ok 1
      else if Instances a = ''all'' then calculateAllInstances rx a mesos
      else (case Atoi (Instances a) of
              None \<Rightarrow> Panic (''strconv.ParseInt: parsing '' @ Instances a)
            | Some n \<Rightarrow> Ok n))"

section \<open>The request to Marathon\<close>

record marathon_HealthCheck =
  hc_Protocol :: string
  hc_Path :: string
  hc_GracePeriodSeconds :: int
  hc_IntervalSeconds :: int
  hc_PortIndex :: int
  hc_MaxConsecutiveFailures :: int
  hc_TimeoutSeconds :: int

record marathon_Application =
  ma_ID :: string
  ma_Cmd :: "string option"
  ma_Args :: "string list"
  ma_Env :: "(string \<times> string) list"
  ma_Instances :: int
  ma_CPUs :: float64
  ma_Mem :: float64
  ma_Ports :: "int list"
  ma_RequirePorts :: bool
  ma_Uris :: "string list"
  ma_User :: string
  ma_HealthChecks :: "marathon_HealthCheck list"
  ma_Constraints :: "string list list"
  ma_Labels :: "(string \<times> string) list"
  ma_Container :: "marathon_Container option"

record marathon_Task =
  Host :: string
  TaskPorts :: "int list"

text \<open>A failed \<open>Get\<close> returns the empty string, which is not used as a label.\<close>

definition getLabelsFromContext :: "Variables \<Rightarrow> (string \<times> string) list" where
  "getLabelsFromContext context =
     fold (\<lambda>key labels.
       case Get context key of
         Ok val \<Rightarrow> if val \<noteq> [] then AList.update key val labels else labels
       | _ \<Rightarrow> labels) [''zone'', ''stack''] []"

definition getLaunchCommand :: "Application \<Rightarrow> string option" where
  "getLaunchCommand a =
     (let cmd = fold (\<lambda>(k, v) cmd. cmd @ '' --'' @ k @ '' '' @ v)
                  (entries (Scheduler a)) (LaunchCommand a)
      in if cmd = [] then None else Some cmd)"

text \<open>\<open>labels\<close> are the labels of the context in the order the loop visits them.\<close>

definition getEnv :: "(string \<times> string) list \<Rightarrow> Application \<Rightarrow> (string \<times> string) list" where
  "getEnv labels a =
     (let stackLabels = Join (map (\<lambda>(key, val). key @ ''='' @ val) labels) '';'';
          env = (if stackLabels \<noteq> [] then AList.update ''STACK_LABELS'' stackLabels [] else [])
      in copy_into (entries (Env a)) env)"

definition getHealthchecks :: "Application \<Rightarrow> marathon_HealthCheck list" where
  "getHealthchecks a =
     (if Healthcheck a \<noteq> []
      then [\<lparr>hc_Protocol = ''HTTP'', hc_Path = Healthcheck a, hc_GracePeriodSeconds = 120,
             hc_IntervalSeconds = 10, hc_PortIndex = 0, hc_MaxConsecutiveFailures = 18,
             hc_TimeoutSeconds = 30\<rparr>]
      else [])"

definition getContainer :: "Application \<Rightarrow> marathon_Container option result" where
  "getContainer a =
     (case DockerSpec a of
        None \<Rightarrow> Ok None
      | Some d \<Rightarrow> map_result Some (MarathonContainer d))"

definition createApplication ::
    "regexp \<Rightarrow> ((string \<times> string) list \<Rightarrow> (string \<times> string) list) \<Rightarrow> Variables
     \<Rightarrow> MesosClusterState \<Rightarrow> Application \<Rightarrow> marathon_Application result" where
  "createApplication rx arrange context mesos a =
     and_then (GetInstances rx a mesos) (\<lambda>instances.
       and_then (getContainer a) (\<lambda>container. Ok
         \<lparr>ma_ID = ID a, ma_Cmd = getLaunchCommand a, ma_Args = Args a,
          ma_Env = getEnv (arrange (getLabelsFromContext context)) a,
          ma_Instances = instances, ma_CPUs = Cpu a, ma_Mem = Mem a, ma_Ports = Ports a,
          ma_RequirePorts = (Ports a \<noteq> []),
          ma_Uris = ArtifactURLs a @ AdditionalArtifacts a, ma_User = User a,
          ma_HealthChecks = getHealthchecks a, ma_Constraints = Constraints a,
          ma_Labels = getLabelsFromContext context, ma_Container = container\<rparr>))"

section \<open>The environment\<close>

text \<open>The interface \<open>TaskRunner\<close> (src/framework/task_runner.go): both methods may
  change the stack context.\<close>

record 'w TaskRunner =
  FillContext :: "Variables \<Rightarrow> Application \<Rightarrow> marathon_Task \<Rightarrow> 'w
                  \<Rightarrow> unit result \<times> Variables \<times> 'w"
  RunTask :: "Variables \<Rightarrow> Application \<Rightarrow> (string \<times> string) list \<Rightarrow> 'w
                  \<Rightarrow> unit result \<times> Variables \<times> 'w"

text \<open>\<open>shell\<close> writes the script and runs it; \<open>marathon_application\<close> gives nil or the
  numbers of running and healthy tasks; \<open>mesos_run\<close> receives the status of an
  application handed to the Mesos scheduler; \<open>arrange\<close> and \<open>order\<close> are the orders
  of the \<open>range\<close> statements, \<open>order n\<close> for the \<open>n\<close>-th call of \<open>resolveVariables\<close>.\<close>

record 'w environment =
  regexps :: regexp
  shell :: "string list \<Rightarrow> string \<Rightarrow> 'w \<Rightarrow> unit result \<times> 'w"
  marathon_create :: "marathon_Application \<Rightarrow> 'w \<Rightarrow> unit result \<times> 'w"
  marathon_application :: "string \<Rightarrow> 'w \<Rightarrow> (int \<times> int) option result \<times> 'w"
  marathon_tasks :: "string \<Rightarrow> 'w \<Rightarrow> marathon_Task list option result \<times> 'w"
  mesos_run :: "Application \<Rightarrow> 'w \<Rightarrow> unit result \<times> 'w"
  mesos_state :: "'w \<Rightarrow> MesosClusterState"
  TaskRunners :: "string \<Rightarrow> 'w TaskRunner option"
  MesosTaskRunners :: "string \<Rightarrow> bool"
  show_variables :: "Variables \<Rightarrow> string"
  arrange :: "(string \<times> string) list \<Rightarrow> (string \<times> string) list"
  order :: "nat \<Rightarrow> range_order"

text \<open>The state of one deployment: the application, whose strings are resolved in
  place, the shared context and the world.\<close>

record 'w deployment =
  app :: Application
  vars :: Variables
  world :: 'w

type_synonym 'w step = "'w deployment \<Rightarrow> unit result \<times> 'w deployment"

text \<open>A sequence of statements, each followed by \<open>if err != nil { return err }\<close>.\<close>

fun sequence :: "'w step list \<Rightarrow> 'w step" where
  "sequence [] s = (Ok (), s)"
| "sequence (f # fs) s =
     (case f s of
        (Ok _, s') \<Rightarrow> sequence fs s'
      | (r, s') \<Rightarrow> (r, s'))"

section \<open>Steps\<close>

definition resolve :: "'w environment \<Rightarrow> nat \<Rightarrow> 'w step" where
  "resolve E n s =
     (case resolveVariables (order E n) (vars s) (app s) of
        Ok a \<Rightarrow> (Ok (), s\<lparr>app := a\<rparr>)
      | Err e \<Rightarrow> (Err e, s)
      | Panic e \<Rightarrow> (Panic e, s))"

definition ensure :: "'w environment \<Rightarrow> (Application \<Rightarrow> dyn_value list) \<Rightarrow> 'w step" where
  "ensure E values s = (ensureVariablesResolved (show_variables E (vars s)) (values (app s)), s)"

definition executeCommands ::
    "'w environment \<Rightarrow> (Application \<Rightarrow> string list) \<Rightarrow> string \<Rightarrow> 'w step" where
  "executeCommands E commands script s =
     (if commands (app s) = [] then (Ok (), s)
      else (case shell E (commands (app s)) (ID (app s) @ script) (world s) of
              (r, w) \<Rightarrow> (r, s\<lparr>world := w\<rparr>)))"

definition checkRunningAndHealthy ::
    "'w environment \<Rightarrow> Application \<Rightarrow> 'w \<Rightarrow> unit result \<times> 'w" where
  "checkRunningAndHealthy E a w =
     (case marathon_application E (ID a) w of
        (Err e, w') \<Rightarrow> (Err e, w')
      | (Panic e, w') \<Rightarrow> (Panic e, w')
      | (Ok None, w') \<Rightarrow> (Err ErrApplicationDoesNotExist, w')
      | (Ok (Some (tasksRunning, tasksHealthy)), w') \<Rightarrow>
          (if tasksRunning = 0 then (Err ErrTaskNotRunning, w')
           else if Healthcheck a \<noteq> [] \<and> tasksHealthy = 0
                then (Err ErrHealthcheckNotPassing, w')
           else (Ok (), w')))"

text \<open>\<open>attempts\<close> counts the iterations of \<open>for i := 0; i <= retries; i++\<close> that are left.\<close>

fun await_loop :: "'w environment \<Rightarrow> Application \<Rightarrow> int \<Rightarrow> nat \<Rightarrow> 'w \<Rightarrow> unit result \<times> 'w" where
  "await_loop E a retries 0 w =
     (Err (''Failed to await until the task is running and healthy within '' @ Itoa retries @
           '' retries''), w)"
| "await_loop E a retries (Suc attempts) w =
     (case checkRunningAndHealthy E a w of
        (Ok _, w') \<Rightarrow> (Ok (), w')
      | (Panic e, w') \<Rightarrow> (Panic e, w')
      | (Err e, w') \<Rightarrow> await_loop E a retries attempts w')"

definition awaitRunningAndHealthy ::
    "'w environment \<Rightarrow> Application \<Rightarrow> int \<Rightarrow> 'w \<Rightarrow> unit result \<times> 'w" where
  "awaitRunningAndHealthy E a retries w = await_loop E a retries (nat (retries + 1)) w"

definition runMarathon :: "'w environment \<Rightarrow> int \<Rightarrow> 'w step" where
  "runMarathon E maxWait s =
     (case createApplication (regexps E) (arrange E) (vars s) (mesos_state E (world s)) (app s) of
        Err e \<Rightarrow> (Err e, s)
      | Panic e \<Rightarrow> (Panic e, s)
      | Ok application \<Rightarrow>
          (case marathon_create E application (world s) of
             (Ok _, w) \<Rightarrow>
               (case awaitRunningAndHealthy E (app s) maxWait w of
                  (r, w') \<Rightarrow> (r, s\<lparr>world := w'\<rparr>))
           | (r, w) \<Rightarrow> (r, s\<lparr>world := w\<rparr>)))"

definition runMesos :: "'w environment \<Rightarrow> 'w step" where
  "runMesos E s =
     (case mesos_run E (app s) (world s) of (r, w) \<Rightarrow> (r, s\<lparr>world := w\<rparr>))"

definition launch :: "'w environment \<Rightarrow> int \<Rightarrow> 'w step" where
  "launch E maxWait s =
     (if MesosTaskRunners E (Type (app s)) then runMesos E s else runMarathon E maxWait s)"

definition fillContext :: "'w environment \<Rightarrow> 'w TaskRunner \<Rightarrow> 'w step" where
  "fillContext E runner s =
     (case marathon_tasks E (ID (app s)) (world s) of
        (Err e, w) \<Rightarrow> (Err e, s\<lparr>world := w\<rparr>)
      | (Panic e, w) \<Rightarrow> (Panic e, s\<lparr>world := w\<rparr>)
      | (Ok None, w) \<Rightarrow> (Err ErrTaskNotRunning, s\<lparr>world := w\<rparr>)
      | (Ok (Some []), w) \<Rightarrow> (Err ErrTaskNotRunning, s\<lparr>world := w\<rparr>)
      | (Ok (Some (task # _)), w) \<Rightarrow>
          (case FillContext runner (vars s) (app s) task w of
             (r, v, w') \<Rightarrow> (r, s\<lparr>vars := v, world := w'\<rparr>)))"

text \<open>The \<open>i\<close>-th task is read from the application at the time it is run, since
  \<open>resolveVariables\<close> writes the resolved values into the slice the loop ranges over.\<close>

definition task_item :: "nat \<Rightarrow> Application \<Rightarrow> yaml \<times> yaml" where
  "task_item i a = (if i < length (Tasks a) then Tasks a ! i else (YNil, YNil))"

definition runTask :: "'w TaskRunner \<Rightarrow> nat \<Rightarrow> 'w step" where
  "runTask runner i s =
     (case snd (task_item i (app s)) of
        YMap items \<Rightarrow>
          (case RunTask runner (vars s) (app s) (MapSliceToMap items) (world s) of
             (r, v, w) \<Rightarrow> (r, s\<lparr>vars := v, world := w\<rparr>))
      | _ \<Rightarrow> (Panic ''interface conversion: interface is not yaml.MapSlice'', s))"

definition task_steps :: "'w environment \<Rightarrow> 'w TaskRunner \<Rightarrow> nat \<Rightarrow> 'w step list" where
  "task_steps E runner i =
     [resolve E (2 + 2 * i),
      ensure E (\<lambda>a. [StringsValue (BeforeTask a), MapItemValue (task_item i a)]),
      executeCommands E BeforeTask ''_before_task.sh'',
      runTask runner i,
      resolve E (3 + 2 * i),
      ensure E (\<lambda>a. [StringsValue (AfterTask a)]),
      executeCommands E AfterTask ''_after_task.sh'']"

definition runTasks :: "'w environment \<Rightarrow> 'w step" where
  "runTasks E s =
     (case TaskRunners E (Type (app s)) of
        None \<Rightarrow> (Ok (), s)
      | Some runner \<Rightarrow>
          sequence (fillContext E runner #
            concat (map (task_steps E runner) [0..<length (Tasks (app s))])) s)"

definition run_steps :: "'w environment \<Rightarrow> int \<Rightarrow> nat \<Rightarrow> 'w step list" where
  "run_steps E maxWait n =
     [resolve E 0,
      ensure E (\<lambda>a. [StringsValue (BeforeScheduler a), StringValue (LaunchCommand a),
                      MapValue (Scheduler a), StringsValue (Args a), MapValue (Env a)]),
      executeCommands E BeforeScheduler ''_before_scheduler.sh'',
      launch E maxWait,
      resolve E 1,
      ensure E (\<lambda>a. [StringsValue (AfterScheduler a)]),
      executeCommands E AfterScheduler ''_after_scheduler.sh'',
      runTasks E,
      resolve E (2 + 2 * n),
      ensure E (\<lambda>a. [StringsValue (AfterTasks a)]),
      executeCommands E AfterTasks ''_after_tasks.sh'']"

definition Application_Run :: "'w environment \<Rightarrow> int \<Rightarrow> 'w step" where
  "Application_Run E maxWait s = sequence (run_steps E maxWait (length (Tasks (app s)))) s"

end
