(* ===== verification/RunOnce.thy ===== *)
theory RunOnce
  imports ApplicationRun
begin

text \<open>
  Applications that run once on Mesos (src/mesosrunners): the context of a staged
  application with its tasks, the matching of resource offers, the launch of tasks, status
  updates, and the cron schedules.  The scheduler driver, the sum of the scalar resources
  of an offer and the generator of UUIDs are parameters.  The locks make every method
  atomic; the status channel of a context is a number, and what is sent on it is returned.
\<close>

section \<open>Data\<close>

datatype TaskState =
    TASK_STARTING | TASK_RUNNING | TASK_FINISHED | TASK_FAILED | TASK_KILLED | TASK_LOST
  | TASK_STAGING | TASK_ERROR

fun TaskState_String :: "TaskState \<Rightarrow> string" where
  "TaskState_String TASK_STARTING = ''TASK_STARTING''"
| "TaskState_String TASK_RUNNING = ''TASK_RUNNING''"
| "TaskState_String TASK_FINISHED = ''TASK_FINISHED''"
| "TaskState_String TASK_FAILED = ''TASK_FAILED''"
| "TaskState_String TASK_KILLED = ''TASK_KILLED''"
| "TaskState_String TASK_LOST = ''TASK_LOST''"
| "TaskState_String TASK_STAGING = ''TASK_STAGING''"
| "TaskState_String TASK_ERROR = ''TASK_ERROR''"

record TaskStatus =
  status_task :: string
  status_state :: TaskState
  status_message :: string

record CommandInfo =
  command_shell :: bool
  command_value :: string
  command_uris :: "(string \<times> bool) list option"

record TaskInfo =
  info_name :: string
  info_id :: string
  info_slave :: string
  info_resources :: "(string \<times> float64) list"
  info_command :: CommandInfo

record 'w mesos_driver =
  LaunchTasks :: "string list \<Rightarrow> TaskInfo list \<Rightarrow> 'w \<Rightarrow> unit result \<times> 'w"
  DeclineOffer :: "string \<Rightarrow> 'w \<Rightarrow> 'w"
  ReviveOffers :: "'w \<Rightarrow> 'w"
  GetScalarResources :: "Offer \<Rightarrow> string \<Rightarrow> float64"
  NewUUID :: "'w \<Rightarrow> string \<times> 'w"

record runOnceTask =
  State :: TaskState
  task_Attributes :: "(string \<times> string) list"
  TaskID :: string

record RunOnceApplicationContext =
  ctx_Application :: Application
  StatusChan :: nat
  InstancesLeftToRun :: int
  tasks :: "runOnceTask list"

definition newRunOnceTask :: "Offer \<Rightarrow> string \<Rightarrow> runOnceTask" where
  "newRunOnceTask offer taskID =
     \<lparr>State = TASK_STAGING, task_Attributes = OfferAttributes offer, TaskID = taskID\<rparr>"

section \<open>Task identifiers\<close>

definition pipe :: char where "pipe = CHR ''|''"

definition unexpected_id :: "string \<Rightarrow> error" where
  "unexpected_id taskID = ''Unexpected task ID '' @ taskID"

definition applicationIDFromTaskID :: "string \<Rightarrow> string result" where
  "applicationIDFromTaskID taskID =
     (case IndexByte taskID pipe of
        None \<Rightarrow> Panic (unexpected_id taskID)
      | Some pipeIndex \<Rightarrow> Ok (take pipeIndex taskID))"

definition hostnameFromTaskID :: "string \<Rightarrow> string result" where
  "hostnameFromTaskID taskID =
     (case IndexByte taskID pipe of
        None \<Rightarrow> Panic (unexpected_id taskID)
      | Some pipeIndex \<Rightarrow>
          (let hostnameAndUUID = drop (pipeIndex + 1) taskID
           in case IndexByte hostnameAndUUID pipe of
                None \<Rightarrow> Panic (unexpected_id taskID)
              | Some i \<Rightarrow> Ok (take i hostnameAndUUID)))"

definition newTaskID :: "string \<Rightarrow> string \<Rightarrow> string \<Rightarrow> string" where
  "newTaskID applicationID host uuid = applicationID @ [pipe] @ host @ [pipe] @ uuid"

section \<open>Matching offers\<close>

definition otherTasksAttributes :: "RunOnceApplicationContext \<Rightarrow> string \<Rightarrow> string list" where
  "otherTasksAttributes ctx name =
     filter (\<lambda>v. v \<noteq> [])
       (map (\<lambda>t. case map_of (task_Attributes t) name of None \<Rightarrow> [] | Some v \<Rightarrow> v)
         (filter (\<lambda>t. State t \<noteq> TASK_STARTING) (tasks ctx)))"

fun check_attribute ::
    "regexp \<Rightarrow> RunOnceApplicationContext \<Rightarrow> Offer \<Rightarrow> string \<Rightarrow> Constraint list \<Rightarrow> string" where
  "check_attribute rx ctx offer name [] = []"
| "check_attribute rx ctx offer name (c # cs) =
     (case map_of (OfferAttributes offer) name of
        Some attribute \<Rightarrow>
          if \<not> Matches rx c attribute (otherTasksAttributes ctx name)
          then name @ '' doesn'' @ [CHR 0x27] @ ''t match '' @ String c
          else check_attribute rx ctx offer name cs
      | None \<Rightarrow> ''no '' @ name)"

fun check_all ::
    "regexp \<Rightarrow> RunOnceApplicationContext \<Rightarrow> Offer \<Rightarrow> (string \<times> Constraint list) list \<Rightarrow> string" where
  "check_all rx ctx offer [] = []"
| "check_all rx ctx offer ((name, cs) # es) =
     (let reason = check_attribute rx ctx offer name cs
      in if reason \<noteq> [] then reason else check_all rx ctx offer es)"

definition CheckConstraints ::
    "regexp \<Rightarrow> RunOnceApplicationContext \<Rightarrow> Offer \<Rightarrow> string result" where
  "CheckConstraints rx ctx offer =
     map_result (\<lambda>cs. check_all rx ctx offer (entries cs)) (GetConstraints rx (ctx_Application ctx))"

definition ctx_Matches ::
    "regexp \<Rightarrow> 'w mesos_driver \<Rightarrow> RunOnceApplicationContext \<Rightarrow> Offer \<Rightarrow> string result" where
  "ctx_Matches rx D ctx offer =
     (if InstancesLeftToRun ctx = 0 then Ok ''all instances are staged/running''
      else and_then (CheckConstraints rx ctx offer) (\<lambda>declineReason.
        if declineReason \<noteq> [] then Ok declineReason
        else if fgt (Cpu (ctx_Application ctx)) (GetScalarResources D offer ''cpus'') then Ok ''no cpus''
        else if fgt (Mem (ctx_Application ctx)) (GetScalarResources D offer ''mem'') then Ok ''no mem''
        else Ok []))"

section \<open>Launching\<close>

definition task_uris :: "Application \<Rightarrow> (string \<times> bool) list option" where
  "task_uris a =
     (if length (ArtifactURLs a) > 0 \<or> length (AdditionalArtifacts a) > 0
      then Some (map (\<lambda>uri. (uri, True)) (ArtifactURLs a) @
                 map (\<lambda>uri. (uri, True)) (AdditionalArtifacts a))
      else None)"

definition newTaskInfo ::
    "RunOnceApplicationContext \<Rightarrow> Offer \<Rightarrow> string \<Rightarrow> TaskInfo" where
  "newTaskInfo ctx offer uuid =
     (let a = ctx_Application ctx in
      \<lparr>info_name = ID a @ ''.'' @ hostname offer,
       info_id = newTaskID (ID a) (hostname offer) uuid,
       info_slave = slave_id offer,
       info_resources = [(''cpus'', Cpu a), (''mem'', Mem a)],
       info_command = \<lparr>command_shell = True, command_value = LaunchCommand a,
                       command_uris = task_uris a\<rparr>\<rparr>)"

definition LaunchTask ::
    "'w mesos_driver \<Rightarrow> RunOnceApplicationContext \<Rightarrow> Offer \<Rightarrow> 'w
     \<Rightarrow> unit result \<times> RunOnceApplicationContext \<times> 'w" where
  "LaunchTask D ctx offer w =
     (case NewUUID D w of (uuid, w1) \<Rightarrow>
       (let taskInfo = newTaskInfo ctx offer uuid;
            ctx' = ctx\<lparr>InstancesLeftToRun := InstancesLeftToRun ctx - 1,
                       tasks := tasks ctx @ [newRunOnceTask offer (info_id taskInfo)]\<rparr>
        in case LaunchTasks D [offer_id offer] [taskInfo] w1 of (r, w2) \<Rightarrow> (r, ctx', w2)))"

section \<open>Status updates\<close>

definition allTasksFinished :: "RunOnceApplicationContext \<Rightarrow> bool" where
  "allTasksFinished ctx \<longleftrightarrow> InstancesLeftToRun ctx = 0 \<and>
     list_all (\<lambda>t. State t = TASK_FINISHED \<or> State t = TASK_KILLED) (tasks ctx)"

fun update_first :: "string \<Rightarrow> TaskState \<Rightarrow> runOnceTask list \<Rightarrow> runOnceTask list" where
  "update_first taskID st [] = []"
| "update_first taskID st (t # ts) =
     (if TaskID t = taskID then t\<lparr>State := st\<rparr> # ts else t # update_first taskID st ts)"

definition updateTaskState ::
    "RunOnceApplicationContext \<Rightarrow> TaskStatus \<Rightarrow> RunOnceApplicationContext" where
  "updateTaskState ctx status =
     ctx\<lparr>tasks := update_first (status_task status) (status_state status) (tasks ctx)\<rparr>"

definition failed_to_run :: "RunOnceApplicationContext \<Rightarrow> string \<Rightarrow> TaskStatus \<Rightarrow> error" where
  "failed_to_run ctx host status =
     ''Application '' @ ID (ctx_Application ctx) @ '' failed to run on host '' @ host @
     '' with status '' @ TaskState_String (status_state status) @ '': '' @ status_message status"

text \<open>The result is what is sent on the status channel; the method returns true exactly
  when something is sent.\<close>

definition ctx_StatusUpdate ::
    "RunOnceApplicationContext \<Rightarrow> TaskStatus
     \<Rightarrow> unit result option result \<times> RunOnceApplicationContext" where
  "ctx_StatusUpdate ctx status =
     (case hostnameFromTaskID (status_task status) of
        Err e \<Rightarrow> (Err e, ctx)
      | Panic e \<Rightarrow> (Panic e, ctx)
      | Ok host \<Rightarrow>
          (let ctx' = updateTaskState ctx status in
           case status_state status of
             TASK_RUNNING \<Rightarrow> (Ok None, ctx')
           | TASK_LOST \<Rightarrow> (Ok (Some (Err (failed_to_run ctx host status))), ctx')
           | TASK_FAILED \<Rightarrow> (Ok (Some (Err (failed_to_run ctx host status))), ctx')
           | TASK_ERROR \<Rightarrow> (Ok (Some (Err (failed_to_run ctx host status))), ctx')
           | TASK_FINISHED \<Rightarrow> (Ok (if allTasksFinished ctx' then Some (Ok ()) else None), ctx')
           | TASK_KILLED \<Rightarrow> (Ok (if allTasksFinished ctx' then Some (Ok ()) else None), ctx')
           | TASK_STARTING \<Rightarrow> (Ok None, ctx')
           | TASK_STAGING \<Rightarrow> (Ok None, ctx')))"

section \<open>The runner\<close>

text \<open>The contexts by application, with one entry per key; the channels are numbered.\<close>

record RunOnceRunner =
  applications :: "(string \<times> RunOnceApplicationContext) list"
  channels :: nat

definition NewRunOnceRunner :: RunOnceRunner where
  "NewRunOnceRunner = \<lparr>applications = [], channels = 0\<rparr>"

text \<open>What the caller of \<open>StageApplication\<close> gets: a channel that already holds a status,
  or the channel of the new context.\<close>

datatype status_chan = Delivered "unit result" | Awaiting nat

definition StageApplication ::
    "regexp \<Rightarrow> Application \<Rightarrow> MesosClusterState \<Rightarrow> RunOnceRunner
     \<Rightarrow> status_chan result \<times> RunOnceRunner" where
  "StageApplication rx a mesos r =
     (case GetInstances rx a mesos of
        Err e \<Rightarrow> (Err e, r)
      | Panic e \<Rightarrow> (Panic e, r)
      | Ok instances \<Rightarrow>
          if instances = 0 then (Ok (Delivered (Ok ())), r)
          else (let ctx = \<lparr>ctx_Application = a, StatusChan = channels r,
                           InstancesLeftToRun = instances, tasks = []\<rparr>
                in (Ok (Awaiting (channels r)),
                    \<lparr>applications = AList.update (ID a) ctx (applications r),
                     channels = Suc (channels r)\<rparr>)))"

fun offer_loop ::
    "regexp \<Rightarrow> 'w mesos_driver \<Rightarrow> Offer \<Rightarrow> (string \<times> RunOnceApplicationContext) list
     \<Rightarrow> string list \<Rightarrow> RunOnceRunner \<Rightarrow> 'w \<Rightarrow> string result \<times> RunOnceRunner \<times> 'w" where
  "offer_loop rx D offer [] declineReasons r w = (Ok (Join declineReasons '', ''), r, w)"
| "offer_loop rx D offer ((key, ctx) # rest) declineReasons r w =
     (case ctx_Matches rx D ctx offer of
        Err e \<Rightarrow> (Err e, r, w)
      | Panic e \<Rightarrow> (Panic e, r, w)
      | Ok declineReason \<Rightarrow>
          if declineReason = []
          then (case LaunchTask D ctx offer w of
                  (res, ctx', w') \<Rightarrow>
                    (map_result (\<lambda>_. []) res,
                     r\<lparr>applications := AList.update key ctx' (applications r)\<rparr>, w'))
          else offer_loop rx D offer rest (declineReasons @ [declineReason]) r w)"

text \<open>The range statement visits the contexts in an order \<open>ord\<close> that is chosen anew in
  every call.\<close>

type_synonym range_order =
  "(string \<times> RunOnceApplicationContext) list \<Rightarrow> (string \<times> RunOnceApplicationContext) list"

definition permutes_range :: "range_order \<Rightarrow> bool" where
  "permutes_range ord \<longleftrightarrow> (\<forall>es. mset (ord es) = mset es)"

definition ResourceOffer ::
    "regexp \<Rightarrow> 'w mesos_driver \<Rightarrow> range_order \<Rightarrow> Offer \<Rightarrow> RunOnceRunner \<Rightarrow> 'w
     \<Rightarrow> string result \<times> RunOnceRunner \<times> 'w" where
  "ResourceOffer rx D ord offer r w =
     (if applications r = [] then (Ok ''all tasks are running'', r, w)
      else offer_loop rx D offer (ord (applications r)) [] r w)"

text \<open>The boolean result, and the channel with the status that is sent on it.\<close>

definition runner_StatusUpdate ::
    "TaskStatus \<Rightarrow> RunOnceRunner
     \<Rightarrow> (bool \<times> (nat \<times> unit result) option) result \<times> RunOnceRunner" where
  "runner_StatusUpdate status r =
     (case applicationIDFromTaskID (status_task status) of
        Err e \<Rightarrow> (Err e, r)
      | Panic e \<Rightarrow> (Panic e, r)
      | Ok applicationID \<Rightarrow>
          (case map_of (applications r) applicationID of
             None \<Rightarrow> (Ok (False, None), r)
           | Some ctx \<Rightarrow>
               (case ctx_StatusUpdate ctx status of
                  (Err e, ctx') \<Rightarrow> (Err e, r)
                | (Panic e, ctx') \<Rightarrow> (Panic e, r)
                | (Ok (Some st), ctx') \<Rightarrow>
                    (Ok (True, Some (StatusChan ctx', st)),
                     r\<lparr>applications := AList.delete applicationID (applications r)\<rparr>)
                | (Ok None, ctx') \<Rightarrow>
                    (Ok (True, None),
                     r\<lparr>applications := AList.update applicationID ctx' (applications r)\<rparr>))))"

section \<open>Schedules\<close>

text \<open>A cron job is one of the closures of time_scheduler.go: it stages an application,
  or it adds the job that does so on a schedule.\<close>

datatype cron_job = StageJob Application | AddJob string Application

record 'w CronScheduler =
  AddFunc :: "string \<Rightarrow> cron_job \<Rightarrow> 'w \<Rightarrow> (int \<times> error option) \<times> 'w"
  DeleteJob :: "int \<Rightarrow> 'w \<Rightarrow> 'w"

definition add_job :: "'w CronScheduler \<Rightarrow> string \<Rightarrow> cron_job \<Rightarrow> 'w \<Rightarrow> int \<times> 'w" where
  "add_job C spec job w = (case AddFunc C spec job w of ((jobID, err), w') \<Rightarrow> (jobID, w'))"

definition StartWithSchedule :: "'w CronScheduler \<Rightarrow> Application \<Rightarrow> 'w \<Rightarrow> int \<times> 'w" where
  "StartWithSchedule C a w = add_job C (StartTime a) (AddJob (TimeSchedule a) a) w"

definition StartOnly :: "'w CronScheduler \<Rightarrow> Application \<Rightarrow> 'w \<Rightarrow> int \<times> 'w" where
  "StartOnly C a w = add_job C (StartTime a) (StageJob a) w"

definition ScheduleOnly :: "'w CronScheduler \<Rightarrow> Application \<Rightarrow> 'w \<Rightarrow> int \<times> 'w" where
  "ScheduleOnly C a w = add_job C (TimeSchedule a) (StageJob a) w"

definition ScheduleApplication ::
    "'w CronScheduler \<Rightarrow> Application \<Rightarrow> 'w \<Rightarrow> (int \<times> status_chan) \<times> 'w" where
  "ScheduleApplication C a w =
     (case (if StartTime a \<noteq> [] \<and> TimeSchedule a \<noteq> [] then StartWithSchedule C a w
            else if StartTime a \<noteq> [] \<and> TimeSchedule a = [] then StartOnly C a w
            else if StartTime a = [] \<and> TimeSchedule a \<noteq> [] then ScheduleOnly C a w
            else (0, w)) of
        (jobID, w') \<Rightarrow> ((jobID, Delivered (Ok ())), w'))"

definition DeleteSchedule :: "'w CronScheduler \<Rightarrow> int \<Rightarrow> 'w \<Rightarrow> 'w" where
  "DeleteSchedule C jobID w = DeleteJob C jobID w"

section \<open>Histories\<close>

text \<open>The states a runner can reach from another one: applications are staged, offers and
  status updates come in any order and number, and every offer visits the contexts in an
  order of its own. \<open>insts\<close> records the number of instances of
  every context by its channel, \<open>sent\<close> the statuses that were sent, newest first;
  \<open>accepts\<close> restricts the status updates that arrive.\<close>

inductive run_once_from ::
    "regexp \<Rightarrow> 'w mesos_driver \<Rightarrow> (TaskStatus \<Rightarrow> bool)
     \<Rightarrow> (nat \<Rightarrow> int) \<Rightarrow> (nat \<times> unit result) list \<Rightarrow> RunOnceRunner
     \<Rightarrow> (nat \<Rightarrow> int) \<Rightarrow> (nat \<times> unit result) list \<Rightarrow> RunOnceRunner \<Rightarrow> bool"
  for rx D accepts i0 s0 r0 where
  start: "run_once_from rx D accepts i0 s0 r0 i0 s0 r0"
| stage: "run_once_from rx D accepts i0 s0 r0 insts sent r \<Longrightarrow>
    GetInstances rx a mesos = Ok n \<Longrightarrow> 0 \<le> n \<Longrightarrow> StageApplication rx a mesos r = (Ok ch, r') \<Longrightarrow>
    run_once_from rx D accepts i0 s0 r0 (insts(channels r := n)) sent r'"
| offer: "run_once_from rx D accepts i0 s0 r0 insts sent r \<Longrightarrow>
    permutes_range ord \<Longrightarrow> ResourceOffer rx D ord offer r w = (res, r', w') \<Longrightarrow>
    run_once_from rx D accepts i0 s0 r0 insts sent r'"
| silent: "run_once_from rx D accepts i0 s0 r0 insts sent r \<Longrightarrow> accepts status \<Longrightarrow>
    runner_StatusUpdate status r = (Ok (b, None), r') \<Longrightarrow>
    run_once_from rx D accepts i0 s0 r0 insts sent r'"
| answer: "run_once_from rx D accepts i0 s0 r0 insts sent r \<Longrightarrow> accepts status \<Longrightarrow>
    runner_StatusUpdate status r = (Ok (b, Some st), r') \<Longrightarrow>
    run_once_from rx D accepts i0 s0 r0 insts (st # sent) r'"

text \<open>The histories of a new runner.\<close>

abbreviation run_once_reach ::
    "regexp \<Rightarrow> 'w mesos_driver \<Rightarrow> (TaskStatus \<Rightarrow> bool) \<Rightarrow> (nat \<Rightarrow> int)
     \<Rightarrow> (nat \<times> unit result) list \<Rightarrow> RunOnceRunner \<Rightarrow> bool" where
  "run_once_reach rx D accepts \<equiv> run_once_from rx D accepts (\<lambda>_. 0) [] NewRunOnceRunner"

section \<open>Lemmas on the operations\<close>

lemma length_update_first [simp]: "length (update_first i st ts) = length ts"
  by (induction ts) auto

lemma update_first_attributes:
  "map task_Attributes (update_first i st ts) = map task_Attributes ts"
  by (induction ts) auto

lemma update_first_other: "t \<in> set ts \<Longrightarrow> i \<noteq> TaskID t \<Longrightarrow> t \<in> set (update_first i st ts)"
  by (induction ts) auto

lemma set_update_first:
  "t \<in> set (update_first i st ts) \<Longrightarrow> t \<in> set ts \<or> State t = st"
  by (induction ts) (auto split: if_splits)

text \<open>The status update of a context changes only states of its tasks.\<close>

lemma ctx_StatusUpdate_Ok:
  assumes "ctx_StatusUpdate ctx status = (Ok out, ctx')"
  shows "ctx' = updateTaskState ctx status"
    and "out = Some (Ok ()) \<Longrightarrow> allTasksFinished ctx'"
    and "out = Some st \<Longrightarrow> status_state status \<in> {TASK_LOST, TASK_FAILED, TASK_ERROR, TASK_FINISHED, TASK_KILLED}"
  using assms
  by (auto simp: ctx_StatusUpdate_def Let_def split: result.splits TaskState.splits if_splits)

lemma updateTaskState_simps [simp]:
  "ctx_Application (updateTaskState ctx status) = ctx_Application ctx"
  "StatusChan (updateTaskState ctx status) = StatusChan ctx"
  "InstancesLeftToRun (updateTaskState ctx status) = InstancesLeftToRun ctx"
  "length (tasks (updateTaskState ctx status)) = length (tasks ctx)"
  "map task_Attributes (tasks (updateTaskState ctx status)) = map task_Attributes (tasks ctx)"
  by (simp_all add: updateTaskState_def update_first_attributes)

lemma LaunchTask_ctx:
  assumes "LaunchTask D ctx offer w = (res, ctx', w')"
  shows "\<exists>i. ctx' = ctx\<lparr>InstancesLeftToRun := InstancesLeftToRun ctx - 1,
    tasks := tasks ctx @ [newRunOnceTask offer i]\<rparr>"
  using assms by (auto simp: LaunchTask_def Let_def split: prod.splits)

lemma check_attribute_Err: "GetConstraints rx a \<noteq> Err e"
  by (simp add: GetConstraints_def split: result.split)

lemma ctx_Matches_no_Err: "ctx_Matches rx D ctx offer \<noteq> Err e"
  using check_attribute_Err [of rx "ctx_Application ctx"]
  by (cases "GetConstraints rx (ctx_Application ctx)") (auto simp: ctx_Matches_def CheckConstraints_def)

lemma Join_nonempty: "xs \<noteq> [] \<Longrightarrow> [] \<notin> set xs \<Longrightarrow> Join xs sep \<noteq> []"
  by (induction xs sep rule: Join.induct) auto

text \<open>What an offer does to the runner: it is declined with a reason and nothing changes,
  or one context it matches launches one task on it.\<close>

definition launches_one ::
    "regexp \<Rightarrow> 'w mesos_driver \<Rightarrow> Offer \<Rightarrow> (string \<times> RunOnceApplicationContext) list \<Rightarrow> RunOnceRunner \<Rightarrow> 'w
     \<Rightarrow> string result \<Rightarrow> RunOnceRunner \<Rightarrow> 'w \<Rightarrow> bool" where
  "launches_one rx D offer es r w res r' w' \<longleftrightarrow>
     (\<exists>key ctx ctx' out. (key, ctx) \<in> set es \<and> ctx_Matches rx D ctx offer = Ok [] \<and>
        LaunchTask D ctx offer w = (out, ctx', w') \<and> res = map_result (\<lambda>_. []) out \<and>
        r' = r\<lparr>applications := AList.update key ctx' (applications r)\<rparr>)"

lemma offer_loop_cases:
  assumes "offer_loop rx D offer es reasons r w = (res, r', w')"
    and "[] \<notin> set reasons" and "reasons \<noteq> [] \<or> es \<noteq> []"
  shows "launches_one rx D offer es r w res r' w' \<or>
    (r' = r \<and> w' = w \<and> res \<noteq> Ok [] \<and> (\<forall>e. res \<noteq> Err e))"
  using assms
proof (induction es arbitrary: reasons)
  case Nil
  then show ?case using Join_nonempty [of reasons] by auto
next
  case (Cons e es)
  obtain key ctx where e: "e = (key, ctx)" by (cases e)
  consider (ok) "ctx_Matches rx D ctx offer = Ok []"
    | (reason) x where "ctx_Matches rx D ctx offer = Ok x" "x \<noteq> []"
    | (panic) p where "ctx_Matches rx D ctx offer = Panic p"
    using ctx_Matches_no_Err [of rx D ctx offer] by (cases "ctx_Matches rx D ctx offer") auto
  then show ?case
  proof cases
    case ok
    obtain out ctx' w1 where l: "LaunchTask D ctx offer w = (out, ctx', w1)"
      using prod_cases3 by blast
    with ok e Cons.prems(1) have "launches_one rx D offer (e # es) r w res r' w'"
      unfolding launches_one_def by auto
    then show ?thesis ..
  next
    case (reason x)
    with e Cons.prems have "offer_loop rx D offer es (reasons @ [x]) r w = (res, r', w')" by simp
    from Cons.IH [OF this] reason Cons.prems(2) show ?thesis
      unfolding launches_one_def by auto
  next
    case (panic p)
    with e Cons.prems(1) show ?thesis by auto
  qed
qed

lemma permutes_range_id [simp]: "permutes_range id"
  by (simp add: permutes_range_def)

lemma permutes_range_set: "permutes_range ord \<Longrightarrow> set (ord es) = set es"
  unfolding permutes_range_def by (metis mset_eq_setD)

lemma permutes_range_Nil: "permutes_range ord \<Longrightarrow> ord es = [] \<longleftrightarrow> es = []"
  unfolding permutes_range_def by (metis mset_zero_iff)

lemma ResourceOffer_cases:
  assumes "permutes_range ord" and "ResourceOffer rx D ord offer r w = (res, r', w')"
  shows "launches_one rx D offer (applications r) r w res r' w' \<or>
    (r' = r \<and> w' = w \<and> res \<noteq> Ok [] \<and> (\<forall>e. res \<noteq> Err e))"
proof (cases "applications r = []")
  case True
  with assms show ?thesis by (auto simp: ResourceOffer_def)
next
  case False
  with assms offer_loop_cases [of rx D offer "ord (applications r)" "[]" r w res r' w'] show ?thesis
    by (simp add: ResourceOffer_def launches_one_def permutes_range_set permutes_range_Nil)
qed

lemma StatusUpdate_cases:
  assumes "runner_StatusUpdate status r = (Ok (b, out), r')"
  obtains (foreign) "out = None" "r' = r" "b = False"
  | (update) i ctx where "map_of (applications r) i = Some ctx" "b = True"
    "applicationIDFromTaskID (status_task status) = Ok i"
    "if out = None then r' = r\<lparr>applications := AList.update i (updateTaskState ctx status) (applications r)\<rparr>
     else r' = r\<lparr>applications := AList.delete i (applications r)\<rparr> \<and> fst (the out) = StatusChan ctx"
    "ctx_StatusUpdate ctx status = (Ok (map_option snd out), updateTaskState ctx status)"
proof -
  from assms obtain i where i: "applicationIDFromTaskID (status_task status) = Ok i"
    by (auto simp: runner_StatusUpdate_def split: result.splits)
  show thesis
  proof (cases "map_of (applications r) i")
    case None
    with i assms show thesis by (intro foreign) (auto simp: runner_StatusUpdate_def)
  next
    case (Some ctx)
    with i assms obtain q ctx' where q: "ctx_StatusUpdate ctx status = (Ok q, ctx')"
      by (cases "ctx_StatusUpdate ctx status"; cases "fst (ctx_StatusUpdate ctx status)")
         (auto simp: runner_StatusUpdate_def)
    note ctx' = ctx_StatusUpdate_Ok(1) [OF q]
    show thesis
    proof (rule update [OF Some _ i])
      show "b = True" "ctx_StatusUpdate ctx status = (Ok (map_option snd out), updateTaskState ctx status)"
        "if out = None then r' = r\<lparr>applications := AList.update i (updateTaskState ctx status) (applications r)\<rparr>
         else r' = r\<lparr>applications := AList.delete i (applications r)\<rparr> \<and> fst (the out) = StatusChan ctx"
        using assms i Some q ctx' by (auto simp: runner_StatusUpdate_def split: option.splits)
    qed
  qed
qed

section \<open>The invariant\<close>

definition ctx_inv :: "(nat \<Rightarrow> int) \<Rightarrow> RunOnceRunner \<Rightarrow> string \<Rightarrow> RunOnceApplicationContext \<Rightarrow> bool" where
  "ctx_inv insts r key ctx \<longleftrightarrow> key = ID (ctx_Application ctx) \<and> 0 \<le> InstancesLeftToRun ctx \<and>
     int (length (tasks ctx)) + InstancesLeftToRun ctx = insts (StatusChan ctx) \<and>
     StatusChan ctx < channels r"

definition runner_inv :: "(nat \<Rightarrow> int) \<Rightarrow> (nat \<times> unit result) list \<Rightarrow> RunOnceRunner \<Rightarrow> bool" where
  "runner_inv insts sent r \<longleftrightarrow> distinct (map fst (applications r)) \<and>
     (\<forall>k ctx. map_of (applications r) k = Some ctx \<longrightarrow> ctx_inv insts r k ctx) \<and>
     (\<forall>k ctx k' ctx'. map_of (applications r) k = Some ctx \<longrightarrow> map_of (applications r) k' = Some ctx' \<longrightarrow>
        StatusChan ctx = StatusChan ctx' \<longrightarrow> k = k') \<and>
     (\<forall>ch \<in> fst ` set sent. ch < channels r \<and>
        (\<forall>k ctx. map_of (applications r) k = Some ctx \<longrightarrow> StatusChan ctx \<noteq> ch)) \<and>
     distinct (map fst sent)"

text \<open>Replacing a context by one with the same channel and application.\<close>

lemma runner_inv_update:
  assumes "runner_inv insts sent r" and "map_of (applications r) k = Some ctx"
    and "ctx_inv insts r k ctx'" and "StatusChan ctx' = StatusChan ctx"
  shows "runner_inv insts sent (r\<lparr>applications := AList.update k ctx' (applications r)\<rparr>)"
  using assms unfolding runner_inv_def ctx_inv_def by (auto split: if_splits)

lemma runner_inv_insert:
  assumes "runner_inv insts sent r" and "0 \<le> n"
  shows "runner_inv (insts(channels r := n)) sent
    \<lparr>applications = AList.update (ID a)
       \<lparr>ctx_Application = a, StatusChan = channels r, InstancesLeftToRun = n, tasks = []\<rparr> (applications r),
     channels = Suc (channels r)\<rparr>" (is "runner_inv ?insts sent ?r")
proof -
  have old: "ctx_inv insts r k ctx" if "map_of (applications r) k = Some ctx" for k ctx
    using assms(1) that by (simp add: runner_inv_def)
  then have less: "StatusChan ctx < channels r" if "map_of (applications r) k = Some ctx" for k ctx
    using that by (simp only: ctx_inv_def)
  have uniq: "k = k'" if "map_of (applications r) k = Some ctx" "map_of (applications r) k' = Some ctx'"
    "StatusChan ctx = StatusChan ctx'" for k k' ctx ctx'
    using assms(1) that unfolding runner_inv_def by blast
  show ?thesis
    unfolding runner_inv_def
  proof (intro conjI allI impI ballI)
    fix k ctx assume "map_of (applications ?r) k = Some ctx"
    then show "ctx_inv ?insts ?r k ctx"
      using old [of k ctx] assms(2) by (auto simp: ctx_inv_def split: if_splits)
  next
    fix k ctx k' ctx'
    assume "map_of (applications ?r) k = Some ctx" "map_of (applications ?r) k' = Some ctx'"
    then have "if k = ID a then StatusChan ctx = channels r else map_of (applications r) k = Some ctx"
      "if k' = ID a then StatusChan ctx' = channels r else map_of (applications r) k' = Some ctx'"
      by (auto split: if_splits)
    moreover assume "StatusChan ctx = StatusChan ctx'"
    ultimately show "k = k'" using less uniq by (metis less_irrefl)
  next
    fix ch assume ch: "ch \<in> fst ` set sent"
    then show "ch < channels ?r" using assms(1) by (auto simp: runner_inv_def)
    fix k ctx assume "map_of (applications ?r) k = Some ctx"
    with assms(1) ch show "StatusChan ctx \<noteq> ch"
      by (auto simp: runner_inv_def split: if_splits)
  qed (use assms(1) in \<open>auto simp: runner_inv_def\<close>)
qed

lemma runner_inv_stage:
  assumes "runner_inv insts sent r" and "GetInstances rx a mesos = Ok n" and "0 \<le> n"
    and "StageApplication rx a mesos r = (Ok ch, r')"
  shows "runner_inv (insts(channels r := n)) sent r'"
proof (cases "n = 0")
  case True
  with assms(2,4) have "r' = r" by (simp add: StageApplication_def)
  moreover have "ctx_inv (insts(channels r := n)) r k ctx" if "ctx_inv insts r k ctx" for k ctx
    using that by (simp add: ctx_inv_def)
  ultimately show ?thesis using assms(1) unfolding runner_inv_def by blast
next
  case False
  with assms(2,4) have "r' = \<lparr>applications = AList.update (ID a)
      \<lparr>ctx_Application = a, StatusChan = channels r, InstancesLeftToRun = n, tasks = []\<rparr> (applications r),
      channels = Suc (channels r)\<rparr>" by (auto simp: StageApplication_def Let_def)
  then show ?thesis using runner_inv_insert [OF assms(1,3)] by simp
qed

lemma runner_inv_offer:
  assumes "runner_inv insts sent r" and "permutes_range ord"
    and "ResourceOffer rx D ord offer r w = (res, r', w')"
  shows "runner_inv insts sent r'"
  using ResourceOffer_cases [OF assms(2,3)]
proof (elim disjE conjE)
  assume "launches_one rx D offer (applications r) r w res r' w'"
  then obtain key ctx ctx' out where mem: "(key, ctx) \<in> set (applications r)"
    and m: "ctx_Matches rx D ctx offer = Ok []" and l: "LaunchTask D ctx offer w = (out, ctx', w')"
    and r': "r' = r\<lparr>applications := AList.update key ctx' (applications r)\<rparr>"
    unfolding launches_one_def by blast
  from mem assms(1) have k: "map_of (applications r) key = Some ctx" by (simp add: runner_inv_def)
  with assms(1) have i: "ctx_inv insts r key ctx" by (simp add: runner_inv_def)
  from m have "InstancesLeftToRun ctx \<noteq> 0" by (auto simp: ctx_Matches_def)
  with i LaunchTask_ctx [OF l] have "ctx_inv insts r key ctx'" and "StatusChan ctx' = StatusChan ctx"
    by (auto simp: ctx_inv_def)
  with runner_inv_update [OF assms(1) k] r' show ?thesis by simp
qed (use assms in simp)

lemma runner_inv_silent:
  assumes "runner_inv insts sent r" and "runner_StatusUpdate status r = (Ok (b, None), r')"
  shows "runner_inv insts sent r'"
  using assms(2)
proof (cases rule: StatusUpdate_cases)
  case foreign
  with assms(1) show ?thesis by simp
next
  case (update i ctx)
  with assms(1) have "ctx_inv insts r i (updateTaskState ctx status)"
    by (simp add: runner_inv_def ctx_inv_def)
  with runner_inv_update [OF assms(1) update(1)] update show ?thesis by simp
qed

lemma runner_inv_answer:
  assumes "runner_inv insts sent r" and "runner_StatusUpdate status r = (Ok (b, Some st), r')"
  shows "runner_inv insts (st # sent) r'"
  using assms(2)
proof (cases rule: StatusUpdate_cases)
  case (update i ctx)
  then have r': "r' = r\<lparr>applications := AList.delete i (applications r)\<rparr>" and ch: "fst st = StatusChan ctx"
    by simp_all
  have i: "ctx_inv insts r i ctx" using assms(1) update(1) by (simp add: runner_inv_def)
  have new: "StatusChan ctx \<notin> fst ` set sent" using assms(1) update(1) by (auto simp: runner_inv_def)
  have old: "k \<noteq> i \<and> map_of (applications r) k = Some c"
    if "map_of (applications r') k = Some c" for k c
    using that r' by (simp split: if_splits)
  have other: "StatusChan c \<noteq> StatusChan ctx" if "map_of (applications r') k = Some c" for k c
    using old [OF that] update(1) assms(1) unfolding runner_inv_def by metis
  have chans: "channels r' = channels r" using r' by simp
  show ?thesis
    unfolding runner_inv_def
  proof (intro conjI allI impI ballI)
    fix k c assume k: "map_of (applications r') k = Some c"
    with old assms(1) have "ctx_inv insts r k c" unfolding runner_inv_def by blast
    then show "ctx_inv insts r' k c" by (simp add: ctx_inv_def chans)
  next
    fix k c k' c'
    assume "map_of (applications r') k = Some c" "map_of (applications r') k' = Some c'"
      "StatusChan c = StatusChan c'"
    with old assms(1) show "k = k'" unfolding runner_inv_def by blast
  next
    fix q assume q: "q \<in> fst ` set (st # sent)"
    with assms(1) i ch show "q < channels r'" by (auto simp: runner_inv_def ctx_inv_def chans)
    fix k c assume k: "map_of (applications r') k = Some c"
    with q other [OF k] old [OF k] assms(1) ch show "StatusChan c \<noteq> q"
      unfolding runner_inv_def by (metis image_insert insert_iff list.simps(15))
  qed (use assms(1) r' ch new in \<open>auto simp: runner_inv_def\<close>)
qed simp

lemma run_once_from_inv:
  "run_once_from rx D accepts i0 s0 r0 insts sent r \<Longrightarrow> runner_inv i0 s0 r0 \<Longrightarrow> runner_inv insts sent r"
proof (induction rule: run_once_from.induct)
  case stage
  show ?case by (rule runner_inv_stage [OF stage.IH [OF stage.prems] stage.hyps(2-4)])
next
  case offer
  show ?case by (rule runner_inv_offer [OF offer.IH [OF offer.prems] offer.hyps(2,3)])
next
  case silent
  show ?case by (rule runner_inv_silent [OF silent.IH [OF silent.prems] silent.hyps(3)])
next
  case answer
  show ?case by (rule runner_inv_answer [OF answer.IH [OF answer.prems] answer.hyps(3)])
qed

lemma run_once_inv: "run_once_reach rx D accepts insts sent r \<Longrightarrow> runner_inv insts sent r"
  by (erule run_once_from_inv) (simp add: runner_inv_def NewRunOnceRunner_def)

text \<open>An invariant of the contexts alone: it holds of fresh contexts and is kept by
  launches and by the status updates that are let through.\<close>

lemma run_once_contexts:
  assumes "run_once_from rx D accepts i0 s0 r0 insts sent r"
    and init: "runner_inv i0 s0 r0" "\<And>k ctx. map_of (applications r0) k = Some ctx \<Longrightarrow> P ctx"
    and fresh: "\<And>a ch n. channels r0 \<le> ch \<Longrightarrow>
      P \<lparr>ctx_Application = a, StatusChan = ch, InstancesLeftToRun = n, tasks = []\<rparr>"
    and launch: "\<And>ctx offer w out ctx' w'. P ctx \<Longrightarrow> ctx_Matches rx D ctx offer = Ok [] \<Longrightarrow>
      LaunchTask D ctx offer w = (out, ctx', w') \<Longrightarrow> P ctx'"
    and update: "\<And>ctx status. P ctx \<Longrightarrow> accepts status \<Longrightarrow> P (updateTaskState ctx status)"
  shows "channels r0 \<le> channels r \<and> (\<forall>k ctx. map_of (applications r) k = Some ctx \<longrightarrow> P ctx)"
  using assms(1)
proof (induction rule: run_once_from.induct)
  case start
  then show ?case using init(2) by simp
next
  case (stage insts sent r a mesos n ch r')
  then show ?case using fresh [of "channels r" a n]
    by (auto simp: StageApplication_def Let_def split: if_splits)
next
  case (offer insts sent r ord off w res r' w')
  from ResourceOffer_cases [OF offer.hyps(2,3)] show ?case
  proof (elim disjE conjE)
    assume "launches_one rx D off (applications r) r w res r' w'"
    then obtain key ctx ctx' out where mem: "(key, ctx) \<in> set (applications r)"
      and m: "ctx_Matches rx D ctx off = Ok []" and l: "LaunchTask D ctx off w = (out, ctx', w')"
      and r': "r' = r\<lparr>applications := AList.update key ctx' (applications r)\<rparr>"
      unfolding launches_one_def by blast
    have "runner_inv insts sent r" by (rule run_once_from_inv [OF offer.hyps(1) init(1)])
    with mem have "map_of (applications r) key = Some ctx" by (simp add: runner_inv_def)
    with offer.IH have "P ctx" by blast
    from launch [OF this m l] offer.IH r' show ?thesis by (auto split: if_splits)
  qed (use offer.IH in simp)
next
  case (silent insts sent r status b r')
  from silent.hyps(3) show ?case
  proof (cases rule: StatusUpdate_cases)
    case (update i ctx)
    with silent.IH silent.hyps(2) assms(6) have "P (updateTaskState ctx status)" by blast
    with update silent.IH show ?thesis by (auto split: if_splits)
  qed (use silent.IH in simp)
next
  case (answer insts sent r status b st r')
  from answer.hyps(3) show ?case
  proof (cases rule: StatusUpdate_cases)
    case (update i ctx)
    with answer.IH show ?thesis by (auto split: if_splits)
  qed simp
qed

section \<open>Properties\<close>

text \<open>C9: Over any history of staged applications, offers and status updates, the tasks
  launched for an application and the instances it has left to run always add up to its
  number of instances, so that it never runs more; and every status channel is answered at
  most once.\<close>
theorem run_once_instances:
  assumes "run_once_reach rx D accepts insts sent r"
  shows "(\<forall>k ctx. (k, ctx) \<in> set (applications r) \<longrightarrow> 0 \<le> InstancesLeftToRun ctx \<and>
      int (length (tasks ctx)) + InstancesLeftToRun ctx = insts (StatusChan ctx)) \<and>
    distinct (map fst sent)"
proof -
  from run_once_inv [OF assms] have inv: "runner_inv insts sent r" .
  then have "map_of (applications r) k = Some ctx" if "(k, ctx) \<in> set (applications r)" for k ctx
    using that by (simp add: runner_inv_def)
  with inv show ?thesis unfolding runner_inv_def ctx_inv_def by blast
qed

text \<open>C8: A run-once application is reported successful only when all its instances have
  been launched and every one of its tasks has finished or was killed.\<close>
theorem run_once_success:
  assumes "run_once_reach rx D accepts insts sent r"
    and "runner_StatusUpdate status r = (Ok (True, Some (ch, Ok ())), r')"
  shows "\<exists>k ctx. (k, ctx) \<in> set (applications r) \<and> StatusChan ctx = ch \<and>
    int (length (tasks ctx)) = insts ch \<and>
    (\<forall>t \<in> set (tasks (updateTaskState ctx status)). State t = TASK_FINISHED \<or> State t = TASK_KILLED)"
  using assms(2)
proof (cases rule: StatusUpdate_cases)
  case (update i ctx)
  then have fin: "allTasksFinished (updateTaskState ctx status)" and ch: "StatusChan ctx = ch"
    using ctx_StatusUpdate_Ok(2) [OF update(5)] by simp_all
  have "ctx_inv insts r i ctx" using run_once_inv [OF assms(1)] update(1) by (simp add: runner_inv_def)
  with fin have "int (length (tasks ctx)) = insts ch"
    by (simp add: allTasksFinished_def ctx_inv_def ch)
  moreover have "(i, ctx) \<in> set (applications r)" using update(1) by (rule map_of_SomeD)
  ultimately show ?thesis using fin ch by (auto simp: allTasksFinished_def list_all_iff)
qed simp

section \<open>Placement\<close>

definition attr_value :: "string \<Rightarrow> runOnceTask \<Rightarrow> string" where
  "attr_value name t = (case map_of (task_Attributes t) name of None \<Rightarrow> [] | Some v \<Rightarrow> v)"

lemma update_first_value: "map (attr_value n) (update_first i st ts) = map (attr_value n) ts"
  by (induction ts) (auto simp: attr_value_def)

text \<open>The values of an attribute over all tasks of a context, in the order of launch.\<close>

definition attr_values :: "RunOnceApplicationContext \<Rightarrow> string \<Rightarrow> string list" where
  "attr_values ctx name = filter (\<lambda>v. v \<noteq> []) (map (attr_value name) (tasks ctx))"

definition placed :: "regexp \<Rightarrow> RunOnceApplicationContext \<Rightarrow> bool" where
  "placed rx ctx \<longleftrightarrow> (\<forall>cs name cl c. GetConstraints rx (ctx_Application ctx) = Ok cs \<longrightarrow>
     (name, cl) \<in> set (entries cs) \<longrightarrow> c \<in> set cl \<longrightarrow> placement rx c (attr_values ctx name))"

lemma other_is_all:
  "\<forall>t \<in> set (tasks ctx). State t \<noteq> TASK_STARTING \<Longrightarrow> otherTasksAttributes ctx name = attr_values ctx name"
  by (simp add: otherTasksAttributes_def attr_values_def attr_value_def [abs_def])

lemma check_attribute_passes:
  "check_attribute rx ctx offer name cl = [] \<Longrightarrow> c \<in> set cl \<Longrightarrow>
     \<exists>v. map_of (OfferAttributes offer) name = Some v \<and> Matches rx c v (otherTasksAttributes ctx name)"
  by (induction cl) (auto split: option.splits if_splits)

lemma check_all_passes:
  "check_all rx ctx offer es = [] \<Longrightarrow> (name, cl) \<in> set es \<Longrightarrow> check_attribute rx ctx offer name cl = []"
  by (induction es) (auto simp: Let_def split: if_splits)

lemma Matches_passes:
  assumes "ctx_Matches rx D ctx offer = Ok []" and "GetConstraints rx (ctx_Application ctx) = Ok cs"
  shows "check_all rx ctx offer (entries cs) = []"
  using assms by (auto simp: ctx_Matches_def CheckConstraints_def split: if_splits)

lemma attr_value_new [simp]:
  "attr_value name (newRunOnceTask offer i) =
     (case map_of (OfferAttributes offer) name of None \<Rightarrow> [] | Some v \<Rightarrow> v)"
  by (simp add: attr_value_def newRunOnceTask_def)

lemma placed_launch:
  assumes "placed rx ctx" and "\<forall>t \<in> set (tasks ctx). State t \<noteq> TASK_STARTING"
    and "ctx_Matches rx D ctx offer = Ok []" and "LaunchTask D ctx offer w = (out, ctx', w')"
  shows "placed rx ctx'"
  unfolding placed_def
proof (intro allI impI)
  fix cs name cl c
  obtain i where ctx': "ctx' = ctx\<lparr>InstancesLeftToRun := InstancesLeftToRun ctx - 1,
      tasks := tasks ctx @ [newRunOnceTask offer i]\<rparr>" using LaunchTask_ctx [OF assms(4)] by blast
  assume "GetConstraints rx (ctx_Application ctx') = Ok cs"
    and e: "(name, cl) \<in> set (entries cs)" and c: "c \<in> set cl"
  then have cs: "GetConstraints rx (ctx_Application ctx) = Ok cs" by (simp add: ctx')
  with assms(1) e c have old: "placement rx c (attr_values ctx name)" unfolding placed_def by blast
  obtain v where v: "map_of (OfferAttributes offer) name = Some v"
    and m: "Matches rx c v (attr_values ctx name)"
    using check_attribute_passes [OF check_all_passes [OF Matches_passes [OF assms(3) cs] e] c]
      other_is_all [OF assms(2)] by auto
  show "placement rx c (attr_values ctx' name)"
    using place [OF old m] old v by (auto simp: attr_values_def ctx')
qed

text \<open>C17: Run-once tasks respect their constraints. As long as no task reports the state
  STARTING, the attribute values of the tasks of an application, in the order of launch,
  are a placement that every one of its constraints accepts, over any history of offers
  and status updates.\<close>
theorem run_once_placement:
  assumes "run_once_reach rx D (\<lambda>s. status_state s \<noteq> TASK_STARTING) insts sent r"
    and "(k, ctx) \<in> set (applications r)" and "GetConstraints rx (ctx_Application ctx) = Ok cs"
    and "(name, cl) \<in> set (entries cs)" and "c \<in> set cl"
  shows "placement rx c (attr_values ctx name)"
proof -
  let ?P = "\<lambda>ctx. placed rx ctx \<and> (\<forall>t \<in> set (tasks ctx). State t \<noteq> TASK_STARTING)"
  have "\<forall>k ctx. map_of (applications r) k = Some ctx \<longrightarrow> ?P ctx"
  proof (rule run_once_contexts [OF assms(1), THEN conjunct2])
    fix ctx offer w out ctx' w'
    assume P: "?P ctx" and m: "ctx_Matches rx D ctx offer = Ok []"
      and l: "LaunchTask D ctx offer w = (out, ctx', w')"
    from placed_launch [OF _ _ m l] P LaunchTask_ctx [OF l] show "?P ctx'"
      by (auto simp: newRunOnceTask_def)
  next
    fix ctx and status :: TaskStatus assume P: "?P ctx" and s: "status_state status \<noteq> TASK_STARTING"
    have "attr_values (updateTaskState ctx status) n = attr_values ctx n" for n
      by (simp add: attr_values_def updateTaskState_def update_first_value)
    with P s show "?P (updateTaskState ctx status)"
      by (auto simp: placed_def updateTaskState_def dest: set_update_first)
  qed (simp_all add: runner_inv_def NewRunOnceRunner_def placed_def attr_values_def none_placed)
  moreover have "map_of (applications r) k = Some ctx"
    using run_once_inv [OF assms(1)] assms(2) by (simp add: runner_inv_def)
  ultimately show ?thesis using assms(3-5) unfolding placed_def by blast
qed

section \<open>Task identifiers read back\<close>

text \<open>The identifier of a launched task gives back the application and the host, so
  that status updates reach the context that launched it, when neither contains the
  separator.\<close>
theorem task_id_roundtrip:
  assumes "pipe \<notin> set (ID (ctx_Application ctx))" and "pipe \<notin> set (hostname offer)"
  shows "applicationIDFromTaskID (info_id (newTaskInfo ctx offer uuid)) = Ok (ID (ctx_Application ctx)) \<and>
    hostnameFromTaskID (info_id (newTaskInfo ctx offer uuid)) = Ok (hostname offer)"
  using assms
  by (simp add: newTaskInfo_def newTaskID_def applicationIDFromTaskID_def hostnameFromTaskID_def
      IndexByte_append Let_def)

text \<open>An application whose identifier contains the separator never hears of its tasks.\<close>

lemma pipe_in_id_lost:
  assumes "ID (ctx_Application ctx) = x @ [pipe] @ y" and "pipe \<notin> set x"
  shows "applicationIDFromTaskID (info_id (newTaskInfo ctx offer uuid)) = Ok x \<and>
    x \<noteq> ID (ctx_Application ctx)"
  using assms
  by (simp add: newTaskInfo_def newTaskID_def applicationIDFromTaskID_def IndexByte_append Let_def)

section \<open>Applications that are never answered\<close>

text \<open>Staging an application under an identifier that is still running replaces its
  context: whatever happens afterwards, nothing is ever sent on the channel of the first
  one, and its deployment waits for ever.\<close>
theorem restaged_never_answered:
  assumes "run_once_reach rx D accepts i0 s0 r0" and "map_of (applications r0) (ID a) = Some ctx"
    and "StageApplication rx a mesos r0 = (Ok (Awaiting ch), r1)"
    and "run_once_from rx D accepts' (i0(channels r0 := n)) s0 r1 insts sent r"
    and "GetInstances rx a mesos = Ok n" and "0 \<le> n"
  shows "StatusChan ctx \<notin> fst ` set sent"
proof -
  have inv0: "runner_inv i0 s0 r0" by (rule run_once_inv [OF assms(1)])
  have inv1: "runner_inv (i0(channels r0 := n)) s0 r1" by (rule runner_inv_stage [OF inv0 assms(5,6,3)])
  have c0: "StatusChan ctx < channels r0" "StatusChan ctx \<notin> fst ` set s0"
    using inv0 assms(2) unfolding runner_inv_def ctx_inv_def by blast+
  have r1: "r1 = \<lparr>applications = AList.update (ID a)
      \<lparr>ctx_Application = a, StatusChan = channels r0, InstancesLeftToRun = n, tasks = []\<rparr> (applications r0),
      channels = Suc (channels r0)\<rparr>"
    using assms(3,5) by (auto simp: StageApplication_def Let_def split: if_splits)
  have gone: "StatusChan c \<noteq> StatusChan ctx" if "map_of (applications r1) k = Some c" for k c
  proof (cases "k = ID a")
    case True
    with that r1 c0 show ?thesis by auto
  next
    case False
    with that r1 have "map_of (applications r0) k = Some c" by simp
    with False assms(2) inv0 show ?thesis unfolding runner_inv_def by blast
  qed
  have never: "\<forall>k c. map_of (applications r') k = Some c \<longrightarrow> StatusChan c \<noteq> StatusChan ctx"
    if "run_once_from rx D accepts' (i0(channels r0 := n)) s0 r1 insts' sent' r'" for insts' sent' r'
    by (rule run_once_contexts [OF that inv1, THEN conjunct2])
       (use gone c0 r1 in \<open>auto dest!: LaunchTask_ctx\<close>)
  show ?thesis using assms(4)
  proof (induction rule: run_once_from.induct)
    case (answer insts sent r status b st r')
    from answer.hyps(3) show ?case
    proof (cases rule: StatusUpdate_cases)
      case (update i c)
      with never [OF answer.hyps(1)] have "fst st \<noteq> StatusChan ctx" by auto
      with answer.IH show ?thesis by auto
    qed simp
  qed (use c0 in simp_all)
qed

text \<open>A context in which a task stays staged: no other task's status ends it.\<close>

definition stuck_at :: "nat \<Rightarrow> string \<Rightarrow> RunOnceApplicationContext \<Rightarrow> bool" where
  "stuck_at ch i x \<longleftrightarrow> (StatusChan x = ch \<longrightarrow> (\<exists>t \<in> set (tasks x). TaskID t = i \<and> State t = TASK_STAGING))"

lemma stuck_at_stays:
  assumes "run_once_from rx D (\<lambda>s. status_task s \<noteq> i) i0 s0 r1 insts sent r" and "runner_inv i0 s0 r1"
    and "map_of (applications r1) key = Some ctx" and "stuck_at (StatusChan ctx) i ctx"
  shows "\<forall>k x. map_of (applications r) k = Some x \<longrightarrow> stuck_at (StatusChan ctx) i x"
proof (rule run_once_contexts [OF assms(1,2), THEN conjunct2])
  fix k x assume x: "map_of (applications r1) k = Some x"
  have "x = ctx" if "StatusChan x = StatusChan ctx"
    using that x assms(2,3) unfolding runner_inv_def by (metis option.inject)
  with assms(4) show "stuck_at (StatusChan ctx) i x" by (auto simp: stuck_at_def)
next
  fix a ch n assume "channels r1 \<le> ch"
  moreover have "StatusChan ctx < channels r1"
    using assms(2,3) unfolding runner_inv_def ctx_inv_def by blast
  ultimately show "stuck_at (StatusChan ctx) i
    \<lparr>ctx_Application = a, StatusChan = ch, InstancesLeftToRun = n, tasks = []\<rparr>" by (simp add: stuck_at_def)
next
  fix x offer w out x' w' assume P: "stuck_at (StatusChan ctx) i x" and l: "LaunchTask D x offer w = (out, x', w')"
  from LaunchTask_ctx [OF l] obtain j where "x' = x\<lparr>InstancesLeftToRun := InstancesLeftToRun x - 1,
    tasks := tasks x @ [newRunOnceTask offer j]\<rparr>" by (elim exE)
  with P show "stuck_at (StatusChan ctx) i x'" by (auto simp: stuck_at_def)
next
  fix x :: RunOnceApplicationContext and status :: TaskStatus
  assume "stuck_at (StatusChan ctx) i x" "status_task status \<noteq> i"
  then show "stuck_at (StatusChan ctx) i (updateTaskState x status)"
    by (auto simp: stuck_at_def updateTaskState_def intro: update_first_other)
qed

lemma stuck_at_unfinished:
  assumes "stuck_at (StatusChan x) i x" and "status_task status \<noteq> i"
  shows "\<not> allTasksFinished (updateTaskState x status)"
proof -
  from assms(1) obtain t where "t \<in> set (tasks x)" "TaskID t = i" "State t = TASK_STAGING"
    by (auto simp: stuck_at_def)
  with assms(2) show ?thesis
    using update_first_other [of t "tasks x" "status_task status" "status_state status"]
    by (force simp: allTasksFinished_def list_all_iff updateTaskState_def)
qed

lemma stuck_at_never_succeeds:
  assumes "run_once_from rx D (\<lambda>s. status_task s \<noteq> i) i0 s0 r1 insts sent r" and "runner_inv i0 s0 r1"
    and "map_of (applications r1) key = Some ctx" and "stuck_at (StatusChan ctx) i ctx"
  shows "(StatusChan ctx, Ok ()) \<notin> set sent"
proof -
  have "(StatusChan ctx, Ok ()) \<notin> set s0"
    using assms(2,3) unfolding runner_inv_def by (metis fst_conv image_eqI)
  with assms(1) show ?thesis
  proof (induction rule: run_once_from.induct)
    case (answer insts sent r status b st r')
    from answer.hyps(3) show ?case
    proof (cases rule: StatusUpdate_cases)
      case (update j x)
      have "st \<noteq> (StatusChan ctx, Ok ())"
      proof
        assume st: "st = (StatusChan ctx, Ok ())"
        with update have "StatusChan x = StatusChan ctx" and "allTasksFinished (updateTaskState x status)"
          using ctx_StatusUpdate_Ok(2) [OF update(5)] by simp_all
        moreover from this(1) have "stuck_at (StatusChan x) i x"
          using stuck_at_stays [OF answer.hyps(1) assms(2-4)] update(1) by simp
        ultimately show False using stuck_at_unfinished answer.hyps(2) by blast
      qed
      with answer.IH answer.prems show ?thesis by auto
    qed (use answer in simp)
  qed simp_all
qed

text \<open>A launch that the driver refuses is counted as launched all the same. When an
  offer is answered with the driver's error, the refused task is the one the matching
  context built for the offer; that context has one instance less to run and keeps the task
  as staged. The application is then never reported successful, whatever other offers and
  status updates come, unless Mesos reports a status of the very task it was not given.\<close>
theorem refused_launch_never_succeeds:
  assumes "run_once_reach rx D accepts i0 s0 r0" and "permutes_range ord"
    and "ResourceOffer rx D ord offer r0 w = (Err e, r1, w1)"
  shows "\<exists>key ctx uuid u i. (key, ctx) \<in> set (applications r0) \<and> ctx_Matches rx D ctx offer = Ok [] \<and>
    NewUUID D w = (uuid, u) \<and> i = info_id (newTaskInfo ctx offer uuid) \<and>
    LaunchTasks D [offer_id offer] [newTaskInfo ctx offer uuid] u = (Err e, w1) \<and>
    map_of (applications r1) key = Some (ctx\<lparr>InstancesLeftToRun := InstancesLeftToRun ctx - 1,
      tasks := tasks ctx @ [newRunOnceTask offer i]\<rparr>) \<and>
    (\<forall>insts sent r. run_once_from rx D (\<lambda>s. status_task s \<noteq> i) i0 s0 r1 insts sent r \<longrightarrow>
      (StatusChan ctx, Ok ()) \<notin> set sent)"
proof -
  have inv1: "runner_inv i0 s0 r1" by (rule runner_inv_offer [OF run_once_inv [OF assms(1)] assms(2,3)])
  obtain key c ctx out where mem: "(key, c) \<in> set (applications r0)" and m: "ctx_Matches rx D c offer = Ok []"
    and l: "LaunchTask D c offer w = (out, ctx, w1)" and out: "(Err e :: string result) = map_result (\<lambda>_. []) out"
    and r1: "r1 = r0\<lparr>applications := AList.update key ctx (applications r0)\<rparr>"
    using ResourceOffer_cases [OF assms(2,3)] unfolding launches_one_def by blast
  obtain uuid u where uuid: "NewUUID D w = (uuid, u)" by (cases "NewUUID D w")
  define i where "i = info_id (newTaskInfo c offer uuid)"
  from out have "out = Err e" by (cases out) auto
  with l uuid have refused: "LaunchTasks D [offer_id offer] [newTaskInfo c offer uuid] u = (Err e, w1)"
    and ctx: "ctx = c\<lparr>InstancesLeftToRun := InstancesLeftToRun c - 1,
      tasks := tasks c @ [newRunOnceTask offer i]\<rparr>"
    by (auto simp: LaunchTask_def Let_def i_def split: prod.splits)
  from r1 have k: "map_of (applications r1) key = Some ctx" by simp
  have "stuck_at (StatusChan ctx) i ctx" by (auto simp: stuck_at_def ctx newRunOnceTask_def)
  with stuck_at_never_succeeds [OF _ inv1 k]
  have "(StatusChan c, Ok ()) \<notin> set sent"
    if "run_once_from rx D (\<lambda>s. status_task s \<noteq> i) i0 s0 r1 insts sent r" for insts sent r
    using that by (simp add: ctx)
  with mem m uuid refused k ctx i_def show ?thesis by blast
qed

text \<open>A job with a schedule the cron parser refuses is reported as scheduled: the
  error is dropped and the status sent is success, whatever cron answers.\<close>
lemma schedule_errors_dropped:
  "snd (fst (ScheduleApplication C a w)) = Delivered (Ok ())"
  by (simp add: ScheduleApplication_def split: prod.split)

section \<open>Witnesses\<close>

text \<open>A driver that counts the launches in its world and refuses those beyond a limit,
  two offers on different hosts, and an application with one instance per host.\<close>

definition sample_driver :: "nat \<Rightarrow> nat mesos_driver" where
  "sample_driver limit =
     \<lparr>LaunchTasks = (\<lambda>ids infos w. (if w < limit then Ok () else Err ''no driver'', Suc w)),
      DeclineOffer = (\<lambda>i w. w), ReviveOffers = (\<lambda>w. w),
      GetScalarResources = (\<lambda>offer name. case map_of (resources offer) name of None \<Rightarrow> Fin 0 | Some q \<Rightarrow> q),
      NewUUID = (\<lambda>w. (replicate w (CHR ''u''), w))\<rparr>"

definition host_offer :: "string \<Rightarrow> Offer" where
  "host_offer h = \<lparr>offer_id = h, slave_id = h, hostname = h, attributes = [],
     resources = [(''cpus'', Fin 2), (''mem'', Fin 512)]\<rparr>"

definition job_app :: Application where
  "job_app = empty_application\<lparr>ID := ''job'', Cpu := Fin 1, Mem := Fin 64,
     Constraints := [[''hostname'', ''UNIQUE'']]\<rparr>"

definition no_slaves :: MesosClusterState where
  "no_slaves = \<lparr>ActivatedSlaves = Fin 0, Slaves = [], master = []\<rparr>"

definition staged_runner :: RunOnceRunner where
  "staged_runner = snd (StageApplication literal_regexp job_app no_slaves NewRunOnceRunner)"

definition launched_runner :: "nat \<Rightarrow> RunOnceRunner" where
  "launched_runner limit =
     fst (snd (ResourceOffer literal_regexp (sample_driver limit) id (host_offer ''h1'') staged_runner 0))"

definition end_status :: TaskStatus where
  "end_status = \<lparr>status_task = newTaskID ''job'' ''h1'' [], status_state = TASK_FINISHED, status_message = []\<rparr>"

lemma job_instances: "GetInstances literal_regexp job_app no_slaves = Ok 1"
  by code_simp

lemma staged: "StageApplication literal_regexp job_app no_slaves NewRunOnceRunner = (Ok (Awaiting 0), staged_runner)"
  by code_simp

lemma launched_ok:
  "fst (ResourceOffer literal_regexp (sample_driver 1) id (host_offer ''h1'') staged_runner 0) = Ok []"
  by code_simp

lemma launched_refused:
  "fst (ResourceOffer literal_regexp (sample_driver 0) id (host_offer ''h1'') staged_runner 0) = Err ''no driver''"
  by code_simp

lemma staged_reach:
  "run_once_reach literal_regexp D accepts ((\<lambda>_. 0)(0 := 1)) [] staged_runner"
  using run_once_from.stage [OF run_once_from.start job_instances _ staged]
  by (simp add: NewRunOnceRunner_def)

lemma launched_reach:
  "run_once_reach literal_regexp (sample_driver limit) accepts ((\<lambda>_. 0)(0 := 1)) [] (launched_runner limit)"
  by (rule run_once_from.offer [OF staged_reach permutes_range_id]) (auto simp: launched_runner_def prod_eq_iff)

theorem run_once_instances_witness:
  "distinct (map fst ([] :: (nat \<times> unit result) list)) \<and>
   int (length (tasks (snd (hd (applications (launched_runner 1)))))) +
     InstancesLeftToRun (snd (hd (applications (launched_runner 1)))) = 1"
proof -
  have "(''job'', snd (hd (applications (launched_runner 1)))) \<in> set (applications (launched_runner 1)) \<and>
    StatusChan (snd (hd (applications (launched_runner 1)))) = 0" by code_simp
  with run_once_instances [OF launched_reach [of 1 "\<lambda>_. True"]] show ?thesis by auto
qed

theorem run_once_success_witness:
  "\<exists>k ctx. (k, ctx) \<in> set (applications (launched_runner 1)) \<and> StatusChan ctx = 0 \<and>
     int (length (tasks ctx)) = 1"
proof -
  have "fst (runner_StatusUpdate end_status (launched_runner 1)) = Ok (True, Some (0, Ok ()))" by code_simp
  then have "runner_StatusUpdate end_status (launched_runner 1) =
      (Ok (True, Some (0, Ok ())), snd (runner_StatusUpdate end_status (launched_runner 1)))"
    by (metis prod.collapse)
  from run_once_success [OF launched_reach [of 1 "\<lambda>_. True"] this] show ?thesis by auto
qed

theorem run_once_placement_witness:
  "placement literal_regexp Unique (attr_values (snd (hd (applications (launched_runner 1)))) ''hostname'')"
proof (rule run_once_placement [OF launched_reach])
  show "(''job'', snd (hd (applications (launched_runner 1)))) \<in> set (applications (launched_runner 1))"
    by code_simp
  show "GetConstraints literal_regexp (ctx_Application (snd (hd (applications (launched_runner 1))))) =
      Ok (Some [(''hostname'', [Unique])])" by code_simp
  show "(''hostname'', [Unique]) \<in> set (entries (Some [(''hostname'', [Unique])]))"
    "Unique \<in> set [Unique]" by (simp_all only: entries_simps list.set insert_iff simp_thms)
qed

theorem task_id_roundtrip_witness:
  "applicationIDFromTaskID (info_id (newTaskInfo
     \<lparr>ctx_Application = job_app, StatusChan = 0, InstancesLeftToRun = 1, tasks = []\<rparr> (host_offer ''h1'') ''u'')) = Ok ''job''"
proof -
  have "ID job_app = ''job''" "hostname (host_offer ''h1'') = ''h1''"
    by (simp_all add: job_app_def host_offer_def)
  with task_id_roundtrip [of "\<lparr>ctx_Application = job_app, StatusChan = 0, InstancesLeftToRun = 1, tasks = []\<rparr>"
      "host_offer ''h1''" "''u''"] show ?thesis by (simp add: pipe_def)
qed

theorem restaged_never_answered_witness:
  "\<exists>ctx r1. map_of (applications staged_runner) (ID job_app) = Some ctx \<and>
     StageApplication literal_regexp job_app no_slaves staged_runner = (Ok (Awaiting 1), r1) \<and>
     StatusChan ctx \<notin> fst ` set ([] :: (nat \<times> unit result) list)"
proof -
  have "fst (StageApplication literal_regexp job_app no_slaves staged_runner) = Ok (Awaiting 1)"
    "map_of (applications staged_runner) (ID job_app) \<noteq> None" by code_simp+
  then obtain ctx r1 where c: "map_of (applications staged_runner) (ID job_app) = Some ctx"
    and r1: "StageApplication literal_regexp job_app no_slaves staged_runner = (Ok (Awaiting 1), r1)"
    by (metis option.exhaust prod.collapse)
  have "StatusChan ctx \<notin> fst ` set ([] :: (nat \<times> unit result) list)"
    by (rule restaged_never_answered [OF staged_reach [of "sample_driver 0" "\<lambda>_. True"] c r1
          run_once_from.start job_instances]) simp
  with c r1 show ?thesis by blast
qed

theorem refused_launch_never_succeeds_witness:
  "\<exists>ctx i. (''job'', ctx) \<in> set (applications staged_runner) \<and>
     map_of (applications (launched_runner 0)) ''job'' = Some (ctx\<lparr>InstancesLeftToRun := 0,
       tasks := [newRunOnceTask (host_offer ''h1'') i]\<rparr>) \<and>
     (StatusChan ctx, Ok ()) \<notin> set []"
proof -
  have "ResourceOffer literal_regexp (sample_driver 0) id (host_offer ''h1'') staged_runner 0 =
      (Err ''no driver'', launched_runner 0,
       snd (snd (ResourceOffer literal_regexp (sample_driver 0) id (host_offer ''h1'') staged_runner 0)))"
    using launched_refused by (simp add: prod_eq_iff launched_runner_def)
  from refused_launch_never_succeeds [OF staged_reach [of _ "\<lambda>_. True"] permutes_range_id this]
  obtain key ctx i where "(key, ctx) \<in> set (applications staged_runner)"
    "map_of (applications (launched_runner 0)) key = Some (ctx\<lparr>InstancesLeftToRun := InstancesLeftToRun ctx - 1,
       tasks := tasks ctx @ [newRunOnceTask (host_offer ''h1'') i]\<rparr>)"
    "(StatusChan ctx, Ok ()) \<notin> set []"
    using run_once_from.start by blast
  moreover have "map fst (applications staged_runner) = [''job'']"
    "map (InstancesLeftToRun \<circ> snd) (applications staged_runner) = [1]"
    "map (tasks \<circ> snd) (applications staged_runner) = [[]]" by code_simp+
  ultimately show ?thesis by (auto simp: map_eq_Cons_conv)
qed

text \<open>A task that was killed counts as finished: the application is reported successful.\<close>

lemma killed_reported_successful:
  "fst (runner_StatusUpdate (end_status\<lparr>status_state := TASK_KILLED\<rparr>) (launched_runner 1)) =
     Ok (True, Some (0, Ok ()))"
  by code_simp

end
