(* ===== verification/Query.thy ===== *)
theory Query
  imports Prelude "HOL-Library.Char_ord" "HOL-Library.List_Lexorder"
begin

text \<open>
  The part of Go's package \<open>net/url\<close> that the task runners use for their requests
  (src/runners): \<open>url.Values\<close> with \<open>Set\<close>, \<open>Add\<close> and \<open>Encode\<close>.  A reference parser
  for query strings states what the other side reads: \<open>Encode\<close> loses nothing, and it
  does not depend on the order in which a map of parameters is visited.
\<close>

section \<open>Values and their encoding\<close>

type_synonym url_values = "(string \<times> string list) list"

definition values_Set :: "string \<Rightarrow> string \<Rightarrow> url_values \<Rightarrow> url_values" where
  "values_Set k v vs = AList.update k [v] vs"

definition values_Add :: "string \<Rightarrow> string \<Rightarrow> url_values \<Rightarrow> url_values" where
  "values_Add k v vs =
     AList.update k ((case map_of vs k of None \<Rightarrow> [] | Some l \<Rightarrow> l) @ [v]) vs"

definition unreserved :: "char \<Rightarrow> bool" where
  "unreserved c \<longleftrightarrow>
     (let n = of_char c :: nat
      in 48 \<le> n \<and> n \<le> 57 \<or> 65 \<le> n \<and> n \<le> 90 \<or> 97 \<le> n \<and> n \<le> 122) \<or>
     c \<in> {CHR ''-'', CHR ''_'', CHR ''.'', CHR ''~''}"

definition upper_hex :: "nat \<Rightarrow> char" where
  "upper_hex n = ''0123456789ABCDEF'' ! n"

definition escape_char :: "char \<Rightarrow> string" where
  "escape_char c =
     (if unreserved c then [c]
      else if c = CHR '' '' then [CHR ''+'']
      else [CHR ''%'', upper_hex (of_char c div 16), upper_hex (of_char c mod 16)])"

definition QueryEscape :: "string \<Rightarrow> string" where
  "QueryEscape s = concat (map escape_char s)"

definition encode_pair :: "string \<times> string \<Rightarrow> string" where
  "encode_pair p = QueryEscape (fst p) @ CHR ''='' # QueryEscape (snd p)"

definition value_pairs :: "url_values \<Rightarrow> (string \<times> string) list" where
  "value_pairs vs = concat (map (\<lambda>(k, l). map (Pair k) l) (sort_key fst vs))"

definition Encode :: "url_values \<Rightarrow> string" where
  "Encode vs = Join (map encode_pair (value_pairs vs)) ''&''"

section \<open>The reference parser\<close>

definition hex_val :: "char \<Rightarrow> nat" where
  "hex_val c =
     (case IndexByte ''0123456789ABCDEF'' c of Some n \<Rightarrow> n | None \<Rightarrow> 0)"

fun QueryUnescape :: "string \<Rightarrow> string" where
  "QueryUnescape [] = []"
| "QueryUnescape (c # s) =
     (if c = CHR ''+'' then CHR '' '' # QueryUnescape s
      else if c = CHR ''%''
      then (case s of
              a # b # s' \<Rightarrow> char_of (16 * hex_val a + hex_val b) # QueryUnescape s'
            | _ \<Rightarrow> [])
      else c # QueryUnescape s)"

fun split_on :: "char \<Rightarrow> string \<Rightarrow> string list" where
  "split_on d [] = [[]]"
| "split_on d (c # s) =
     (if c = d then [] # split_on d s
      else (case split_on d s of [] \<Rightarrow> [[c]] | p # ps \<Rightarrow> (c # p) # ps))"

definition parse_pair :: "string \<Rightarrow> string \<times> string" where
  "parse_pair p =
     (QueryUnescape (takeWhile (\<lambda>c. c \<noteq> CHR ''='') p),
      QueryUnescape (drop 1 (dropWhile (\<lambda>c. c \<noteq> CHR ''='') p)))"

definition ParseQuery :: "string \<Rightarrow> (string \<times> string) list" where
  "ParseQuery s = (if s = [] then [] else map parse_pair (split_on CHR ''&'' s))"

section \<open>Reading back\<close>

lemma hex_cases: "n < 16 \<Longrightarrow> n \<in> {0,1,2,3,4,5,6,7,8,9,10,11,12,13,14,15::nat}"
  by (simp, presburger)

lemma hex_val_upper: "n < 16 \<Longrightarrow> hex_val (upper_hex n) = n"
  by (drule hex_cases) (auto simp: hex_val_def upper_hex_def IndexByte_def)

lemma upper_hex_plain: "n < 16 \<Longrightarrow> upper_hex n \<noteq> CHR ''&'' \<and> upper_hex n \<noteq> CHR ''=''"
  by (drule hex_cases) (auto simp: upper_hex_def)

lemma unreserved_plain:
  "unreserved c \<Longrightarrow> c \<noteq> CHR ''&'' \<and> c \<noteq> CHR ''='' \<and> c \<noteq> CHR ''+'' \<and> c \<noteq> CHR ''%''"
  by (auto simp: unreserved_def)

lemma unescape_escape_char: "QueryUnescape (escape_char c @ s) = c # QueryUnescape s"
proof -
  have "of_char c < (256 :: nat)" by simp
  then have "of_char c div 16 < (16 :: nat)" by (intro less_mult_imp_div_less) simp
  then have "16 * hex_val (upper_hex (of_char c div 16)) + hex_val (upper_hex (of_char c mod 16))
             = of_char c" by (simp add: hex_val_upper)
  then show ?thesis using unreserved_plain [of c] by (simp add: escape_char_def)
qed

lemma escape_char_plain: "d \<in> set (escape_char c) \<Longrightarrow> d \<noteq> CHR ''&'' \<and> d \<noteq> CHR ''=''"
proof -
  assume d: "d \<in> set (escape_char c)"
  have "of_char c < (256 :: nat)" by simp
  then have h: "of_char c div 16 < (16 :: nat)" "of_char c mod 16 < (16 :: nat)"
    by (auto intro: less_mult_imp_div_less)
  from d consider "unreserved c" "d = c" | "d = CHR ''+''" | "d = CHR ''%''"
    | "d = upper_hex (of_char c div 16)" | "d = upper_hex (of_char c mod 16)"
    by (auto simp: escape_char_def split: if_splits)
  then show ?thesis
    by cases (use unreserved_plain upper_hex_plain [OF h(1)] upper_hex_plain [OF h(2)] in simp_all)
qed

lemma unescape_escape: "QueryUnescape (QueryEscape s) = s"
  by (induction s) (simp_all add: QueryEscape_def unescape_escape_char)

lemma escape_chars: "c \<in> set (QueryEscape s) \<Longrightarrow> c \<noteq> CHR ''&'' \<and> c \<noteq> CHR ''=''"
  using escape_char_plain by (auto simp: QueryEscape_def)

lemma drop_key: "c \<notin> set a \<Longrightarrow> dropWhile (\<lambda>x. x \<noteq> c) (a @ c # b) = c # b"
  by (induction a) auto

lemma parse_encode_pair: "parse_pair (encode_pair p) = p"
proof -
  have "CHR ''='' \<notin> set (QueryEscape (fst p))" using escape_chars by blast
  from takeWhile_neq_append [OF this] drop_key [OF this] show ?thesis
    by (simp add: parse_pair_def encode_pair_def unescape_escape del: takeWhile_append dropWhile_append)
qed

lemma encode_pair_amp: "CHR ''&'' \<notin> set (encode_pair p)"
  using escape_chars by (auto simp: encode_pair_def)

lemma encode_pair_ne: "encode_pair p \<noteq> []"
  by (simp add: encode_pair_def)

lemma split_on_plain: "d \<notin> set p \<Longrightarrow> split_on d p = [p]"
  by (induction p) auto

lemma split_on_append: "d \<notin> set p \<Longrightarrow> split_on d (p @ d # s) = p # split_on d s"
  by (induction p) auto

lemma split_on_Join:
  assumes "ps \<noteq> []" and "\<And>p. p \<in> set ps \<Longrightarrow> d \<notin> set p"
  shows "split_on d (Join ps [d]) = ps"
  using assms
proof (induction ps rule: induct_list012)
  case (3 p q ps)
  then have "split_on d (Join (q # ps) [d]) = q # ps" "d \<notin> set p" by auto
  then show ?case using split_on_append [of d p "Join (q # ps) [d]"] by simp
qed (simp_all add: split_on_plain)

lemma Join_Nil_iff: "(\<And>p. p \<in> set ps \<Longrightarrow> p \<noteq> []) \<Longrightarrow> Join ps d = [] \<longleftrightarrow> ps = []"
  by (induction ps rule: induct_list012) auto

theorem parse_Encode: "ParseQuery (Encode vs) = value_pairs vs"
proof (cases "value_pairs vs")
  case Nil
  then show ?thesis by (simp add: Encode_def ParseQuery_def)
next
  case (Cons p ps)
  let ?es = "map encode_pair (value_pairs vs)"
  have ne: "Join ?es ''&'' \<noteq> []" using Join_Nil_iff [of ?es] encode_pair_ne Cons by fastforce
  have "split_on CHR ''&'' (Join ?es ''&'') = ?es"
    using Cons encode_pair_amp by (intro split_on_Join) (simp, metis imageE list.set_map)
  with ne show ?thesis
    by (simp add: ParseQuery_def Encode_def parse_encode_pair comp_def)
qed

section \<open>Order\<close>

lemma value_pairs_set: "set (value_pairs vs) = {(k, v). \<exists>l. (k, l) \<in> set vs \<and> v \<in> set l}"
  by (auto simp: value_pairs_def)

lemma sort_key_permute:
  assumes "mset xs = mset ys" and "distinct (map fst xs)"
  shows "sort_key fst xs = sort_key fst ys"
proof (rule sort_key_inj_key_eq)
  show "mset xs = mset (sort_key fst ys)" using assms(1) by simp
  show "inj_on fst (set xs)" using assms(2) by (simp add: distinct_map)
  show "sorted (map fst (sort_key fst ys))" by simp
qed

lemma alist_eq_mset:
  assumes "map_of xs = map_of ys" and "distinct (map fst xs)" and "distinct (map fst ys)"
  shows "mset xs = mset ys"
proof (rule set_eq_iff_mset_eq_distinct [THEN iffD1])
  show "distinct xs" "distinct ys" using assms(2,3) by (auto simp: distinct_map)
  show "set xs = set ys" using assms map_of_inject_set by metis
qed

lemma Encode_cong:
  assumes "map_of xs = map_of ys" and "distinct (map fst xs)" and "distinct (map fst ys)"
  shows "Encode xs = Encode ys"
  using sort_key_permute [OF alist_eq_mset [OF assms] assms(2)]
  by (simp add: Encode_def value_pairs_def)

end
