(* ===== verification/Runners.thy ===== *)
theory Runners
  imports RunOnce Query
begin

text \<open>
  The task runners (src/runners): nine implementations of the interface \<open>TaskRunner\<close>,
  each the client of the HTTP interface of one Mesos framework.  \<open>FillContext\<close> puts
  the endpoint of the framework into the stack context, \<open>RunTask\<close> adds, configures and
  starts what a task of the stack file describes.  The HTTP exchange, the JSON codec,
  \<open>strconv.ParseFloat\<close> and the clock are parameters (\<open>http_api\<close>).

  A task is a Go map; its entries are visited in the order of the list.
  \<open>RunnerLaws\<close> shows that the requests do not depend on that order.
\<close>

section \<open>JSON values and HTTP\<close>

datatype json =
    JNull
  | JBool bool
  | JNumber float64
  | JString string
  | JArray "json list"
  | JObject "(string \<times> json) list"

type_synonym json_object = "(string \<times> json) list"

text \<open>Type assertions on the value of a key; a missing key reads as nil, which has none
  of the types.\<close>

fun as_bool :: "json option \<Rightarrow> bool option" where
  "as_bool (Some (JBool b)) = Some b"
| "as_bool _ = None"

fun as_string :: "json option \<Rightarrow> string option" where
  "as_string (Some (JString s)) = Some s"
| "as_string _ = None"

fun as_array :: "json option \<Rightarrow> json list option" where
  "as_array (Some (JArray xs)) = Some xs"
| "as_array _ = None"

fun as_object :: "json option \<Rightarrow> json_object option" where
  "as_object (Some (JObject m)) = Some m"
| "as_object _ = None"

definition or_error :: "'a option \<Rightarrow> error \<Rightarrow> 'a result" where
  "or_error v e = (case v of Some x \<Rightarrow> Ok x | None \<Rightarrow> Err e)"

text \<open>Pointers that the decoder may leave nil are options.\<close>

definition deref :: "'a option \<Rightarrow> 'a result" where
  "deref p = (case p of
     Some x \<Rightarrow> Ok x
   | None \<Rightarrow> Panic ''runtime error: invalid memory address or nil pointer dereference'')"

record exhibitorServerConfig =
  ex_ExhibitorConfig :: "(string \<times> string) list"
  ex_SharedConfigOverride :: "(string \<times> string) list"
  ex_ConfigId :: string
  ex_Hostname :: string
  ex_Cpu :: float64
  ex_Mem :: float64
  ex_Ports :: string

record exhibitorServer =
  ex_Id :: string
  ex_State :: string
  ex_Config :: "exhibitorServerConfig option"

record exhibitorCluster =
  ex_Frameworkid :: string
  ex_Cluster :: "exhibitorServer option list"

record zookeeperStatus =
  zk_Hostname :: string
  zk_IsLeader :: bool
  zk_Description :: string
  zk_Code :: int

record exhibitorStatus =
  ex_Server :: "exhibitorServer option"
  ex_ClusterView :: "zookeeperStatus option list"

record exhibitorClusterStatus =
  ex_ServerStatuses :: "exhibitorStatus option list"

record 'v exhibitorApiResponse =
  ex_Success :: bool
  ex_Message :: string
  ex_Value :: 'v

record ElasticsearchTask =
  el_ID :: string
  el_State :: string
  el_Name :: string
  el_Version :: string
  el_StartedAt :: string
  el_HttpAddress :: string
  el_TransportAddress :: string
  el_Hostname :: string

record DSEMesos02xNodeReservation =
  res_Cpus :: float64
  res_Mem :: int
  res_Ports :: "(string \<times> int) list"

record DSEMesos02xNodeRuntime =
  node_Hostname :: string
  node_SlaveID :: string
  node_ExecutorID :: string
  node_Attributes :: "(string \<times> string) list"
  node_Reservation :: "DSEMesos02xNodeReservation option"
  node_Seeds :: "string list"
  node_Address :: string
  node_TaskID :: string

record DSEMesos02xNode =
  node_Seed :: bool
  node_State :: string
  node_DC :: string
  node_ID :: string
  node_Mem :: int
  node_Cpu :: float64
  node_Rack :: string
  node_Runtime :: "DSEMesos02xNodeRuntime option"

record DSEMesos02xStartResponse =
  start_Status :: string
  start_Nodes :: "DSEMesos02xNode option list"

text \<open>A response has a status code and the result of reading its body.  The decoders
  stand for \<open>json.Unmarshal\<close> at the types of the source; a JSON null makes the pointer
  it is decoded into nil.\<close>

type_synonym http_response = "int \<times> string result"

record 'w http_api =
  http_Get :: "string \<Rightarrow> 'w \<Rightarrow> http_response result \<times> 'w"
  http_Post :: "string \<Rightarrow> string \<Rightarrow> string \<Rightarrow> 'w \<Rightarrow> http_response result \<times> 'w"
  marshal :: "json \<Rightarrow> string result"
  unmarshal_object :: "string \<Rightarrow> json_object result"
  unmarshal_cluster :: "string \<Rightarrow> exhibitorCluster option exhibitorApiResponse option result"
  unmarshal_status :: "string \<Rightarrow> exhibitorClusterStatus option exhibitorApiResponse option result"
  unmarshal_tasks :: "string \<Rightarrow> ElasticsearchTask option list result"
  unmarshal_start :: "string \<Rightarrow> DSEMesos02xStartResponse option result"
  ParseFloat :: "string \<Rightarrow> float64 result"
  now :: "'w \<Rightarrow> int"
  sleep :: "int \<Rightarrow> 'w \<Rightarrow> 'w"
  show_duration :: "int \<Rightarrow> string"

type_synonym ('w, 'a) call = "'w \<Rightarrow> 'a result \<times> 'w"

definition call_then :: "('w, 'a) call \<Rightarrow> ('a \<Rightarrow> ('w, 'b) call) \<Rightarrow> ('w, 'b) call" where
  "call_then f g w =
     (case f w of
        (Ok x, w') \<Rightarrow> g x w'
      | (Err e, w') \<Rightarrow> (Err e, w')
      | (Panic e, w') \<Rightarrow> (Panic e, w'))"

definition get_checked ::
    "'w http_api \<Rightarrow> (http_response \<Rightarrow> 'a result) \<Rightarrow> string \<Rightarrow> ('w, 'a) call" where
  "get_checked H check url = call_then (http_Get H url) (\<lambda>response w. (check response, w))"

section \<open>The endpoint of a framework\<close>

fun set_numbered :: "(string \<Rightarrow> string) \<Rightarrow> nat \<Rightarrow> string list \<Rightarrow> Variables \<Rightarrow> Variables" where
  "set_numbered key i [] context = context"
| "set_numbered key i (v # vs) context =
     set_numbered key (Suc i) vs (SetStackVariable (key (show_nat i)) v context)"

definition endpoint :: "marathon_Task \<Rightarrow> string result" where
  "endpoint task =
     (case TaskPorts task of
        [] \<Rightarrow> Panic ''runtime error: index out of range''
      | port # _ \<Rightarrow> Ok (''http://'' @ Host task @ '':'' @ Itoa port))"

definition fill_ports :: "Variables \<Rightarrow> Application \<Rightarrow> marathon_Task \<Rightarrow> Variables" where
  "fill_ports context a task =
     set_numbered (\<lambda>idx. ID a @ ''.port'' @ idx) 0 (map Itoa (TaskPorts task))
       (SetStackVariable (ID a @ ''.host'') (Host task) context)"

definition fill_endpoint ::
    "Variables \<Rightarrow> Application \<Rightarrow> marathon_Task \<Rightarrow> 'w \<Rightarrow> unit result \<times> Variables \<times> 'w" where
  "fill_endpoint context a task w =
     (case endpoint task of
        Ok api \<Rightarrow> (Ok (), SetStackVariable (ID a @ ''.api'') api (fill_ports context a task), w)
      | Err e \<Rightarrow> (Err e, fill_ports context a task, w)
      | Panic e \<Rightarrow> (Panic e, fill_ports context a task, w))"

text \<open>\<open>RunTask\<close> reads the endpoint back; its absence is a panic.  \<open>call_context\<close> runs
  the requests and then updates the context with what they answered.\<close>

definition with_api ::
    "Variables \<Rightarrow> Application \<Rightarrow> (string \<Rightarrow> 'w \<Rightarrow> unit result \<times> Variables \<times> 'w) \<Rightarrow> 'w
     \<Rightarrow> unit result \<times> Variables \<times> 'w" where
  "with_api context a body w =
     (case MustGet context (ID a @ ''.api'') of
        Ok api \<Rightarrow> body api w
      | Err e \<Rightarrow> (Err e, context, w)
      | Panic e \<Rightarrow> (Panic e, context, w))"

definition call_context ::
    "('w, 'a) call \<Rightarrow> ('a \<Rightarrow> Variables \<Rightarrow> unit result \<times> Variables) \<Rightarrow> Variables \<Rightarrow> 'w
     \<Rightarrow> unit result \<times> Variables \<times> 'w" where
  "call_context f fill context w =
     (case f w of
        (Ok x, w') \<Rightarrow> (case fill x context of (r, context') \<Rightarrow> (r, context', w'))
      | (Err e, w') \<Rightarrow> (Err e, context, w')
      | (Panic e, w') \<Rightarrow> (Panic e, context, w'))"

definition keep_context :: "'a \<Rightarrow> Variables \<Rightarrow> unit result \<times> Variables" where
  "keep_context x context = (Ok (), context)"

text \<open>The loops that copy the parameters with selected names.\<close>

definition select_values :: "(string \<Rightarrow> bool) \<Rightarrow> (string \<times> string) list \<Rightarrow> url_values" where
  "select_values sel params =
     fold (\<lambda>(k, v) values. if sel k then values_Set k v values else values) params []"

section \<open>Kafka\<close>

definition Kafka_FillContext ::
    "Variables \<Rightarrow> Application \<Rightarrow> marathon_Task \<Rightarrow> 'w \<Rightarrow> unit result \<times> Variables \<times> 'w" where
  "Kafka_FillContext context a task w = fill_endpoint context a task w"

definition kafka_add_values :: "(string \<times> string) list \<Rightarrow> url_values" where
  "kafka_add_values params =
     fold (\<lambda>(k, v) values.
       if k = ''timeout'' then values
       else if k = ''id'' then values_Set ''broker'' v values
       else values_Set k v values) params []"

definition kafka_start_values :: "(string \<times> string) list \<Rightarrow> url_values" where
  "kafka_start_values params =
     fold (\<lambda>(k, v) values.
       let values' = (if k = ''id'' then values_Set ''broker'' v values else values)
       in if k = ''timeout'' then values_Set ''timeout'' v values' else values') params []"

definition bad_status :: "int \<Rightarrow> error" where
  "bad_status code = ''Response returned with status code '' @ Itoa code"

definition Kafka_checkResponse :: "'w http_api \<Rightarrow> http_response \<Rightarrow> unit result" where
  "Kafka_checkResponse H response =
     (if fst response \<noteq> 200 then Err (bad_status (fst response))
      else and_then (snd response) (\<lambda>body. and_then (unmarshal_object H body) (\<lambda>doc.
        case map_of doc ''error'' of
          None \<Rightarrow> Ok ()
        | Some (JString msg) \<Rightarrow> Err msg
        | Some _ \<Rightarrow> Panic ''interface conversion: interface is not string'')))"

definition Kafka_Add :: "'w http_api \<Rightarrow> string \<Rightarrow> (string \<times> string) list \<Rightarrow> ('w, unit) call" where
  "Kafka_Add H api params =
     get_checked H (Kafka_checkResponse H)
       (api @ ''/api/broker/add?'' @ Encode (kafka_add_values params))"

definition Kafka_Start :: "'w http_api \<Rightarrow> string \<Rightarrow> (string \<times> string) list \<Rightarrow> ('w, unit) call" where
  "Kafka_Start H api params =
     get_checked H (Kafka_checkResponse H)
       (api @ ''/api/broker/start?'' @ Encode (kafka_start_values params))"

definition Kafka_RunTask ::
    "'w http_api \<Rightarrow> Variables \<Rightarrow> Application \<Rightarrow> (string \<times> string) list \<Rightarrow> 'w
     \<Rightarrow> unit result \<times> Variables \<times> 'w" where
  "Kafka_RunTask H context a task =
     with_api context a (\<lambda>api. call_context
       (call_then (Kafka_Add H api task) (\<lambda>_. Kafka_Start H api task))
       keep_context context)"

section \<open>Statsd and Syslog\<close>

definition success_doc :: "string \<Rightarrow> json_object \<Rightarrow> unit result" where
  "success_doc name doc =
     (case map_of doc ''Success'' of
        None \<Rightarrow> Err (''Invalid '' @ name @ ''-mesos response'')
      | Some (JBool success) \<Rightarrow>
          if success then Ok ()
          else (case map_of doc ''Message'' of
                  Some (JString msg) \<Rightarrow> Err msg
                | _ \<Rightarrow> Panic ''interface conversion: interface is not string'')
      | Some _ \<Rightarrow> Err (''Invalid '' @ name @ ''-mesos Success field type''))"

definition Statsd_checkResponse :: "'w http_api \<Rightarrow> http_response \<Rightarrow> unit result" where
  "Statsd_checkResponse H response =
     (if fst response \<noteq> 200 then Err (bad_status (fst response))
      else and_then (snd response) (\<lambda>body.
        and_then (unmarshal_object H body) (success_doc ''statsd'')))"

definition Statsd_FillContext ::
    "Variables \<Rightarrow> Application \<Rightarrow> marathon_Task \<Rightarrow> 'w \<Rightarrow> unit result \<times> Variables \<times> 'w" where
  "Statsd_FillContext context a task w = fill_endpoint context a task w"

definition Statsd_Update :: "'w http_api \<Rightarrow> string \<Rightarrow> (string \<times> string) list \<Rightarrow> ('w, unit) call" where
  "Statsd_Update H api params =
     get_checked H (Statsd_checkResponse H)
       (api @ ''/api/update?'' @ Encode (select_values (\<lambda>k. True) params))"

definition Statsd_Start :: "'w http_api \<Rightarrow> string \<Rightarrow> ('w, unit) call" where
  "Statsd_Start H api = get_checked H (Statsd_checkResponse H) (api @ ''/api/start'')"

definition Statsd_RunTask ::
    "'w http_api \<Rightarrow> Variables \<Rightarrow> Application \<Rightarrow> (string \<times> string) list \<Rightarrow> 'w
     \<Rightarrow> unit result \<times> Variables \<times> 'w" where
  "Statsd_RunTask H context a task =
     with_api context a (\<lambda>api. call_context
       (call_then (Statsd_Update H api task) (\<lambda>_. Statsd_Start H api))
       keep_context context)"

definition Syslog_checkResponse :: "'w http_api \<Rightarrow> http_response \<Rightarrow> unit result" where
  "Syslog_checkResponse H response =
     (if fst response \<noteq> 200 then Err (bad_status (fst response))
      else and_then (snd response) (\<lambda>body.
        and_then (unmarshal_object H body) (success_doc ''syslog'')))"

definition Syslog_FillContext ::
    "Variables \<Rightarrow> Application \<Rightarrow> marathon_Task \<Rightarrow> 'w \<Rightarrow> unit result \<times> Variables \<times> 'w" where
  "Syslog_FillContext context a task w = fill_endpoint context a task w"

definition Syslog_Update :: "'w http_api \<Rightarrow> string \<Rightarrow> (string \<times> string) list \<Rightarrow> ('w, unit) call" where
  "Syslog_Update H api params =
     get_checked H (Syslog_checkResponse H)
       (api @ ''/api/update?'' @ Encode (select_values (\<lambda>k. True) params))"

definition Syslog_Start :: "'w http_api \<Rightarrow> string \<Rightarrow> ('w, unit) call" where
  "Syslog_Start H api = get_checked H (Syslog_checkResponse H) (api @ ''/api/start'')"

definition Syslog_RunTask ::
    "'w http_api \<Rightarrow> Variables \<Rightarrow> Application \<Rightarrow> (string \<times> string) list \<Rightarrow> 'w
     \<Rightarrow> unit result \<times> Variables \<times> 'w" where
  "Syslog_RunTask H context a task =
     with_api context a (\<lambda>api. call_context
       (call_then (Syslog_Update H api task) (\<lambda>_. Syslog_Start H api))
       keep_context context)"

section \<open>Go Kafka client\<close>

definition GoKafka_checkResponse :: "'w http_api \<Rightarrow> http_response \<Rightarrow> unit result" where
  "GoKafka_checkResponse H response =
     and_then (snd response) (\<lambda>body.
       and_then (unmarshal_object H body) (success_doc ''go-kafka-client''))"

definition GoKafka_FillContext ::
    "Variables \<Rightarrow> Application \<Rightarrow> marathon_Task \<Rightarrow> 'w \<Rightarrow> unit result \<times> Variables \<times> 'w" where
  "GoKafka_FillContext context a task w = fill_endpoint context a task w"

definition gokafka_add_key :: "string \<Rightarrow> bool" where
  "gokafka_add_key k \<longleftrightarrow> k \<in> set [''id'', ''type'', ''cpu'', ''mem'', ''executor'']"

definition gokafka_update_key :: "string \<Rightarrow> bool" where
  "gokafka_update_key k \<longleftrightarrow> k \<notin> set [''type'', ''cpu'', ''mem'', ''executor'', ''timeout'']"

definition start_key :: "string \<Rightarrow> bool" where
  "start_key k \<longleftrightarrow> k \<in> set [''id'', ''timeout'']"

definition GoKafka_Add :: "'w http_api \<Rightarrow> string \<Rightarrow> (string \<times> string) list \<Rightarrow> ('w, unit) call" where
  "GoKafka_Add H api params =
     get_checked H (GoKafka_checkResponse H)
       (api @ ''/api/add?'' @ Encode (select_values gokafka_add_key params))"

definition GoKafka_Update :: "'w http_api \<Rightarrow> string \<Rightarrow> (string \<times> string) list \<Rightarrow> ('w, unit) call" where
  "GoKafka_Update H api params =
     get_checked H (GoKafka_checkResponse H)
       (api @ ''/api/update?'' @ Encode (select_values gokafka_update_key params))"

definition GoKafka_Start :: "'w http_api \<Rightarrow> string \<Rightarrow> (string \<times> string) list \<Rightarrow> ('w, unit) call" where
  "GoKafka_Start H api params =
     get_checked H (GoKafka_checkResponse H)
       (api @ ''/api/start?'' @ Encode (select_values start_key params))"

definition GoKafka_RunTask ::
    "'w http_api \<Rightarrow> Variables \<Rightarrow> Application \<Rightarrow> (string \<times> string) list \<Rightarrow> 'w
     \<Rightarrow> unit result \<times> Variables \<times> 'w" where
  "GoKafka_RunTask H context a task =
     with_api context a (\<lambda>api. call_context
       (call_then (GoKafka_Add H api task) (\<lambda>_.
        call_then (GoKafka_Update H api task) (\<lambda>_. GoKafka_Start H api task)))
       keep_context context)"

section \<open>DSE 0.1\<close>

definition success_or_message :: "'w http_api \<Rightarrow> http_response \<Rightarrow> json_object result" where
  "success_or_message H response =
     and_then (snd response) (\<lambda>body. and_then (unmarshal_object H body) (\<lambda>doc.
       if as_bool (map_of doc ''success'') = Some True then Ok doc
       else (case as_string (map_of doc ''message'') of
               Some msg \<Rightarrow> Err msg
             | None \<Rightarrow> Err ''Request failed for unknown reason'')))"

definition DSE_checkResponse :: "'w http_api \<Rightarrow> http_response \<Rightarrow> json_object result" where
  "DSE_checkResponse H response = success_or_message H response"

definition DSE_FillContext ::
    "Variables \<Rightarrow> Application \<Rightarrow> marathon_Task \<Rightarrow> 'w \<Rightarrow> unit result \<times> Variables \<times> 'w" where
  "DSE_FillContext context a task w = fill_endpoint context a task w"

definition ParseBool :: "string \<Rightarrow> bool result" where
  "ParseBool s =
     (if s \<in> set [''1'', ''t'', ''T'', ''true'', ''TRUE'', ''True''] then Ok True
      else if s \<in> set [''0'', ''f'', ''F'', ''false'', ''FALSE'', ''False''] then Ok False
      else Err (''strconv.ParseBool: parsing '' @ s @ '': invalid syntax''))"

definition post_value :: "'w http_api \<Rightarrow> string \<Rightarrow> string \<Rightarrow> json result" where
  "post_value H k v =
     (if k = ''cpu'' \<or> k = ''mem'' then map_result JNumber (ParseFloat H v)
      else if k = ''seed'' then map_result JBool (ParseBool v)
      else Ok (JString v))"

fun post_params :: "'w http_api \<Rightarrow> (string \<times> string) list \<Rightarrow> json_object \<Rightarrow> json_object result" where
  "post_params H [] acc = Ok acc"
| "post_params H ((k, v) # params) acc =
     and_then (post_value H k v) (\<lambda>x. post_params H params (AList.update k x acc))"

text \<open>\<open>json.Marshal\<close> writes the keys of a map in sorted order.\<close>

definition DSE_doPost ::
    "'w http_api \<Rightarrow> string \<Rightarrow> (string \<times> string) list \<Rightarrow> ('w, json_object) call" where
  "DSE_doPost H url params w =
     (case and_then (post_params H params []) (\<lambda>ps. marshal H (JObject (sort_key fst ps))) of
        Ok body \<Rightarrow> call_then (http_Post H url ''application/json'' body)
                     (\<lambda>response w. (DSE_checkResponse H response, w)) w
      | Err e \<Rightarrow> (Err e, w)
      | Panic e \<Rightarrow> (Panic e, w))"

definition DSE_Add :: "'w http_api \<Rightarrow> string \<Rightarrow> (string \<times> string) list \<Rightarrow> ('w, json_object) call" where
  "DSE_Add H api params = DSE_doPost H (api @ ''/api/add'') params"

definition DSE_Start :: "'w http_api \<Rightarrow> string \<Rightarrow> (string \<times> string) list \<Rightarrow> ('w, json_object) call" where
  "DSE_Start H api params = DSE_doPost H (api @ ''/api/start'') params"

definition dse_server :: "json \<Rightarrow> string result" where
  "dse_server x =
     and_then (or_error (as_object (Some x)) ''Wrong cluster field'') (\<lambda>cluster.
     and_then (or_error (as_string (map_of cluster ''id'')) ''Wrong id field'') (\<lambda>_.
     and_then (or_error (as_object (map_of cluster ''runtime'')) ''Wrong runtime field'') (\<lambda>runtime.
       or_error (as_string (map_of runtime ''hostname'')) ''Wrong hostname field'')))"

fun map_results :: "('a \<Rightarrow> 'b result) \<Rightarrow> 'a list \<Rightarrow> 'b list result" where
  "map_results f [] = Ok []"
| "map_results f (x # xs) = and_then (f x) (\<lambda>y. map_result (Cons y) (map_results f xs))"

definition dse_servers :: "json_object \<Rightarrow> string list result" where
  "dse_servers doc =
     and_then (or_error (as_object (map_of doc ''value'')) ''Wrong value field'') (\<lambda>val.
     and_then (or_error (as_array (map_of val ''cluster'')) ''Wrong cluster field'') (\<lambda>clusters.
       map_results dse_server clusters))"

text \<open>The variables are set once all servers were read.\<close>

definition fill_servers ::
    "(string \<Rightarrow> string) \<Rightarrow> string \<Rightarrow> string list result \<Rightarrow> Variables \<Rightarrow> unit result \<times> Variables" where
  "fill_servers key connect servers context =
     (case servers of
        Ok hosts \<Rightarrow>
          (Ok (), SetStackVariable connect (Join hosts '','') (set_numbered key 0 hosts context))
      | Err e \<Rightarrow> (Err e, context)
      | Panic e \<Rightarrow> (Panic e, context))"

definition DSE_fillTaskContext ::
    "Application \<Rightarrow> json_object \<Rightarrow> Variables \<Rightarrow> unit result \<times> Variables" where
  "DSE_fillTaskContext a doc =
     fill_servers (\<lambda>idx. ID a @ ''.cassandra-node-'' @ idx) (ID a @ ''.cassandraConnect'')
       (dse_servers doc)"

definition DSE_RunTask ::
    "'w http_api \<Rightarrow> Variables \<Rightarrow> Application \<Rightarrow> (string \<times> string) list \<Rightarrow> 'w
     \<Rightarrow> unit result \<times> Variables \<times> 'w" where
  "DSE_RunTask H context a task =
     with_api context a (\<lambda>api. call_context
       (call_then (DSE_Add H api task) (\<lambda>_. DSE_Start H api task))
       (DSE_fillTaskContext a) context)"

section \<open>DSE 0.2\<close>

definition Contains :: "string \<Rightarrow> string \<Rightarrow> bool" where
  "Contains s part \<longleftrightarrow> list_ex (\<lambda>i. HasPrefix (drop i s) part) [0..<Suc (length s)]"

definition DSE02x_checkResponse :: "'w http_api \<Rightarrow> http_response \<Rightarrow> string result" where
  "DSE02x_checkResponse H response =
     and_then (snd response) (\<lambda>body.
       case unmarshal_object H body of
         Ok doc \<Rightarrow>
           (case as_string (map_of doc ''error'') of
              Some msg \<Rightarrow> if \<not> Contains msg ''duplicate cluster'' then Err msg else Ok body
            | None \<Rightarrow> Ok body)
       | Err _ \<Rightarrow> Ok body
       | Panic e \<Rightarrow> Panic e)"

definition DSE02x_doGet ::
    "'w http_api \<Rightarrow> string \<Rightarrow> (string \<times> string) list \<Rightarrow> ('w, string) call" where
  "DSE02x_doGet H url params =
     get_checked H (DSE02x_checkResponse H)
       (url @ ''?'' @ Encode (fold (\<lambda>(k, v). values_Add k v) params []))"

definition DSE02x_AddCluster :: "'w http_api \<Rightarrow> string \<Rightarrow> (string \<times> string) list \<Rightarrow> ('w, string) call" where
  "DSE02x_AddCluster H api params = DSE02x_doGet H (api @ ''/api/cluster/add'') params"

definition DSE02x_Add :: "'w http_api \<Rightarrow> string \<Rightarrow> (string \<times> string) list \<Rightarrow> ('w, string) call" where
  "DSE02x_Add H api params = DSE02x_doGet H (api @ ''/api/node/add'') params"

definition DSE02x_Start :: "'w http_api \<Rightarrow> string \<Rightarrow> (string \<times> string) list \<Rightarrow> ('w, string) call" where
  "DSE02x_Start H api params = DSE02x_doGet H (api @ ''/api/node/start'') params"

definition DSE02x_FillContext ::
    "Variables \<Rightarrow> Application \<Rightarrow> marathon_Task \<Rightarrow> 'w \<Rightarrow> unit result \<times> Variables \<times> 'w" where
  "DSE02x_FillContext context a task w = fill_endpoint context a task w"

definition fill_node ::
    "Application \<Rightarrow> DSEMesos02xNode \<Rightarrow> DSEMesos02xNodeRuntime \<Rightarrow> (string \<times> int) list \<Rightarrow> string
     \<Rightarrow> Variables \<Rightarrow> Variables" where
  "fill_node a node rt ports nodeEndpoint context =
     (let base = ID a @ ''.cassandra-'' @ node_ID node
      in fold (\<lambda>(name, port). SetStackVariable (base @ ''.'' @ name @ ''Port'') (Itoa port)) ports
           (SetStackVariable (base @ ''.host'') (node_Address rt)
             (SetStackVariable base nodeEndpoint context)))"

definition cql_port :: "(string \<times> int) list \<Rightarrow> int" where
  "cql_port ports = (case map_of ports ''cql'' of Some p \<Rightarrow> p | None \<Rightarrow> 0)"

fun fill_nodes ::
    "Application \<Rightarrow> DSEMesos02xNode option list \<Rightarrow> string list \<Rightarrow> Variables
     \<Rightarrow> unit result \<times> Variables" where
  "fill_nodes a [] servers context =
     (Ok (), SetStackVariable (ID a @ ''.cassandraConnect'') (Join servers '','') context)"
| "fill_nodes a (p # ps) servers context =
     (case and_then (deref p) (\<lambda>node. and_then (deref (node_Runtime node)) (\<lambda>rt.
             map_result (\<lambda>res. (node, rt, res_Ports res)) (deref (node_Reservation rt)))) of
        Ok (node, rt, ports) \<Rightarrow>
          (let nodeEndpoint = node_Address rt @ '':'' @ Itoa (cql_port ports)
           in fill_nodes a ps (servers @ [nodeEndpoint])
                (fill_node a node rt ports nodeEndpoint context))
      | Err e \<Rightarrow> (Err e, context)
      | Panic e \<Rightarrow> (Panic e, context))"

definition DSE02x_fillTaskContext ::
    "'w http_api \<Rightarrow> Application \<Rightarrow> string \<Rightarrow> Variables \<Rightarrow> unit result \<times> Variables" where
  "DSE02x_fillTaskContext H a body context =
     (case and_then (unmarshal_start H body) deref of
        Ok response \<Rightarrow>
          if start_Status response = ''timeout'' then (Err ''Timed out'', context)
          else fill_nodes a (start_Nodes response) [] context
      | Err e \<Rightarrow> (Err e, context)
      | Panic e \<Rightarrow> (Panic e, context))"

definition DSE02x_RunTask ::
    "'w http_api \<Rightarrow> Variables \<Rightarrow> Application \<Rightarrow> (string \<times> string) list \<Rightarrow> 'w
     \<Rightarrow> unit result \<times> Variables \<times> 'w" where
  "DSE02x_RunTask H context a task =
     with_api context a (\<lambda>api. call_context
       (call_then (DSE02x_AddCluster H api task) (\<lambda>_.
        call_then (DSE02x_Add H api task) (\<lambda>_. DSE02x_Start H api task)))
       (DSE02x_fillTaskContext H a) context)"

section \<open>Zipkin\<close>

definition Zipkin_checkResponse :: "'w http_api \<Rightarrow> http_response \<Rightarrow> json_object result" where
  "Zipkin_checkResponse H response = success_or_message H response"

definition Zipkin_FillContext ::
    "Variables \<Rightarrow> Application \<Rightarrow> marathon_Task \<Rightarrow> 'w \<Rightarrow> unit result \<times> Variables \<times> 'w" where
  "Zipkin_FillContext context a task w = fill_endpoint context a task w"

definition param :: "(string \<times> string) list \<Rightarrow> string \<Rightarrow> string" where
  "param params k = (case map_of params k of Some v \<Rightarrow> v | None \<Rightarrow> [])"

definition zipkin_add_key :: "string \<Rightarrow> bool" where
  "zipkin_add_key k \<longleftrightarrow>
     k \<in> set [''id'', ''cpu'', ''mem'', ''flags'', ''env'', ''port'', ''adminPort'',
             ''configFile'', ''constraints'']"

definition Zipkin_Add :: "'w http_api \<Rightarrow> string \<Rightarrow> (string \<times> string) list \<Rightarrow> ('w, json_object) call" where
  "Zipkin_Add H api params =
     get_checked H (Zipkin_checkResponse H)
       (api @ ''/api/'' @ param params ''type'' @ ''/add?'' @
        Encode (select_values zipkin_add_key params))"

definition Zipkin_Start :: "'w http_api \<Rightarrow> string \<Rightarrow> (string \<times> string) list \<Rightarrow> ('w, json_object) call" where
  "Zipkin_Start H api params =
     get_checked H (Zipkin_checkResponse H)
       (api @ ''/api/'' @ param params ''type'' @ ''/start?'' @
        Encode (select_values start_key params))"

definition zipkin_value :: "json \<Rightarrow> (string \<times> string) result" where
  "zipkin_value x =
     and_then (or_error (as_object (Some x)) ''Wrong value interface field'') (\<lambda>val.
     and_then (or_error (as_string (map_of val ''id'')) ''Wrong id field'') (\<lambda>node.
     and_then (or_error (as_object (map_of val ''config'')) ''Wrong config field'') (\<lambda>config.
     and_then (or_error (as_string (map_of config ''hostname'')) ''Wrong hostname field'') (\<lambda>hostname.
     and_then (or_error (as_object (map_of config ''env'')) ''Wrong env field'') (\<lambda>env.
     and_then (or_error (as_string (map_of env ''QUERY_PORT'')) ''Wrong QUERY_PORT env'') (\<lambda>queryPort.
       Ok (node, hostname @ '':'' @ queryPort)))))))"

fun fill_queries :: "Application \<Rightarrow> json list \<Rightarrow> Variables \<Rightarrow> unit result \<times> Variables" where
  "fill_queries a [] context = (Ok (), context)"
| "fill_queries a (x # xs) context =
     (case zipkin_value x of
        Ok (node, address) \<Rightarrow>
          fill_queries a xs
            (SetStackVariable (ID a @ ''.query-'' @ node @ ''.endpoint'') address context)
      | Err e \<Rightarrow> (Err e, context)
      | Panic e \<Rightarrow> (Panic e, context))"

definition Zipkin_fillTaskContext ::
    "Application \<Rightarrow> json_object \<Rightarrow> Variables \<Rightarrow> unit result \<times> Variables" where
  "Zipkin_fillTaskContext a doc context =
     (case as_array (map_of doc ''value'') of
        None \<Rightarrow> (Err ''Wrong value field'', context)
      | Some xs \<Rightarrow> fill_queries a xs context)"

definition Zipkin_RunTask ::
    "'w http_api \<Rightarrow> Variables \<Rightarrow> Application \<Rightarrow> (string \<times> string) list \<Rightarrow> 'w
     \<Rightarrow> unit result \<times> Variables \<times> 'w" where
  "Zipkin_RunTask H context a task =
     with_api context a (\<lambda>api w.
       case map_of task ''id'' of
         None \<Rightarrow> (Err ''Missing task id'', context, w)
       | Some taskId \<Rightarrow>
           (case map_of task ''type'' of
              None \<Rightarrow> (Err (''Missing task type for id '' @ taskId), context, w)
            | Some taskType \<Rightarrow>
                call_context
                  (call_then (Zipkin_Add H api task) (\<lambda>_. Zipkin_Start H api task))
                  (if taskType = ''query'' then Zipkin_fillTaskContext a else keep_context)
                  context w))"

end
