(* ===== verification/RunnersAwait.thy ===== *)
theory RunnersAwait
  imports Runners
begin

text \<open>
  The two task runners that wait (src/runners/exhibitor_task_runner.go and
  src/runners/elasticsearch_task_runner.go) and the registry of all runners
  (src/main.go).  A waiting loop may run for ever, so it is a partial function whose
  value None means that it does not return.
\<close>

section \<open>Polling\<close>

text \<open>One iteration gives the result to return, or None to go on.\<close>

partial_function (option) poll_loop ::
    "('w \<Rightarrow> 'a result option \<times> 'w) \<Rightarrow> 'w \<Rightarrow> ('a result \<times> 'w) option" where
  "poll_loop poll w =
     (case poll w of
        (Some r, w') \<Rightarrow> Some (r, w')
      | (None, w') \<Rightarrow> poll_loop poll w')"

text \<open>A runner that waits in vain executes no later statement of the deployment, and what
  it has written before stays in the context.  As a step such a call ends the sequence
  like a panic does, with the context at the time it began to wait.\<close>

definition or_blocked :: "(unit result \<times> 'w) option \<Rightarrow> Variables \<Rightarrow> 'w \<Rightarrow> unit result \<times> Variables \<times> 'w" where
  "or_blocked waited context w =
     (case waited of
        Some (r, w') \<Rightarrow> (r, context, w')
      | None \<Rightarrow> (Panic ''the call does not return'', context, w))"

section \<open>Exhibitor\<close>

definition Exhibitor_FillContext ::
    "Variables \<Rightarrow> Application \<Rightarrow> marathon_Task \<Rightarrow> 'w \<Rightarrow> unit result \<times> Variables \<times> 'w" where
  "Exhibitor_FillContext context a task w = fill_endpoint context a task w"

text \<open>The decoded value is returned when the response reports success.\<close>

definition Exhibitor_checkResponse ::
    "(string \<Rightarrow> 'v exhibitorApiResponse option result) \<Rightarrow> http_response \<Rightarrow> 'v result" where
  "Exhibitor_checkResponse unmarshal response =
     and_then (snd response) (\<lambda>body. and_then (unmarshal body) (\<lambda>p. and_then (deref p) (\<lambda>doc.
       if ex_Success doc then Ok (ex_Value doc) else Err (ex_Message doc))))"

definition exhibitor_add_key :: "string \<Rightarrow> bool" where
  "exhibitor_add_key k \<longleftrightarrow>
     k \<in> set [''id'', ''cpu'', ''mem'', ''constraints'', ''configchangebackoff'', ''port'', ''docker'']"

definition exhibitor_update_key :: "string \<Rightarrow> bool" where
  "exhibitor_update_key k \<longleftrightarrow>
     k \<notin> set [''cpu'', ''mem'', ''constraints'', ''configchangebackoff'', ''port'', ''docker'', ''timeout'']"

definition Exhibitor_Add ::
    "'w http_api \<Rightarrow> string \<Rightarrow> (string \<times> string) list \<Rightarrow> ('w, exhibitorCluster option) call" where
  "Exhibitor_Add H api params =
     get_checked H (Exhibitor_checkResponse (unmarshal_cluster H))
       (api @ ''/api/add?'' @ Encode (select_values exhibitor_add_key params))"

definition Exhibitor_Update ::
    "'w http_api \<Rightarrow> string \<Rightarrow> (string \<times> string) list \<Rightarrow> ('w, exhibitorCluster option) call" where
  "Exhibitor_Update H api params =
     get_checked H (Exhibitor_checkResponse (unmarshal_cluster H))
       (api @ ''/api/config?'' @ Encode (select_values exhibitor_update_key params))"

definition Exhibitor_Start ::
    "'w http_api \<Rightarrow> string \<Rightarrow> (string \<times> string) list \<Rightarrow> ('w, exhibitorCluster option) call" where
  "Exhibitor_Start H api params =
     get_checked H (Exhibitor_checkResponse (unmarshal_cluster H))
       (api @ ''/api/start?'' @ Encode (select_values start_key params))"

definition Exhibitor_Status ::
    "'w http_api \<Rightarrow> string \<Rightarrow> ('w, exhibitorClusterStatus option) call" where
  "Exhibitor_Status H api =
     get_checked H (Exhibitor_checkResponse (unmarshal_status H)) (api @ ''/api/status'')"

definition getClientPort :: "exhibitorServerConfig \<Rightarrow> string" where
  "getClientPort config =
     (case map_of (ex_SharedConfigOverride config) ''client-port'' of
        Some port \<Rightarrow> port
      | None \<Rightarrow> ''2181'')"

definition exhibitor_host :: "exhibitorServer option \<Rightarrow> string result" where
  "exhibitor_host p =
     and_then (deref p) (\<lambda>server. and_then (deref (ex_Config server)) (\<lambda>config.
       Ok (ex_Hostname config @ '':'' @ getClientPort config)))"

definition Exhibitor_fillTaskContext ::
    "Application \<Rightarrow> exhibitorCluster option \<Rightarrow> Variables \<Rightarrow> unit result \<times> Variables" where
  "Exhibitor_fillTaskContext a response =
     fill_servers (\<lambda>idx. ID a @ ''.exhibitor-'' @ idx) (ID a @ ''.zkConnect'')
       (and_then (deref response) (\<lambda>cluster. map_results exhibitor_host (ex_Cluster cluster)))"

fun count_serving :: "zookeeperStatus option list \<Rightarrow> nat result" where
  "count_serving [] = Ok 0"
| "count_serving (p # ps) =
     and_then (deref p) (\<lambda>zk.
       map_result (\<lambda>n. if zk_Description zk = ''serving'' then Suc n else n) (count_serving ps))"

fun all_serving :: "nat \<Rightarrow> exhibitorStatus option list \<Rightarrow> bool result" where
  "all_serving targetRunning [] = Ok True"
| "all_serving targetRunning (p # ps) =
     and_then (deref p) (\<lambda>st. and_then (count_serving (ex_ClusterView st)) (\<lambda>actualRunning.
       if targetRunning \<noteq> actualRunning then Ok False else all_serving targetRunning ps))"

definition zookeeper_ready :: "exhibitorClusterStatus option \<Rightarrow> bool result" where
  "zookeeper_ready status =
     and_then (deref status) (\<lambda>st.
       all_serving (length (ex_ServerStatuses st)) (ex_ServerStatuses st))"

definition zookeeper_poll :: "'w http_api \<Rightarrow> string \<Rightarrow> 'w \<Rightarrow> unit result option \<times> 'w" where
  "zookeeper_poll H api w =
     (case call_then (Exhibitor_Status H api) (\<lambda>status w. (zookeeper_ready status, w))
             (sleep H 10000000000 w) of
        (Ok True, w') \<Rightarrow> (Some (Ok ()), w')
      | (Ok False, w') \<Rightarrow> (None, w')
      | (Err e, w') \<Rightarrow> (Some (Err e), w')
      | (Panic e, w') \<Rightarrow> (Some (Panic e), w'))"

definition AwaitZookeeperRunning :: "'w http_api \<Rightarrow> string \<Rightarrow> 'w \<Rightarrow> (unit result \<times> 'w) option" where
  "AwaitZookeeperRunning H api = poll_loop (zookeeper_poll H api)"

definition Exhibitor_RunTask ::
    "'w http_api \<Rightarrow> Variables \<Rightarrow> Application \<Rightarrow> (string \<times> string) list \<Rightarrow> 'w
     \<Rightarrow> unit result \<times> Variables \<times> 'w" where
  "Exhibitor_RunTask H context a task w =
     (case MustGet context (ID a @ ''.api'') of
        Ok api \<Rightarrow>
          (case call_context
                  (call_then (Exhibitor_Add H api task) (\<lambda>_.
                   call_then (Exhibitor_Update H api task) (\<lambda>_. Exhibitor_Start H api task)))
                  (Exhibitor_fillTaskContext a) context w of
             (Ok _, context', w') \<Rightarrow> or_blocked (AwaitZookeeperRunning H api w') context' w'
           | (r, context', w') \<Rightarrow> (r, context', w'))
      | Err e \<Rightarrow> (Err e, context, w)
      | Panic e \<Rightarrow> (Panic e, context, w))"

section \<open>Elasticsearch\<close>

record ElasticsearchTaskRunner =
  awaitTimeout :: int
  backoffTimeout :: int

definition NewElasticsearchTaskRunner :: "int \<Rightarrow> int \<Rightarrow> ElasticsearchTaskRunner" where
  "NewElasticsearchTaskRunner await backoff = \<lparr>awaitTimeout = await, backoffTimeout = backoff\<rparr>"

definition GetTasks :: "'w http_api \<Rightarrow> string \<Rightarrow> ('w, ElasticsearchTask option list) call" where
  "GetTasks H api =
     get_checked H (\<lambda>response. and_then (snd response) (unmarshal_tasks H)) (api @ ''/v1/tasks'')"

fun tasks_running :: "ElasticsearchTask option list \<Rightarrow> bool result" where
  "tasks_running [] = Ok True"
| "tasks_running (p # ps) =
     and_then (deref p) (\<lambda>task.
       if el_State task \<noteq> TaskState_String TASK_RUNNING then Ok False else tasks_running ps)"

text \<open>\<open>started\<close> is the time at which the ticker was made; its channel is ready once the
  timeout has passed.\<close>

definition elastic_poll ::
    "'w http_api \<Rightarrow> string \<Rightarrow> int \<Rightarrow> int \<Rightarrow> int \<Rightarrow> 'w \<Rightarrow> unit result option \<times> 'w" where
  "elastic_poll H api await backoff started w =
     (if now H w \<ge> started + await
      then (Some (Err (''Failed to await for running Elasticsearch tasks after '' @
              show_duration H await)), w)
      else (case GetTasks H api w of
              (Ok found, w') \<Rightarrow>
                if found = [] then (None, sleep H backoff w')
                else (case tasks_running found of
                        Ok True \<Rightarrow> (Some (Ok ()), w')
                      | Ok False \<Rightarrow> (None, sleep H backoff w')
                      | Err e \<Rightarrow> (Some (Err e), w')
                      | Panic e \<Rightarrow> (Some (Panic e), w'))
            | (Err e, w') \<Rightarrow> (None, sleep H backoff w')
            | (Panic e, w') \<Rightarrow> (Some (Panic e), w')))"

definition AwaitRunning ::
    "'w http_api \<Rightarrow> string \<Rightarrow> int \<Rightarrow> int \<Rightarrow> 'w \<Rightarrow> (unit result \<times> 'w) option" where
  "AwaitRunning H api await backoff w =
     (if await \<le> 0 then Some (Panic ''non-positive interval for NewTicker'', w)
      else poll_loop (elastic_poll H api await backoff (now H w)) w)"

fun fill_addresses ::
    "Application \<Rightarrow> nat \<Rightarrow> ElasticsearchTask option list \<Rightarrow> Variables \<Rightarrow> unit result \<times> Variables" where
  "fill_addresses a idx [] context = (Ok (), context)"
| "fill_addresses a idx (p # ps) context =
     (case deref p of
        Ok task \<Rightarrow>
          fill_addresses a (Suc idx) ps
            (SetStackVariable (ID a @ ''.'' @ show_nat idx @ ''.transportAddress'') (el_TransportAddress task)
              (SetStackVariable (ID a @ ''.'' @ show_nat idx @ ''.httpAddress'') (el_HttpAddress task) context))
      | Err e \<Rightarrow> (Err e, context)
      | Panic e \<Rightarrow> (Panic e, context))"

definition Elasticsearch_FillContext ::
    "'w http_api \<Rightarrow> ElasticsearchTaskRunner \<Rightarrow> Variables \<Rightarrow> Application \<Rightarrow> marathon_Task \<Rightarrow> 'w
     \<Rightarrow> unit result \<times> Variables \<times> 'w" where
  "Elasticsearch_FillContext H etr context a task w =
     (case endpoint task of
        Ok api \<Rightarrow>
          (let context' = SetStackVariable (ID a @ ''.api'') api (fill_ports context a task)
           in case or_blocked (AwaitRunning H api (awaitTimeout etr) (backoffTimeout etr) w) context' w of
                (Ok _, _, w') \<Rightarrow> call_context (GetTasks H api) (fill_addresses a 0) context' w'
              | r \<Rightarrow> r)
      | Err e \<Rightarrow> (Err e, fill_ports context a task, w)
      | Panic e \<Rightarrow> (Panic e, fill_ports context a task, w))"

definition Elasticsearch_RunTask ::
    "Variables \<Rightarrow> Application \<Rightarrow> (string \<times> string) list \<Rightarrow> 'w \<Rightarrow> unit result \<times> Variables \<times> 'w" where
  "Elasticsearch_RunTask context a task w =
     (Err ''Elasticsearch task runner does not support running tasks.'', context, w)"

section \<open>The registry\<close>

definition taskRunners :: "'w http_api \<Rightarrow> string \<Rightarrow> 'w TaskRunner option" where
  "taskRunners H = map_of
     [(''kafka-mesos-0.9.x'', \<lparr>FillContext = Kafka_FillContext, RunTask = Kafka_RunTask H\<rparr>),
      (''exhibitor-mesos-0.1.x'', \<lparr>FillContext = Exhibitor_FillContext, RunTask = Exhibitor_RunTask H\<rparr>),
      (''dse-mesos-0.1.x'', \<lparr>FillContext = DSE_FillContext, RunTask = DSE_RunTask H\<rparr>),
      (''dse-mesos-0.2.x'', \<lparr>FillContext = DSE02x_FillContext, RunTask = DSE02x_RunTask H\<rparr>),
      (''statsd-mesos-0.1.x'', \<lparr>FillContext = Statsd_FillContext, RunTask = Statsd_RunTask H\<rparr>),
      (''syslog-mesos-0.1.x'', \<lparr>FillContext = Syslog_FillContext, RunTask = Syslog_RunTask H\<rparr>),
      (''zipkin-mesos-0.1.x'', \<lparr>FillContext = Zipkin_FillContext, RunTask = Zipkin_RunTask H\<rparr>),
      (''go-kafka-client-mesos-0.3.x'', \<lparr>FillContext = GoKafka_FillContext, RunTask = GoKafka_RunTask H\<rparr>),
      (''elasticsearch'',
        \<lparr>FillContext = Elasticsearch_FillContext H (NewElasticsearchTaskRunner 300000000000 2000000000),
         RunTask = Elasticsearch_RunTask\<rparr>)]"

section \<open>When polling returns\<close>

text \<open>The state of the world before the \<open>n\<close>-th iteration.\<close>

fun before_poll :: "('w \<Rightarrow> 'a result option \<times> 'w) \<Rightarrow> nat \<Rightarrow> 'w \<Rightarrow> 'w" where
  "before_poll poll 0 w = w"
| "before_poll poll (Suc n) w = before_poll poll n (snd (poll w))"

lemma poll_loop_step: "poll w = (None, w') \<Longrightarrow> poll_loop poll w = poll_loop poll w'"
  by (subst poll_loop.simps) simp

lemma poll_loop_stop: "poll w = (Some r, w') \<Longrightarrow> poll_loop poll w = Some (r, w')"
  by (subst poll_loop.simps) simp

definition polls_to :: "('w \<Rightarrow> 'a result option \<times> 'w) \<Rightarrow> 'w \<Rightarrow> nat \<Rightarrow> 'a result \<times> 'w \<Rightarrow> bool" where
  "polls_to poll w n y \<longleftrightarrow>
     (\<forall>i < n. fst (poll (before_poll poll i w)) = None) \<and>
     poll (before_poll poll n w) = (Some (fst y), snd y)"

lemma polls_to_returns: "polls_to poll w n y \<Longrightarrow> poll_loop poll w = Some y"
proof (induction n arbitrary: w)
  case 0
  then show ?case by (simp add: polls_to_def poll_loop_stop)
next
  case (Suc n)
  let ?w = "snd (poll w)"
  from Suc.prems have first: "poll w = (None, ?w)"
    by (metis before_poll.simps(1) polls_to_def prod.collapse zero_less_Suc)
  have "polls_to poll ?w n y"
    using Suc.prems unfolding polls_to_def by (metis Suc_less_eq before_poll.simps(2))
  from Suc.IH [OF this] show ?case using poll_loop_step [of poll w ?w] first by simp
qed

lemma poll_loop_returns:
  assumes ret: "poll_loop poll w = Some y"
  shows "\<exists>n. polls_to poll w n y"
proof (rule poll_loop.raw_induct [where P = "\<lambda>poll w y. \<exists>n. polls_to poll w n y", OF _ ret])
  fix f poll w y
  assume IH: "\<And>poll w y. f poll w = Some y \<Longrightarrow> \<exists>n. polls_to poll w n y"
    and eq: "(case poll w of (None, w') \<Rightarrow> f poll w' | (Some r, w') \<Rightarrow> Some (r, w')) = Some y"
  show "\<exists>n. polls_to poll w n y"
  proof (cases "poll w")
    case (Pair out w')
    show ?thesis
    proof (cases out)
      case (Some r)
      with Pair eq have "polls_to poll w 0 y" by (auto simp: polls_to_def)
      then show ?thesis ..
    next
      case None
      with Pair eq have "f poll w' = Some y" by simp
      from IH [OF this] obtain n where n: "polls_to poll w' n y" ..
      have "polls_to poll w (Suc n) y"
        using n Pair None unfolding polls_to_def
        by (auto simp: less_Suc_eq_0_disj)
      then show ?thesis ..
    qed
  qed
qed

lemma poll_loop_iff: "poll_loop poll w = Some y \<longleftrightarrow> (\<exists>n. polls_to poll w n y)"
  by (metis polls_to_returns poll_loop_returns)

end
