(* ===== verification/Resolution.thy ===== *)
theory Resolution
  imports ApplicationRun
begin

text \<open>
  What variable resolution (\<open>resolveVariables\<close>, src/framework/application.go) does to
  the strings of an application, for every order in which Go ranges over the context.
  A template is made of literal text and references; the substitution loops turn it into
  the text in which every bound reference is replaced by its value, and the check that
  follows passes exactly when no reference is left.  Literals and values may contain dollar
  signs, as the \<open>$HOST\<close> and \<open>$PORT0\<close> of Marathon, but must not open a reference: a value
  with a reference in it is substituted again, or not, as the range order has it.
\<close>

section \<open>Templates\<close>

datatype piece = Lit string | Ref string

text \<open>Text that opens no reference, whatever follows it: no dollar sign in it is followed
  by an opening brace, and it does not end in one.\<close>

fun calm :: "string \<Rightarrow> bool" where
  "calm [] \<longleftrightarrow> True"
| "calm (c # s) \<longleftrightarrow> (c = CHR ''$'' \<longrightarrow> s \<noteq> [] \<and> hd s \<noteq> CHR ''{'') \<and> calm s"

fun piece_ok :: "piece \<Rightarrow> bool" where
  "piece_ok (Lit s) \<longleftrightarrow> calm s"
| "piece_ok (Ref k) \<longleftrightarrow> CHR ''$'' \<notin> set k \<and> CHR ''}'' \<notin> set k \<and> CHR 0x0A \<notin> set k"

fun render_piece :: "piece \<Rightarrow> string" where
  "render_piece (Lit s) = s"
| "render_piece (Ref k) = reference k"

definition render :: "piece list \<Rightarrow> string" where
  "render ps = concat (map render_piece ps)"

fun bind_piece :: "(string \<Rightarrow> string option) \<Rightarrow> piece \<Rightarrow> piece" where
  "bind_piece m (Lit s) = Lit s"
| "bind_piece m (Ref k) = (case m k of None \<Rightarrow> Ref k | Some v \<Rightarrow> Lit v)"

text \<open>A context whose names have no closing brace and whose values open no reference.\<close>

definition plain_entries :: "(string \<times> string) list \<Rightarrow> bool" where
  "plain_entries kvs \<longleftrightarrow> (\<forall>(k, v) \<in> set kvs. CHR ''}'' \<notin> set k \<and> calm v)"

definition lookup_in :: "Variables \<Rightarrow> string \<Rightarrow> string option" where
  "lookup_in context k = (case Get context k of Ok v \<Rightarrow> Some v | _ \<Rightarrow> None)"

text \<open>All strings that resolution touches, in a fixed order.\<close>

definition task_strings :: "yaml \<times> yaml \<Rightarrow> string list" where
  "task_strings t = (case snd t of YMap items \<Rightarrow> map (\<lambda>kx. Sprint (snd kx)) items | _ \<Rightarrow> [])"

definition plain_strings :: "Application \<Rightarrow> string list" where
  "plain_strings a =
     LaunchCommand a # map snd (entries (Env a)) @ map snd (entries (Scheduler a)) @
     Args a @ concat (map task_strings (Tasks a))"

definition command_lists :: "Application \<Rightarrow> string list list" where
  "command_lists a =
     [BeforeScheduler a, AfterScheduler a, BeforeTask a, AfterTask a, AfterTasks a]"

definition arranges :: "range_order \<Rightarrow> bool" where
  "arranges ord \<longleftrightarrow> (\<forall>p xs. mset (ord p xs) = mset xs)"

section \<open>One substitution\<close>

lemma render_simps [simp]:
  "render [] = []"
  "render (p # ps) = render_piece p @ render ps"
  by (simp_all add: render_def)

lemma calm_no_dollar: "CHR ''$'' \<notin> set s \<Longrightarrow> calm s"
  by (induction s) auto

lemma prefix_reference_hd: "prefix (reference k) (c # s) \<Longrightarrow> c = CHR ''$'' \<and> s \<noteq> [] \<and> hd s = CHR ''{''"
  by (cases s) (auto simp: reference_def)

lemma Replace_calm:
  "calm s \<Longrightarrow> Replace (s @ t) (reference k) v = s @ Replace t (reference k) v"
proof (induction s)
  case (Cons c s)
  then have "\<not> prefix (reference k) (c # s @ t)"
    using prefix_reference_hd [of k c "s @ t"] by (cases s) auto
  with Cons show ?case by simp
qed simp

lemma prefix_brace:
  "CHR ''}'' \<notin> set k \<Longrightarrow> CHR ''}'' \<notin> set r \<Longrightarrow>
     prefix (k @ ''}'') (r @ CHR ''}'' # t) \<longleftrightarrow> k = r"
proof (induction k arbitrary: r)
  case Nil
  then show ?case by (cases r) auto
next
  case (Cons c k)
  then show ?case by (cases r) auto
qed

lemma prefix_reference:
  assumes "CHR ''}'' \<notin> set k" and "CHR ''}'' \<notin> set r"
  shows "prefix (reference k) (reference r @ t) \<longleftrightarrow> k = r"
  using prefix_brace [OF assms, of t] by (simp add: reference_def)

lemma Replace_reference:
  assumes "CHR ''}'' \<notin> set k" and "CHR ''}'' \<notin> set r" and "CHR ''$'' \<notin> set r"
  shows "Replace (reference r @ t) (reference k) v =
    (if r = k then v else reference r) @ Replace t (reference k) v"
proof -
  have p: "prefix (reference k) (reference r @ t) \<longleftrightarrow> r = k"
    using prefix_reference [OF assms(1,2)] by auto
  have e: "reference r @ t = CHR ''$'' # ((CHR ''{'' # r @ ''}'') @ t)"
    by (simp add: reference_def)
  have ne: "reference k \<noteq> []" by (simp add: reference_def)
  show ?thesis
  proof (cases "r = k")
    case True
    have "Replace (reference r @ t) (reference k) v =
        v @ Replace (drop (length (reference k)) (reference r @ t)) (reference k) v"
      using p True ne unfolding e by simp
    with True show ?thesis by simp
  next
    case False
    have "Replace (reference r @ t) (reference k) v =
        CHR ''$'' # Replace ((CHR ''{'' # r @ ''}'') @ t) (reference k) v"
      using p False unfolding e by simp
    also have "\<dots> = CHR ''$'' # (CHR ''{'' # r @ ''}'') @ Replace t (reference k) v"
      using assms(3) by (subst Replace_calm) (auto intro!: calm_no_dollar)
    finally show ?thesis using False by (simp add: reference_def)
  qed
qed

lemma substitute_render:
  assumes "list_all piece_ok ps" and "CHR ''}'' \<notin> set k"
  shows "substitute (k, v) (render ps) = render (map (bind_piece [k \<mapsto> v]) ps)"
  using assms
proof (induction ps)
  case Nil
  then show ?case by (simp add: substitute_def)
next
  case (Cons p ps)
  then show ?case
    by (cases p) (auto simp: substitute_def Replace_calm Replace_reference)
qed

section \<open>A sequence of substitutions\<close>

lemma bind_nothing: "map (bind_piece Map.empty) ps = ps"
  by (rule map_idI) (metis bind_piece.elims option.simps(4))

lemma bind_piece_ok:
  "piece_ok p \<Longrightarrow> (\<And>k v. m k = Some v \<Longrightarrow> calm v) \<Longrightarrow> piece_ok (bind_piece m p)"
  by (cases p) (auto split: option.splits)

lemma fold_substitute_render:
  assumes "list_all piece_ok ps" and "plain_entries kvs"
  shows "\<exists>m. fold substitute kvs (render ps) = render (map (bind_piece m) ps) \<and>
    (\<forall>k v. m k = Some v \<longrightarrow> (k, v) \<in> set kvs) \<and> (\<forall>k. m k = None \<longrightarrow> k \<notin> fst ` set kvs)"
  using assms
proof (induction kvs arbitrary: ps)
  case Nil
  show ?case by (intro exI [of _ Map.empty]) (simp add: bind_nothing)
next
  case (Cons kv kvs)
  obtain k v where kv: "kv = (k, v)" by (cases kv)
  from Cons.prems kv have k: "CHR ''}'' \<notin> set k" and v: "calm v"
    and rest: "plain_entries kvs" by (auto simp: plain_entries_def)
  let ?qs = "map (bind_piece [k \<mapsto> v]) ps"
  have ok: "list_all piece_ok ?qs"
    using Cons.prems(1) v by (auto simp: list_all_iff intro!: bind_piece_ok split: if_splits)
  from Cons.IH [OF ok rest] obtain m where
    m: "fold substitute kvs (render ?qs) = render (map (bind_piece m) ?qs)"
    and s: "\<forall>k v. m k = Some v \<longrightarrow> (k, v) \<in> set kvs"
    and n: "\<forall>k. m k = None \<longrightarrow> k \<notin> fst ` set kvs" by blast
  let ?m = "m(k \<mapsto> v)"
  have "bind_piece m (bind_piece [k \<mapsto> v] p) = bind_piece ?m p" for p
    by (cases p) auto
  then have eq: "map (bind_piece m) ?qs = map (bind_piece ?m) ps" by simp
  have "fold substitute (kv # kvs) (render ps) = render (map (bind_piece ?m) ps)"
    using m unfolding eq by (simp add: kv substitute_render [OF Cons.prems(1) k])
  moreover have "\<forall>k' x. ?m k' = Some x \<longrightarrow> (k', x) \<in> set (kv # kvs)"
    using s by (auto simp: kv)
  moreover have "\<forall>k'. ?m k' = None \<longrightarrow> k' \<notin> fst ` set (kv # kvs)"
    using n by (auto simp: kv)
  ultimately show ?case by blast
qed

text \<open>With one value per name the outcome depends on the set of entries only: the
  order and the repetitions of the loops do not matter.\<close>

lemma fold_substitute_all:
  assumes "list_all piece_ok ps" and "plain_entries kvs" and "set kvs = set es"
    and "distinct (map fst es)"
  shows "fold substitute kvs (render ps) = render (map (bind_piece (map_of es)) ps)"
proof -
  from fold_substitute_render [OF assms(1,2)] obtain m where
    m: "fold substitute kvs (render ps) = render (map (bind_piece m) ps)"
    and s: "\<forall>k v. m k = Some v \<longrightarrow> (k, v) \<in> set kvs"
    and n: "\<forall>k. m k = None \<longrightarrow> k \<notin> fst ` set kvs" by blast
  have "m k = map_of es k" for k
  proof (cases "m k")
    case None
    with n assms(3) show ?thesis by (metis map_of_eq_None_iff)
  next
    case (Some v)
    with s assms(3,4) show ?thesis by simp
  qed
  then have "m = map_of es" by auto
  with m show ?thesis by simp
qed

section \<open>The loops over the application\<close>

lemma resolveCmdVariables_map:
  "resolveCmdVariables kvs cmds = map (fold substitute kvs) cmds"
  unfolding resolveCmdVariables_def
  by (induction kvs arbitrary: cmds) (simp_all add: comp_def)

lemma resolve_task_strings:
  "resolve_task kv t = Ok t' \<Longrightarrow> task_strings t' = map (substitute kv) (task_strings t)"
  by (cases "(kv, t)" rule: resolve_task.cases)
     (auto simp: task_strings_def split: prod.splits)

lemma resolve_tasks_strings:
  "resolve_tasks kv ts = Ok ts' \<Longrightarrow>
     concat (map task_strings ts') = map (substitute kv) (concat (map task_strings ts))"
  by (induction ts arbitrary: ts')
     (auto simp: and_then_Ok_iff map_result_Ok_iff resolve_task_strings)

lemma map_snd_update [simp]:
  "map snd (entries (map_option (map (\<lambda>(k, x). (k, f x))) m)) = map f (map snd (entries m))"
  by (cases m) (auto simp: comp_def split: prod.splits)

lemma resolve_pass_Ok:
  assumes "resolve_pass inner kv a = Ok a'"
  shows "plain_strings a' = map (substitute kv) (plain_strings a)"
    and "command_lists a' = map2 (\<lambda>j. map (fold substitute (inner j))) [0..<5] (command_lists a)"
proof -
  from assms obtain ts where ts: "resolve_tasks kv (Tasks a) = Ok ts"
    and a': "a' = a\<lparr>LaunchCommand := substitute kv (LaunchCommand a),
         Env := map_option (map (\<lambda>(k, x). (k, substitute kv x))) (Env a),
         Scheduler := map_option (map (\<lambda>(k, x). (k, substitute kv x))) (Scheduler a),
         Args := map (substitute kv) (Args a),
         Tasks := ts,
         BeforeScheduler := resolveCmdVariables (inner 0) (BeforeScheduler a),
         AfterScheduler := resolveCmdVariables (inner 1) (AfterScheduler a),
         BeforeTask := resolveCmdVariables (inner 2) (BeforeTask a),
         AfterTask := resolveCmdVariables (inner 3) (AfterTask a),
         AfterTasks := resolveCmdVariables (inner 4) (AfterTasks a)\<rparr>"
    by (auto simp: resolve_pass_def map_result_Ok_iff)
  show "plain_strings a' = map (substitute kv) (plain_strings a)"
    by (simp add: a' plain_strings_def resolve_tasks_strings [OF ts])
  show "command_lists a' = map2 (\<lambda>j. map (fold substitute (inner j))) [0..<5] (command_lists a)"
    by (simp add: a' command_lists_def resolveCmdVariables_map upt_conv_Cons eval_nat_numeral)
qed

lemma length_command_lists [simp]: "length (command_lists a) = 5"
  by (simp add: command_lists_def)

lemma resolve_loop_Ok:
  assumes "resolve_loop inner i kvs a = Ok a'"
  shows "plain_strings a' = map (fold substitute kvs) (plain_strings a) \<and>
    command_lists a' =
      map2 (\<lambda>j. map (fold substitute (concat (map (\<lambda>n. inner n j) [i..<i + length kvs]))))
        [0..<5] (command_lists a)"
  using assms
proof (induction kvs arbitrary: i a)
  case Nil
  then show ?case
    by (auto intro!: nth_equalityI)
next
  case (Cons kv kvs)
  then obtain b where b: "resolve_pass (inner i) kv a = Ok b"
    and r: "resolve_loop inner (Suc i) kvs b = Ok a'"
    by (auto simp: and_then_Ok_iff)
  note IH = Cons.IH [OF r]
  have split: "[i..<i + length (kv # kvs)] = i # [Suc i..<Suc i + length kvs]"
    by (simp add: upt_conv_Cons del: upt_Suc)
  have "command_lists a' =
      map2 (\<lambda>j. map (fold substitute (concat (map (\<lambda>n. inner n j) [i..<i + length (kv # kvs)]))))
        [0..<5] (command_lists a)"
    unfolding conjunct2 [OF IH] resolve_pass_Ok(2) [OF b] split
    by (rule nth_equalityI) (simp_all add: comp_def)
  moreover have "plain_strings a' = map (fold substitute (kv # kvs)) (plain_strings a)"
    unfolding conjunct1 [OF IH] resolve_pass_Ok(1) [OF b] by simp
  ultimately show ?case by blast
qed


lemma arranges_set: "arranges ord \<Longrightarrow> set (ord p xs) = set xs"
  unfolding arranges_def by (metis mset_eq_setD)

lemma map_of_All_lookup: "vars_ok ctx \<Longrightarrow> map_of (All ctx) = lookup_in ctx"
  by (rule ext)
     (simp add: lookup_in_def Get_def map_of_All map_add_def split: option.split)

text \<open>Resolution fails only on a task that is neither empty nor a mapping.\<close>

definition task_shape :: "yaml \<times> yaml \<Rightarrow> bool" where
  "task_shape t \<longleftrightarrow> snd t = YNil \<or> (\<exists>items. snd t = YMap items)"

lemma resolve_tasks_total:
  "list_all task_shape ts \<Longrightarrow> \<exists>ts'. resolve_tasks kv ts = Ok ts' \<and> list_all task_shape ts'"
proof (induction ts)
  case Nil
  then show ?case by simp
next
  case (Cons t ts)
  then obtain ts' where "resolve_tasks kv ts = Ok ts'" "list_all task_shape ts'" by auto
  moreover obtain t' where "resolve_task kv t = Ok t'" "task_shape t'"
    using Cons.prems by (cases t) (auto simp: task_shape_def)
  ultimately show ?case by simp
qed

lemma resolve_loop_total:
  "list_all task_shape (Tasks a) \<Longrightarrow> \<exists>a'. resolve_loop inner i kvs a = Ok a'"
proof (induction kvs arbitrary: i a)
  case Nil
  then show ?case by simp
next
  case (Cons kv kvs)
  from resolve_tasks_total [OF Cons.prems, of kv] obtain ts where
    ts: "resolve_tasks kv (Tasks a) = Ok ts" "list_all task_shape ts" by blast
  then obtain b where b: "resolve_pass (inner i) kv a = Ok b" and "Tasks b = ts"
    by (simp add: resolve_pass_def)
  with ts Cons.IH [of b "Suc i"] show ?case by simp
qed

lemma resolveVariables_total:
  "list_all task_shape (Tasks a) \<Longrightarrow> \<exists>a'. resolveVariables ord ctx a = Ok a'"
  unfolding resolveVariables_def by (rule resolve_loop_total)

lemma map2_const_upt_map:
  assumes "length xs = n" and "\<And>j x. x \<in> set xs \<Longrightarrow> f j (h x) = g x"
  shows "map2 f [0..<n] (map h xs) = map g xs"
  using assms by (intro nth_equalityI) auto

lemma resolve_strings_once:
  assumes "resolveVariables ord ctx a = Ok a'" and "arranges ord"
  shows "\<exists>seqs. plain_strings a' = map (fold substitute (ord None (All ctx))) (plain_strings a)
    \<and> command_lists a' = map2 (\<lambda>j. map (fold substitute (seqs j))) [0..<5] (command_lists a)
    \<and> (\<forall>j. set (seqs j) = set (All ctx))"
proof -
  let ?in = "\<lambda>i j. ord (Some (i, j)) (All ctx)"
  let ?n = "length (ord None (All ctx))"
  let ?seqs = "\<lambda>j. concat (map (\<lambda>n. ?in n j) [0..<0 + ?n])"
  have "set (?seqs j) = set (All ctx)" for j
  proof (cases "All ctx = []")
    case True
    then show ?thesis using arranges_set [OF assms(2)] by auto
  next
    case False
    then have "?n > 0" using arranges_set [OF assms(2), of None "All ctx"] by auto
    then show ?thesis using arranges_set [OF assms(2)] by auto
  qed
  with resolve_loop_Ok [OF assms(1) [unfolded resolveVariables_def]]
  show ?thesis by (intro exI [of _ ?seqs]) blast
qed

section \<open>The check for unresolved references\<close>

lemma find_variable_calm: "calm s \<Longrightarrow> find_variable (s @ t) = find_variable t"
proof (induction s)
  case (Cons c s)
  then show ?case by (cases s) (auto simp: Let_def)
qed simp

lemma find_variable_reference:
  assumes "CHR 0x0A \<notin> set r"
  shows "find_variable (reference r @ t) \<noteq> []"
proof -
  have "takeWhile (\<lambda>x. x \<noteq> CHR 0x0A) (r @ CHR ''}'' # t) =
      r @ CHR ''}'' # takeWhile (\<lambda>x. x \<noteq> CHR 0x0A) t"
    using assms by (subst takeWhile_append2) auto
  then show ?thesis by (simp add: reference_def same_line_def)
qed

lemma find_variable_render:
  "list_all piece_ok ps \<Longrightarrow>
     find_variable (render ps) = [] \<longleftrightarrow> (\<forall>k. Ref k \<notin> set ps)"
proof (induction ps)
  case Nil
  then show ?case by simp
next
  case (Cons p ps)
  then show ?case
    by (cases p) (auto simp: find_variable_calm find_variable_reference)
qed

lemma ensureString_iff:
  "ensureStringVariableResolved shown s = Ok () \<longleftrightarrow> find_variable s = []"
  by (simp add: ensureStringVariableResolved_def Let_def)

lemma ensure_strings_iff:
  "ensure_strings shown ss = Ok () \<longleftrightarrow> (\<forall>s \<in> set ss. find_variable s = [])"
  by (induction ss) (auto simp: and_then_Ok_iff ensureString_iff)

lemma ensureVariablesResolved_iff:
  "ensureVariablesResolved shown vs = Ok () \<longleftrightarrow>
     (\<forall>v \<in> set vs. ensure_value shown v = Ok ())"
  by (induction vs) (auto simp: and_then_Ok_iff)

lemma resolve_loop_fields:
  "resolve_loop inner i kvs a = Ok a' \<Longrightarrow>
     LaunchCommand a' = fold substitute kvs (LaunchCommand a) \<and>
     map snd (entries (Env a')) = map (fold substitute kvs) (map snd (entries (Env a))) \<and>
     map snd (entries (Scheduler a')) =
       map (fold substitute kvs) (map snd (entries (Scheduler a))) \<and>
     Args a' = map (fold substitute kvs) (Args a)"
proof (induction kvs arbitrary: i a)
  case Nil
  then show ?case by simp
next
  case (Cons kv kvs)
  then obtain b where b: "resolve_pass (inner i) kv a = Ok b"
    and r: "resolve_loop inner (Suc i) kvs b = Ok a'"
    by (auto simp: and_then_Ok_iff)
  from b have "LaunchCommand b = substitute kv (LaunchCommand a)"
    "map snd (entries (Env b)) = map (substitute kv) (map snd (entries (Env a)))"
    "map snd (entries (Scheduler b)) = map (substitute kv) (map snd (entries (Scheduler a)))"
    "Args b = map (substitute kv) (Args a)"
    by (auto simp: resolve_pass_def map_result_Ok_iff simp del: map_map)
  with Cons.IH [OF r] show ?case by (simp add: comp_def)
qed

lemma lookup_in_plain:
  "vars_ok ctx \<Longrightarrow> plain_entries (All ctx) \<Longrightarrow> lookup_in ctx k = Some v \<Longrightarrow> calm v"
  by (auto simp: plain_entries_def map_of_All_lookup [symmetric])

lemma bind_piece_Ref: "Ref k = bind_piece m p \<longleftrightarrow> p = Ref k \<and> m k = None"
  by (cases p) (auto split: option.splits)

lemma lookup_in_None: "lookup_in ctx k = None \<longleftrightarrow> (\<nexists>v. Get ctx k = Ok v)"
  by (simp add: lookup_in_def split: result.split)

lemma find_variable_bound:
  assumes "vars_ok ctx" and "plain_entries (All ctx)" and "list_all piece_ok p"
  shows "find_variable (render (map (bind_piece (lookup_in ctx)) p)) = [] \<longleftrightarrow>
    (\<forall>k. Ref k \<in> set p \<longrightarrow> (\<exists>v. Get ctx k = Ok v))"
proof -
  have ok: "list_all piece_ok (map (bind_piece (lookup_in ctx)) p)"
    using assms lookup_in_plain by (auto simp: list_all_iff intro!: bind_piece_ok)
  have "Ref k \<in> bind_piece (lookup_in ctx) ` set p \<longleftrightarrow> Ref k \<in> set p \<and> lookup_in ctx k = None"
    for k
    by (auto simp: image_iff bind_piece_Ref)
  with find_variable_render [OF ok] show ?thesis
    by (auto simp: lookup_in_None)
qed

section \<open>Properties\<close>

text \<open>C11: Resolving the variables of an application never fails when its tasks have the
  documented shape, and, if neither the literal text of its strings nor a value of the
  context opens a reference (has a dollar sign before an opening brace, or at its end), gives
  the same result for every order in which Go ranges over the context: each string that was
  written as a template (launch command, environment, scheduler options, arguments, task
  values and the five command lists) has become the template with every bound reference
  replaced by the value that \<open>Get\<close> returns for it. Other dollar signs are allowed.\<close>
theorem resolveVariables_templates:
  assumes "arranges ord" and "vars_ok ctx" and "plain_entries (All ctx)"
    and "list_all task_shape (Tasks a)"
    and "plain_strings a = map render ps" and "list_all (list_all piece_ok) ps"
    and "command_lists a = map (map render) cs"
    and "list_all (list_all (list_all piece_ok)) cs"
  shows "\<exists>a'. resolveVariables ord ctx a = Ok a' \<and>
    plain_strings a' = map (\<lambda>p. render (map (bind_piece (lookup_in ctx)) p)) ps \<and>
    command_lists a' = map (map (\<lambda>p. render (map (bind_piece (lookup_in ctx)) p))) cs"
proof -
  let ?R = "\<lambda>p. render (map (bind_piece (lookup_in ctx)) p)"
  obtain a' where a': "resolveVariables ord ctx a = Ok a'"
    using resolveVariables_total [OF assms(4)] by blast
  from resolve_strings_once [OF a' assms(1)] obtain seqs where
    plain: "plain_strings a' = map (fold substitute (ord None (All ctx))) (plain_strings a)"
    and cmds: "command_lists a' =
        map2 (\<lambda>j. map (fold substitute (seqs j))) [0..<5] (command_lists a)"
    and seqs: "\<And>j. set (seqs j) = set (All ctx)" by blast
  have one: "fold substitute kvs (render p) = ?R p"
    if "list_all piece_ok p" "set kvs = set (All ctx)" for kvs p
    using fold_substitute_all [OF that(1) _ that(2)] assms(3) that(2)
    by (simp add: plain_entries_def map_of_All_lookup [OF assms(2)])
  have "plain_strings a' = map ?R ps"
    using assms(6) unfolding plain assms(5)
    by (simp add: list_all_iff one arranges_set [OF assms(1)])
  moreover have "length cs = 5"
    using assms(7) length_command_lists [of a] by (metis length_map)
  then have "command_lists a' = map (map ?R) cs"
    using assms(8) unfolding cmds assms(7)
    by (intro map2_const_upt_map) (auto simp: list_all_iff one seqs)
  ultimately show ?thesis using a' by blast
qed

definition sample_vars :: Variables where
  "sample_vars = SetStackVariable ''host'' ''10.0.0.1'' NewVariables"

definition sample_app :: Application where
  "sample_app = empty_application
     \<lparr>ID := ''web'', LaunchCommand := ''run ${host}'', Args := [''${port}''],
      Scheduler := Some [(''api'', ''http://$HOST:$PORT0'')], AfterTasks := [''ping ${host}'']\<rparr>"

lemmas sample_defs = sample_vars_def sample_app_def empty_application_def reference_def
  SetStackVariable_def NewVariables_def All_def copy_into_def plain_entries_def vars_ok_def
  plain_strings_def command_lists_def arranges_def lookup_in_def Get_def

theorem resolveVariables_templates_witness:
  "\<exists>a'. resolveVariables (\<lambda>_ xs. xs) sample_vars sample_app = Ok a' \<and>
     plain_strings a' = [''run 10.0.0.1'', ''http://$HOST:$PORT0'', ''${port}''] \<and>
     command_lists a' = [[], [], [], [], [''ping 10.0.0.1'']]"
  using resolveVariables_templates [of "\<lambda>_ xs. xs" sample_vars sample_app
      "[[Lit ''run '', Ref ''host''], [Lit ''http://$HOST:$PORT0''], [Ref ''port'']]"
      "[[], [], [], [], [[Lit ''ping '', Ref ''host'']]]"]
  by (simp add: sample_defs)

text \<open>C12: The check that precedes the launch tells unresolved references: if neither the
  literal text nor a value of the context opens a reference, then after resolution the check
  passes exactly when every reference in the launch command, the scheduler options, the
  arguments, the environment and the before-scheduler commands names a variable of the
  context.\<close>
theorem launch_check_iff_bound:
  assumes "arranges ord" and "vars_ok ctx" and "plain_entries (All ctx)"
    and "resolveVariables ord ctx a = Ok a'"
    and "LaunchCommand a = render lc" and "map snd (entries (Env a)) = map render ev"
    and "map snd (entries (Scheduler a)) = map render sc" and "Args a = map render ar"
    and "BeforeScheduler a = map render bs"
    and "list_all (list_all piece_ok) (lc # bs @ sc @ ar @ ev)"
  shows "ensureVariablesResolved shown
      [StringsValue (BeforeScheduler a'), StringValue (LaunchCommand a'),
       MapValue (Scheduler a'), StringsValue (Args a'), MapValue (Env a')] = Ok () \<longleftrightarrow>
    (\<forall>p \<in> set (lc # bs @ sc @ ar @ ev). \<forall>k. Ref k \<in> set p \<longrightarrow> (\<exists>v. Get ctx k = Ok v))"
proof -
  let ?R = "\<lambda>p. render (map (bind_piece (lookup_in ctx)) p)"
  have one: "fold substitute kvs (render p) = ?R p"
    if "list_all piece_ok p" "set kvs = set (All ctx)" for kvs p
    using fold_substitute_all [OF that(1) _ that(2)] assms(3) that(2)
    by (simp add: plain_entries_def map_of_All_lookup [OF assms(2)])
  note fields = resolve_loop_fields [OF assms(4) [unfolded resolveVariables_def]]
  from resolve_strings_once [OF assms(4,1)] obtain seqs where
    cmds: "command_lists a' =
        map2 (\<lambda>j. map (fold substitute (seqs j))) [0..<5] (command_lists a)"
    and seqs: "\<And>j. set (seqs j) = set (All ctx)" by blast
  have ok: "list_all piece_ok p" if "p \<in> set (lc # bs @ sc @ ar @ ev)" for p
    using assms(10) that by (auto simp: list_all_iff)
  have "BeforeScheduler a' = map (fold substitute (seqs 0)) (BeforeScheduler a)"
    using arg_cong [OF cmds, of hd] by (simp add: command_lists_def upt_conv_Cons)
  then have "BeforeScheduler a' = map ?R bs"
    using ok by (simp add: assms(9) one seqs)
  moreover have "LaunchCommand a' = ?R lc" "map snd (entries (Env a')) = map ?R ev"
    "map snd (entries (Scheduler a')) = map ?R sc" "Args a' = map ?R ar"
    using fields ok by (simp_all add: assms(5-8) one arranges_set [OF assms(1)])
  ultimately have "ensureVariablesResolved shown
      [StringsValue (BeforeScheduler a'), StringValue (LaunchCommand a'),
       MapValue (Scheduler a'), StringsValue (Args a'), MapValue (Env a')] = Ok () \<longleftrightarrow>
    (\<forall>p \<in> set (lc # bs @ sc @ ar @ ev). find_variable (?R p) = [])"
    by (auto simp: and_then_Ok_iff ensure_strings_iff ensureString_iff)
  then show ?thesis
    using find_variable_bound [OF assms(2,3) ok] by simp
qed

theorem launch_check_iff_bound_witness:
  "\<exists>a'. resolveVariables (\<lambda>_ xs. xs) sample_vars sample_app = Ok a' \<and>
     ensureVariablesResolved []
       [StringsValue (BeforeScheduler a'), StringValue (LaunchCommand a'),
        MapValue (Scheduler a'), StringsValue (Args a'), MapValue (Env a')] \<noteq> Ok ()"
proof -
  obtain a' where a': "resolveVariables (\<lambda>_ xs. xs) sample_vars sample_app = Ok a'"
    using resolveVariables_total [of sample_app] by (auto simp: sample_app_def empty_application_def)
  with launch_check_iff_bound [of "\<lambda>_ xs. xs" sample_vars sample_app a'
      "[Lit ''run '', Ref ''host'']" "[]" "[[Lit ''http://$HOST:$PORT0'']]" "[[Ref ''port'']]" "[]"]
  show ?thesis by (simp add: sample_defs)
qed

section \<open>References in values\<close>

text \<open>A value that is itself a reference is resolved in one range order and left in another:
  the launch command of the same application with the same context comes out differently.\<close>
theorem nested_values_depend_on_order:
  "\<exists>a a'. resolveVariables (\<lambda>_ xs. xs)
       (SetStackVariable ''b'' ''x'' (SetStackVariable ''a'' ''${b}'' NewVariables))
       (empty_application\<lparr>LaunchCommand := ''${a}''\<rparr>) = Ok a \<and> LaunchCommand a = ''x'' \<and>
     resolveVariables (\<lambda>_ xs. rev xs)
       (SetStackVariable ''b'' ''x'' (SetStackVariable ''a'' ''${b}'' NewVariables))
       (empty_application\<lparr>LaunchCommand := ''${a}''\<rparr>) = Ok a' \<and> LaunchCommand a' = ''${b}''"
  by (simp add: resolveVariables_def resolve_pass_def sample_defs resolveCmdVariables_def substitute_def)

end
