(* ===== verification/Deployment.thy ===== *)
theory Deployment
  imports Resolution
begin

text \<open>
  What the deployment of one application guarantees (src/framework/application.go): the
  number of instances it asks for, the wait for a running and healthy task, and the
  checks in front of each effect.
\<close>

section \<open>Instances\<close>

lemma otherSlavesAttributes_all:
  "\<forall>s \<in> set slaves. Attribute s name \<noteq> [] \<Longrightarrow>
     otherSlavesAttributes slaves name = map (\<lambda>s. Attribute s name) slaves"
  by (induction slaves) (auto simp: otherSlavesAttributes_def)

lemma matching_slaves_snoc:
  "matching_slaves rx cs (slaves @ [s]) =
     (let chosen = matching_slaves rx cs slaves
      in if slaveMatches rx cs s chosen then chosen @ [s] else chosen)"
  by (simp add: matching_slaves_def Let_def)

lemma matching_slaves_subseq: "subseq (matching_slaves rx cs slaves) slaves"
proof (induction slaves rule: rev_induct)
  case Nil
  show ?case by (simp add: matching_slaves_def)
next
  case (snoc s slaves)
  then show ?case
    by (auto simp: matching_slaves_snoc Let_def intro: list_emb_append_mono
        subseq_order.order_trans [OF _ prefix_imp_subseq])
qed

lemma matching_slaves_attribute:
  assumes "(name, cons) \<in> set cs" and "s \<in> set (matching_slaves rx cs slaves)"
  shows "Attribute s name \<noteq> []"
  using assms(2)
proof (induction slaves rule: rev_induct)
  case Nil
  then show ?case by (simp add: matching_slaves_def)
next
  case (snoc t slaves)
  with assms(1) show ?case
    by (fastforce simp: matching_slaves_snoc Let_def slaveMatches_def list_all_iff
        split: if_splits)
qed

lemma matching_slaves_placement:
  assumes "(name, cons) \<in> set cs" and "c \<in> set cons"
  shows "placement rx c (map (\<lambda>s. Attribute s name) (matching_slaves rx cs slaves))"
proof (induction slaves rule: rev_induct)
  case Nil
  show ?case by (simp add: matching_slaves_def none_placed)
next
  case (snoc s slaves)
  let ?chosen = "matching_slaves rx cs slaves"
  have others: "otherSlavesAttributes ?chosen name = map (\<lambda>s. Attribute s name) ?chosen"
    using matching_slaves_attribute [OF assms(1)] by (intro otherSlavesAttributes_all) blast
  show ?case
  proof (cases "slaveMatches rx cs s ?chosen")
    case True
    with assms others have "Matches rx c (Attribute s name) (map (\<lambda>s. Attribute s name) ?chosen)"
      by (fastforce simp: slaveMatches_def list_all_iff Let_def)
    with snoc True show ?thesis by (simp add: matching_slaves_snoc placement_snocI)
  next
    case False
    with snoc show ?thesis by (simp add: matching_slaves_snoc)
  qed
qed

lemma parse_loop_keeps:
  "parse_loop rx raws acc = Ok m \<Longrightarrow> fst ` set acc \<union> hd ` set raws = fst ` set m"
proof (induction raws arbitrary: acc)
  case Nil
  then show ?case by simp
next
  case (Cons raw raws)
  then obtain cs where "parse_loop rx raws (AList.update (hd raw) cs acc) = Ok m"
    by (auto simp: and_then_Ok_iff Let_def split: if_splits)
  from Cons.IH [OF this] show ?case by auto
qed

lemma parse_nonempty:
  assumes "ParseConstraints rx raws = Ok cs" and "raws \<noteq> []"
  shows "mlen cs \<noteq> 0"
proof -
  from assms obtain m where "parse_loop rx raws [] = Ok m" and "cs = Some m"
    by (auto simp: ParseConstraints_def map_result_Ok_iff)
  with parse_loop_keeps [of rx raws "[]" m] assms(2) show ?thesis
    by (auto simp: mlen_def)
qed

section \<open>Waiting\<close>

text \<open>The world before the \<open>n\<close>-th probe, counting from 0.\<close>

fun before_probe :: "'w environment \<Rightarrow> Application \<Rightarrow> 'w \<Rightarrow> nat \<Rightarrow> 'w" where
  "before_probe E a w 0 = w"
| "before_probe E a w (Suc n) = snd (checkRunningAndHealthy E a (before_probe E a w n))"

definition probe :: "'w environment \<Rightarrow> Application \<Rightarrow> 'w \<Rightarrow> nat \<Rightarrow> unit result" where
  "probe E a w n = fst (checkRunningAndHealthy E a (before_probe E a w n))"

lemma before_probe_Suc:
  "before_probe E a w (Suc n) = before_probe E a (snd (checkRunningAndHealthy E a w)) n"
  by (induction n) simp_all

lemma probe_Suc: "probe E a w (Suc n) = probe E a (snd (checkRunningAndHealthy E a w)) n"
  unfolding probe_def before_probe_Suc ..

lemma await_loop_Ok_iff:
  "fst (await_loop E a r n w) = Ok () \<longleftrightarrow>
     (\<exists>i<n. probe E a w i = Ok () \<and> (\<forall>j<i. \<exists>e. probe E a w j = Err e))"
proof (induction n arbitrary: w)
  case 0
  show ?case by simp
next
  case (Suc n)
  obtain r' w' where c: "checkRunningAndHealthy E a w = (r', w')" by fastforce
  have p0: "probe E a w 0 = r'" and ps: "probe E a w (Suc i) = probe E a w' i" for i
    unfolding probe_Suc by (simp_all add: probe_def c)
  show ?case
  proof (cases r')
    case (Ok u)
    then show ?thesis by (simp add: Ex_less_Suc2 c p0 split: unit.split)
  next
    case (Panic e)
    then show ?thesis by (simp add: Ex_less_Suc2 All_less_Suc2 c p0)
  next
    case (Err e)
    have "(\<exists>i<Suc n. probe E a w i = Ok () \<and> (\<forall>j<i. \<exists>e. probe E a w j = Err e)) \<longleftrightarrow>
        (\<exists>i<n. probe E a w' i = Ok () \<and> (\<forall>j<i. \<exists>e. probe E a w' j = Err e))"
      by (simp add: Ex_less_Suc2 All_less_Suc2 ps p0 Err)
    with Suc.IH [of w'] c Err show ?thesis by simp
  qed
qed

lemma probe_Ok_iff:
  "probe E a w i = Ok () \<longleftrightarrow>
     (\<exists>r h. fst (marathon_application E (ID a) (before_probe E a w i)) = Ok (Some (r, h)) \<and>
        r \<noteq> 0 \<and> (Healthcheck a \<noteq> [] \<longrightarrow> h \<noteq> 0))"
  by (auto simp: probe_def checkRunningAndHealthy_def split: prod.split result.split option.split)

section \<open>Properties\<close>

text \<open>C26: A validated application never makes the instance computation panic; the number
  it asks Marathon for is 1 when none is given, the given positive number, or for
  \<open>all\<close> either the number of activated slaves (no constraints) or at most the number of
  known slaves.\<close>
theorem validated_instances:
  assumes "Application_Validate rx runners a = Ok ()"
  shows "\<exists>n. GetInstances rx a mesos = Ok n \<and>
    (Instances a = [] \<longrightarrow> n = 1) \<and>
    (Instances a \<noteq> [] \<and> Instances a \<noteq> ''all'' \<longrightarrow> Atoi (Instances a) = Some n \<and> 1 \<le> n) \<and>
    (Instances a = ''all'' \<and> Constraints a = [] \<longrightarrow> n = GetActivatedSlaves mesos) \<and>
    (Instances a = ''all'' \<and> Constraints a \<noteq> [] \<longrightarrow>
       0 \<le> n \<and> n \<le> int (length (GetSlaves mesos)))"
proof -
  from assms obtain cs where cs: "ParseConstraints rx (Constraints a) = Ok cs"
    by (auto simp: Application_Validate_def map_result_Ok_iff split: if_splits)
  have inst: "Instances a = [] \<or> Instances a = ''all'' \<or>
      (\<exists>n. Atoi (Instances a) = Some n \<and> 1 \<le> n)"
    using assms by (auto simp: Application_Validate_def split: if_splits option.splits)
  have "length (matching_slaves rx (entries cs) (GetSlaves mesos)) \<le> length (GetSlaves mesos)"
    by (rule list_emb_length [OF matching_slaves_subseq])
  moreover have "mlen cs = 0" if "Constraints a = []"
    using cs that by (simp add: ParseConstraints_def mlen_def)
  moreover have "mlen cs \<noteq> 0" if "Constraints a \<noteq> []"
    using parse_nonempty [OF cs that] .
  ultimately show ?thesis
    using inst cs
    by (auto simp: GetInstances_def calculateAllInstances_def GetConstraints_def)
qed

lemma Atoi_3: "Atoi ''3'' = Some 3"
  by code_simp

theorem validated_instances_witness:
  "\<exists>n. GetInstances literal_regexp
       (empty_application\<lparr>Type := ''t'', ID := ''a'', Cpu := Fin 1, Mem := Fin 1, Instances := ''3''\<rparr>)
       (NewMesosClusterState ''m'') = Ok n \<and> Atoi ''3'' = Some n \<and> 1 \<le> n"
  using validated_instances [of literal_regexp "\<lambda>_. False"
      "empty_application\<lparr>Type := ''t'', ID := ''a'', Cpu := Fin 1, Mem := Fin 1,
         Instances := ''3''\<rparr>" "NewMesosClusterState ''m''"] Atoi_3
  by (simp add: Application_Validate_def empty_application_def ParseConstraints_def)

text \<open>C27: For \<open>instances: all\<close> with constraints, the number of instances is the size of a
  selection of the cluster's slaves, in their order, in which every slave has each
  constrained attribute and every constraint accepts the sequence of attribute vals;
  in particular a UNIQUE attribute takes no value twice.\<close>
theorem all_instances_placement:
  assumes "GetConstraints rx a = Ok (Some cs)" and "cs \<noteq> []"
  shows "\<exists>chosen. calculateAllInstances rx a mesos = Ok (int (length chosen)) \<and>
    subseq chosen (GetSlaves mesos) \<and>
    (\<forall>(name, cons) \<in> set cs. (\<forall>s \<in> set chosen. Attribute s name \<noteq> []) \<and>
       (\<forall>c \<in> set cons. placement rx c (map (\<lambda>s. Attribute s name) chosen)) \<and>
       (Unique \<in> set cons \<longrightarrow> distinct (map (\<lambda>s. Attribute s name) chosen)))"
proof (intro exI [of _ "matching_slaves rx cs (GetSlaves mesos)"] conjI)
  let ?chosen = "matching_slaves rx cs (GetSlaves mesos)"
  show "calculateAllInstances rx a mesos = Ok (int (length ?chosen))"
    using assms by (simp add: calculateAllInstances_def mlen_def)
  show "\<forall>(name, cons) \<in> set cs. (\<forall>s \<in> set ?chosen. Attribute s name \<noteq> []) \<and>
       (\<forall>c \<in> set cons. placement rx c (map (\<lambda>s. Attribute s name) ?chosen)) \<and>
       (Unique \<in> set cons \<longrightarrow> distinct (map (\<lambda>s. Attribute s name) ?chosen))"
    using matching_slaves_placement matching_slaves_attribute placement_Unique_iff by fast
qed (rule matching_slaves_subseq)

definition rack_slave :: "string \<Rightarrow> string \<Rightarrow> Slave" where
  "rack_slave host rack =
     \<lparr>Active = True, Attributes = Some [(''rack'', rack)], Hostname = host, SlaveID = host,
      PID = []\<rparr>"

theorem all_instances_placement_witness:
  "\<exists>chosen. calculateAllInstances literal_regexp
       (empty_application\<lparr>Constraints := [[''rack'', ''UNIQUE'']]\<rparr>)
       ((NewMesosClusterState ''m'')\<lparr>Slaves := [rack_slave ''a'' ''r'', rack_slave ''b'' ''r'']\<rparr>) =
         Ok (int (length chosen)) \<and>
     subseq chosen [rack_slave ''a'' ''r'', rack_slave ''b'' ''r''] \<and>
     distinct (map (\<lambda>s. Attribute s ''rack'') chosen)"
  using all_instances_placement [of literal_regexp
      "empty_application\<lparr>Constraints := [[''rack'', ''UNIQUE'']]\<rparr>" "[(''rack'', [Unique])]"
      "(NewMesosClusterState ''m'')\<lparr>Slaves := [rack_slave ''a'' ''r'', rack_slave ''b'' ''r'']\<rparr>"]
  by (auto simp: GetConstraints_def ParseConstraints_def ParseConstraint_def GetSlaves_def
      empty_application_def)

text \<open>Waiting for an application succeeds exactly when one of the first
  \<open>retries + 1\<close> probes of Marathon reports a running task, and a healthy one if the
  application has a health check, while every probe before it came back with an error.\<close>
theorem await_within_retries:
  "fst (awaitRunningAndHealthy E a retries w) = Ok () \<longleftrightarrow>
     (\<exists>i. int i \<le> retries \<and>
        (\<exists>running healthy.
           fst (marathon_application E (ID a) (before_probe E a w i)) = Ok (Some (running, healthy))
           \<and> running \<noteq> 0 \<and> (Healthcheck a \<noteq> [] \<longrightarrow> healthy \<noteq> 0)) \<and>
        (\<forall>j<i. \<exists>e. fst (checkRunningAndHealthy E a (before_probe E a w j)) = Err e))"
proof -
  have "i < nat (retries + 1) \<longleftrightarrow> int i \<le> retries" for i by linarith
  then show ?thesis
    unfolding awaitRunningAndHealthy_def await_loop_Ok_iff probe_Ok_iff by (simp add: probe_def)
qed

text \<open>A Marathon that reports the application as missing twice and then as running, and
  a task runner that records the tasks it is given.\<close>

definition sample_runner :: "(nat \<times> (string \<times> string) list list) TaskRunner" where
  "sample_runner =
     \<lparr>FillContext = (\<lambda>v a t w. (Ok (), v, w)),
      RunTask = (\<lambda>v a m w. (Ok (), v, (fst w, snd w @ [m])))\<rparr>"

definition sample_env :: "(nat \<times> (string \<times> string) list list) environment" where
  "sample_env =
     \<lparr>regexps = literal_regexp,
      shell = (\<lambda>cmds file w. (Ok (), w)),
      marathon_create = (\<lambda>a w. (Ok (), w)),
      marathon_application =
        (\<lambda>i w. (Ok (if fst w < 2 then None else Some (1, 1)), (Suc (fst w), snd w))),
      marathon_tasks = (\<lambda>i w. (Ok (Some [\<lparr>Host = ''h'', TaskPorts = []\<rparr>]), w)),
      mesos_run = (\<lambda>a w. (Ok (), w)),
      mesos_state = (\<lambda>w. NewMesosClusterState ''m''),
      TaskRunners = (\<lambda>t. if t = ''kafka'' then Some sample_runner else None),
      MesosTaskRunners = (\<lambda>t. False),
      show_variables = (\<lambda>v. []),
      arrange = (\<lambda>xs. xs),
      order = (\<lambda>n p xs. xs)\<rparr>"

lemma sample_marathon:
  "marathon_application sample_env i w =
     (Ok (if fst w < 2 then None else Some (1, 1)), (Suc (fst w), snd w))"
  by (simp add: sample_env_def)

theorem await_within_retries_witness:
  "fst (awaitRunningAndHealthy sample_env empty_application 2 (0, [])) = Ok () \<and>
   fst (awaitRunningAndHealthy sample_env empty_application 1 (0, [])) \<noteq> Ok ()"
proof -
  have "before_probe sample_env empty_application (0, []) i = (i, [])" for i
    by (induction i) (auto simp: sample_marathon checkRunningAndHealthy_def)
  then show ?thesis
    unfolding await_within_retries
    by (auto simp: sample_marathon checkRunningAndHealthy_def intro!: exI [of _ 2])
qed

section \<open>The whole run\<close>

lemma is_ok_unit: "is_ok (r :: unit result) \<longleftrightarrow> r = Ok ()"
  by (cases r) auto

lemma ensureString_no_panic: "\<not> is_panic (ensureStringVariableResolved shown x)"
  by (simp add: ensureStringVariableResolved_def Let_def)

lemma ensure_strings_no_panic: "\<not> is_panic (ensure_strings shown xs)"
proof (induction xs)
  case (Cons x xs)
  with ensureString_no_panic [of shown x] show ?case
    by (cases "ensureStringVariableResolved shown x") auto
qed simp

lemma ensure_yaml_no_panic:
  "\<not> is_panic (ensure_yaml shown y)"
  "\<not> is_panic (ensure_items shown ys)"
proof (induction shown y and shown ys rule: ensure_yaml_ensure_items.induct)
  case (5 shown kv kvs)
  then show ?case by (cases "ensure_yaml shown (snd kv)") auto
qed (simp_all add: ensureString_no_panic)

lemma ensure_value_no_panic: "\<not> is_panic (ensure_value shown v)"
  by (cases v) (simp_all add: ensureString_no_panic ensure_strings_no_panic ensure_yaml_no_panic)

lemma ensureVariablesResolved_Err:
  assumes "v \<in> set vs" and "\<not> is_ok (ensure_value shown v)"
  shows "\<exists>e. ensureVariablesResolved shown vs = Err e"
  using assms(1)
proof (induction vs)
  case Nil
  then show ?case by simp
next
  case (Cons u vs)
  with assms(2) ensure_value_no_panic [of shown u] show ?case
    by (cases "ensure_value shown u") auto
qed

lemma sequence_Ok_Cons:
  "sequence (f # fs) s = (Ok (), s') \<longleftrightarrow> (\<exists>t. f s = (Ok (), t) \<and> sequence fs t = (Ok (), s'))"
  by (auto split: prod.split result.split unit.split)

lemma sequence_Err_Cons: "f s = (Err e, t) \<Longrightarrow> sequence (f # fs) s = (Err e, t)"
  by simp

lemma ensure_fails:
  assumes "v \<in> set (vals (app s))" and "\<not> is_ok (ensure_value (show_variables E (vars s)) v)"
  shows "\<exists>e. ensure E vals s = (Err e, s)"
  using ensureVariablesResolved_Err [OF assms] by (auto simp: ensure_def)

lemma launch_marathon_Ok:
  assumes "\<not> MesosTaskRunners E (Type (app s))" and "launch E maxWait s = (Ok (), s')"
  shows "\<exists>m w. createApplication (regexps E) (arrange E) (vars s) (mesos_state E (world s)) (app s) = Ok m
    \<and> marathon_create E m (world s) = (Ok (), w)
    \<and> fst (awaitRunningAndHealthy E (app s) maxWait w) = Ok ()"
  using assms
  by (auto simp: launch_def runMarathon_def split: result.splits prod.splits unit.splits)

text \<open>C13: An application with an unresolved reference in its launch command, its
  arguments, its environment, its scheduler options or its before-scheduler commands
  is never started: \<open>Run\<close> returns an error and has not touched the world (no command,
  no Marathon or Mesos request, no task). References in the parameters of tasks are not
  checked by the code and not covered.\<close>
theorem unresolved_never_launched:
  assumes "resolveVariables (order E 0) (vars s) (app s) = Ok a'"
    and "x \<in> set (LaunchCommand a' # BeforeScheduler a' @ Args a' @
                 map snd (entries (Env a')) @ map snd (entries (Scheduler a')))"
    and "find_variable x \<noteq> []"
  shows "\<exists>e. Application_Run E maxWait s = (Err e, s\<lparr>app := a'\<rparr>)"
proof -
  let ?vals = "\<lambda>a. [StringsValue (BeforeScheduler a), StringValue (LaunchCommand a),
                      MapValue (Scheduler a), StringsValue (Args a), MapValue (Env a)]"
  from assms(2,3) have
    "\<exists>v \<in> set (?vals a'). \<not> is_ok (ensure_value (show_variables E (vars s)) v)"
    by (auto simp: is_ok_unit ensure_strings_iff ensureString_iff)
  then obtain v where "v \<in> set (?vals a')"
    and "\<not> is_ok (ensure_value (show_variables E (vars s)) v)" ..
  then obtain e where "ensure E ?vals (s\<lparr>app := a'\<rparr>) = (Err e, s\<lparr>app := a'\<rparr>)"
    using ensure_fails [of v ?vals "s\<lparr>app := a'\<rparr>" E] by auto
  with assms(1) show ?thesis
    by (simp add: Application_Run_def run_steps_def resolve_def)
qed

definition sample_run :: "Application \<Rightarrow> (nat \<times> (string \<times> string) list list) deployment" where
  "sample_run a = \<lparr>app = a, vars = sample_vars, world = (0, [])\<rparr>"

theorem unresolved_never_launched_witness:
  "\<exists>a' e. Application_Run sample_env 5 (sample_run sample_app) =
     (Err e, (sample_run sample_app)\<lparr>app := a'\<rparr>)"
proof -
  obtain a' where a': "resolveVariables (\<lambda>_ xs. xs) sample_vars sample_app = Ok a'"
    using resolveVariables_total [of sample_app] by (auto simp: sample_app_def empty_application_def)
  then have "Args a' = [''${port}'']"
    by (auto simp: resolveVariables_def resolve_pass_def sample_defs substitute_def)
  moreover have "find_variable ''${port}'' \<noteq> []" by code_simp
  ultimately show ?thesis
    using unresolved_never_launched [of sample_env "sample_run sample_app" a' "''${port}''" 5] a'
    by (auto simp: sample_run_def sample_env_def)
qed

lemma resolve_loop_frame:
  "resolve_loop inner i kvs a = Ok a' \<Longrightarrow>
     ID a' = ID a \<and> Type a' = Type a \<and> Healthcheck a' = Healthcheck a"
proof (induction kvs arbitrary: i a)
  case Nil
  then show ?case by simp
next
  case (Cons kv kvs)
  then obtain b where b: "resolve_pass (inner i) kv a = Ok b"
    and r: "resolve_loop inner (Suc i) kvs b = Ok a'"
    by (auto simp: and_then_Ok_iff)
  from b have "ID b = ID a \<and> Type b = Type a \<and> Healthcheck b = Healthcheck a"
    by (auto simp: resolve_pass_def map_result_Ok_iff)
  with Cons.IH [OF r] show ?case by simp
qed

lemma run_reaches_launch:
  assumes "Application_Run E maxWait s = (Ok (), s')"
  shows "\<exists>a w u. resolveVariables (order E 0) (vars s) (app s) = Ok a \<and>
    launch E maxWait (s\<lparr>app := a, world := w\<rparr>) = (Ok (), u)"
proof -
  from assms obtain t1 t2 t3 u where
    1: "resolve E 0 s = (Ok (), t1)" and
    2: "ensure E (\<lambda>a. [StringsValue (BeforeScheduler a), StringValue (LaunchCommand a),
      MapValue (Scheduler a), StringsValue (Args a), MapValue (Env a)]) t1 = (Ok (), t2)" and
    3: "executeCommands E BeforeScheduler ''_before_scheduler.sh'' t2 = (Ok (), t3)" and
    4: "launch E maxWait t3 = (Ok (), u)"
    unfolding Application_Run_def run_steps_def sequence_Ok_Cons by blast
  from 1 obtain a where "resolveVariables (order E 0) (vars s) (app s) = Ok a"
    and t1: "t1 = s\<lparr>app := a\<rparr>" by (auto simp: resolve_def split: result.splits)
  moreover from 2 have "t2 = t1" by (simp add: ensure_def)
  with 3 t1 have "t3 = s\<lparr>app := a, world := world t3\<rparr>"
    by (auto simp: executeCommands_def split: if_splits prod.splits)
  ultimately show ?thesis using 4 by metis
qed

text \<open>C14: A successful \<open>Run\<close> of a Marathon application means that Marathon accepted a
  request for it, built from its resolved form, and that one of the first
  \<open>maxWait + 1\<close> probes saw a running task, and a healthy one if it has a health check.\<close>
theorem run_success_running:
  assumes "Application_Run E maxWait s = (Ok (), s')"
    and "\<not> MesosTaskRunners E (Type (app s))"
  shows "\<exists>a w0 m w i running healthy.
    resolveVariables (order E 0) (vars s) (app s) = Ok a \<and>
    createApplication (regexps E) (arrange E) (vars s) (mesos_state E w0) a = Ok m \<and>
    ma_ID m = ID (app s) \<and> marathon_create E m w0 = (Ok (), w) \<and> int i \<le> maxWait \<and>
    fst (marathon_application E (ID (app s)) (before_probe E a w i)) =
      Ok (Some (running, healthy)) \<and>
    running \<noteq> 0 \<and> (Healthcheck (app s) \<noteq> [] \<longrightarrow> healthy \<noteq> 0)"
proof -
  from run_reaches_launch [OF assms(1)] obtain a w0 u where
    a: "resolveVariables (order E 0) (vars s) (app s) = Ok a"
    and l: "launch E maxWait (s\<lparr>app := a, world := w0\<rparr>) = (Ok (), u)" by blast
  note same = resolve_loop_frame [OF a [unfolded resolveVariables_def]]
  with launch_marathon_Ok [OF _ l] assms(2) obtain m w where
    m: "createApplication (regexps E) (arrange E) (vars s) (mesos_state E w0) a = Ok m"
    and w: "marathon_create E m w0 = (Ok (), w)"
    and aw: "fst (awaitRunningAndHealthy E a maxWait w) = Ok ()" by auto
  from aw obtain i where i: "i < nat (maxWait + 1)" and p: "probe E a w i = Ok ()"
    unfolding awaitRunningAndHealthy_def await_loop_Ok_iff by blast
  from i have "int i \<le> maxWait" by linarith
  moreover from m have "ma_ID m = ID a"
    by (auto simp: createApplication_def and_then_Ok_iff)
  ultimately show ?thesis using a m w p same unfolding probe_Ok_iff by metis
qed

text \<open>An application with one task whose only parameter is an unbound reference.\<close>

definition dangling_app :: Application where
  "dangling_app = empty_application
     \<lparr>Type := ''kafka'', ID := ''broker'', Cpu := Fin 1, Mem := Fin 1,
      Tasks := [(YStr ''add'', YMap [(YStr ''topic'', YStr ''${missing}'')])]\<rparr>"

lemma dangling_run:
  "fst (Application_Run sample_env 5 (sample_run dangling_app)) = Ok ()"
  "world (snd (Application_Run sample_env 5 (sample_run dangling_app))) =
     (3, [[(''topic'', ''${missing}'')]])"
  by code_simp+

theorem run_success_running_witness:
  "\<exists>m w0 w i a running healthy. ma_ID m = ''broker'' \<and>
     marathon_create sample_env m w0 = (Ok (), w) \<and> int i \<le> 5 \<and>
     fst (marathon_application sample_env ''broker'' (before_probe sample_env a w i)) =
       Ok (Some (running, healthy)) \<and> running \<noteq> 0"
proof -
  have "Application_Run sample_env 5 (sample_run dangling_app) =
      (Ok (), snd (Application_Run sample_env 5 (sample_run dangling_app)))"
    using dangling_run(1) by (metis prod.collapse)
  moreover have "ID (app (sample_run dangling_app)) = ''broker''"
    and "\<not> MesosTaskRunners sample_env t" for t
    by (simp_all add: sample_run_def dangling_app_def sample_env_def)
  ultimately show ?thesis
    using run_success_running [of sample_env 5 "sample_run dangling_app"] by metis
qed

text \<open>The references of a task are not checked before it runs: the check in the task
  loop is given the whole item of the task list, a type its switch has no case for, so
  only the before-task commands decide it, and a task runner receives an unresolved
  reference as it was written while the deployment succeeds.\<close>
theorem task_reference_unchecked:
  "ensure E (\<lambda>a. [StringsValue (BeforeTask a), MapItemValue (task_item i a)]) s =
     ensure E (\<lambda>a. [StringsValue (BeforeTask a)]) s \<and>
   fst (Application_Run sample_env 5 (sample_run dangling_app)) = Ok () \<and>
   snd (world (snd (Application_Run sample_env 5 (sample_run dangling_app)))) =
     [[(''topic'', ''${missing}'')]]"
  by (simp add: dangling_run ensure_def)

end
