(* ===== verification/RunnerLaws.thy ===== *)
theory RunnerLaws
  imports RunnersAwait Deployment
begin

text \<open>
  What every task runner promises to the deployment of an application, as a locale:
  it writes only variables under the name of the application, \<open>FillContext\<close> leaves the
  endpoint of the framework there, and \<open>RunTask\<close> does not change it.  All nine runners
  of the registry are interpretations.  The theorems on \<open>Run\<close> follow for the registry;
  two more show what the requests carry and when the waiting runner returns.
\<close>

section \<open>Writing under a name\<close>

definition api_key :: "string \<Rightarrow> string" where
  "api_key p = p @ ''.api''"

definition under :: "string \<Rightarrow> Variables \<Rightarrow> Variables \<Rightarrow> bool" where
  "under p c c' \<longleftrightarrow>
     (\<forall>k. \<not> HasPrefix k (p @ ''.'') \<longrightarrow> map_of (stackVariables c') k = map_of (stackVariables c) k) \<and>
     arbitraryVariables c' = arbitraryVariables c \<and> globalVariables c' = globalVariables c"

definition keeps_api :: "string \<Rightarrow> Variables \<Rightarrow> Variables \<Rightarrow> bool" where
  "keeps_api p c c' \<longleftrightarrow> under p c c' \<and>
     map_of (stackVariables c') (api_key p) = map_of (stackVariables c) (api_key p)"

lemma under_refl [simp]: "under p c c"
  by (simp add: under_def)

lemma under_trans: "under p c c' \<Longrightarrow> under p c' c'' \<Longrightarrow> under p c c''"
  by (simp add: under_def)

lemma keeps_api_refl [simp]: "keeps_api p c c"
  by (simp add: keeps_api_def)

lemma keeps_api_trans: "keeps_api p c c' \<Longrightarrow> keeps_api p c' c'' \<Longrightarrow> keeps_api p c c''"
  by (auto simp: keeps_api_def intro: under_trans)

lemma keeps_api_under [intro]: "keeps_api p c c' \<Longrightarrow> under p c c'"
  by (simp add: keeps_api_def)

lemma under_Get: "under p c c' \<Longrightarrow> \<not> HasPrefix k (p @ ''.'') \<Longrightarrow> Get c' k = Get c k"
  by (simp add: under_def Get_def cong: option.case_cong)

lemma keeps_api_Get: "keeps_api p c c' \<Longrightarrow> Get c' (api_key p) = Get c (api_key p)"
  by (simp add: keeps_api_def under_def Get_def cong: option.case_cong)

lemma under_Set: "under p c (SetStackVariable (p @ CHR ''.'' # x) v c)"
  by (auto simp: under_def SetStackVariable_def HasPrefix_def)

lemma keeps_api_Set: "x \<noteq> ''api'' \<Longrightarrow> keeps_api p c (SetStackVariable (p @ CHR ''.'' # x) v c)"
  using under_Set by (auto simp: keeps_api_def api_key_def SetStackVariable_def)

lemma keeps_api_Set':
  "keeps_api p c c' \<Longrightarrow> x \<noteq> ''api'' \<Longrightarrow> keeps_api p c (SetStackVariable (p @ CHR ''.'' # x) v c')"
  by (rule keeps_api_trans [OF _ keeps_api_Set])

lemma api_Set: "Get (SetStackVariable (api_key p) v c) (api_key p) = Ok v"
  by (simp add: SetStackVariable_def Get_def)

lemma keeps_api_numbered:
  assumes "\<And>s. \<exists>x. key s = p @ CHR ''.'' # x \<and> x \<noteq> ''api''"
  shows "keeps_api p c (set_numbered key i vs c)"
proof (induction vs arbitrary: i c)
  case (Cons v vs)
  from assms [of "show_nat i"] keeps_api_Set
  have "keeps_api p c (SetStackVariable (key (show_nat i)) v c)" by auto
  from keeps_api_trans [OF this Cons.IH] show ?case by simp
qed simp

section \<open>The steps the runners share\<close>

lemma keeps_api_fill_ports: "keeps_api (ID a) c (fill_ports c a task)"
  unfolding fill_ports_def
  by (rule keeps_api_trans [OF _ keeps_api_numbered]) (auto intro!: keeps_api_Set)

lemma fill_endpoint_laws:
  assumes "fill_endpoint c a task w = (r, c', w')"
  shows "under (ID a) c c'" and "r = Ok () \<Longrightarrow> Get c' (api_key (ID a)) = endpoint task"
proof -
  have p: "under (ID a) c (fill_ports c a task)" using keeps_api_fill_ports by blast
  show "under (ID a) c c'"
    using assms p under_trans [OF p under_Set]
    by (auto simp: fill_endpoint_def split: result.splits)
  show "r = Ok () \<Longrightarrow> Get c' (api_key (ID a)) = endpoint task"
    using assms api_Set [of "ID a"] by (auto simp: fill_endpoint_def api_key_def split: result.splits)
qed

lemma with_api_laws:
  assumes "with_api c a body w = (r, c', w')"
    and "\<And>api w r c' w'. body api w = (r, c', w') \<Longrightarrow> keeps_api p c c'"
  shows "keeps_api p c c'"
  using assms by (auto simp: with_api_def split: result.splits)

lemma call_context_laws:
  assumes "call_context f fill c w = (r, c', w')"
    and "\<And>x r c'. fill x c = (r, c') \<Longrightarrow> keeps_api p c c'"
  shows "keeps_api p c c'"
  using assms by (auto simp: call_context_def split: result.splits prod.splits)

lemma keep_context_laws: "keep_context x c = (r, c') \<Longrightarrow> keeps_api p c c'"
  by (simp add: keep_context_def)

lemma fill_servers_laws:
  assumes "fill_servers key connect servers c = (r, c')"
    and "\<And>s. \<exists>x. key s = p @ CHR ''.'' # x \<and> x \<noteq> ''api''"
    and "connect = p @ CHR ''.'' # x" and "x \<noteq> ''api''"
  shows "keeps_api p c c'"
  using assms(1,3,4) keeps_api_Set' [OF keeps_api_numbered [OF assms(2)] assms(4)]
  by (auto simp: fill_servers_def split: result.splits)

lemma keeps_api_ports:
  "keeps_api p c (fold (\<lambda>(name, port). SetStackVariable (p @ CHR ''.'' # x @ ''.'' @ name @ ''Port'') (f port)) ports c)"
proof (induction ports arbitrary: c)
  case (Cons q ports)
  obtain name port where q: "q = (name, port)" by (cases q)
  have "x @ ''.'' @ name @ ''Port'' \<noteq> ''api''"
  proof
    assume "x @ ''.'' @ name @ ''Port'' = ''api''"
    then have "CHR ''.'' \<in> set ''api''" by (metis append_Cons in_set_conv_decomp)
    then show False by simp
  qed
  from keeps_api_trans [OF keeps_api_Set [OF this] Cons.IH] show ?case by (simp add: q)
qed simp

lemma fill_node_laws: "keeps_api (ID a) c (fill_node a node rt ports e c)"
proof -
  let ?x = "''cassandra-'' @ node_ID node"
  have "keeps_api (ID a) c (SetStackVariable (ID a @ CHR ''.'' # ?x @ ''.host'') (node_Address rt)
          (SetStackVariable (ID a @ CHR ''.'' # ?x) e c))"
    by (intro keeps_api_Set' keeps_api_Set) simp_all
  from keeps_api_trans [OF this keeps_api_ports [of "ID a" _ ?x Itoa ports]]
  show ?thesis by (simp add: fill_node_def Let_def)
qed

lemma fill_nodes_laws: "fill_nodes a ps servers c = (r, c') \<Longrightarrow> keeps_api (ID a) c c'"
proof (induction ps arbitrary: servers c)
  case Nil
  then show ?case using keeps_api_Set [of "''cassandraConnect''" "ID a"] by auto
next
  case (Cons p ps)
  from Cons.prems show ?case
    using keeps_api_trans [OF fill_node_laws Cons.IH]
    by (auto simp: Let_def split: result.splits prod.splits)
qed

lemma fill_queries_laws: "fill_queries a xs c = (r, c') \<Longrightarrow> keeps_api (ID a) c c'"
proof (induction xs arbitrary: c)
  case (Cons x xs)
  have "keeps_api (ID a) c (SetStackVariable (ID a @ CHR ''.'' # ''query-'' @ n @ ''.endpoint'') v c)" for n v
    by (rule keeps_api_Set) simp
  with Cons.prems Cons.IH keeps_api_trans show ?case
    by (auto split: result.splits prod.splits) blast
qed simp

lemma fill_addresses_laws: "fill_addresses a i ps c = (r, c') \<Longrightarrow> keeps_api (ID a) c c'"
proof (induction ps arbitrary: i c)
  case (Cons p ps)
  have no: "show_nat i @ CHR ''.'' # y \<noteq> ''api''" for y
  proof
    assume "show_nat i @ CHR ''.'' # y = ''api''"
    then have "CHR ''.'' \<in> set ''api''" by (metis in_set_conv_decomp)
    then show False by simp
  qed
  have "keeps_api (ID a) c
      (SetStackVariable (ID a @ CHR ''.'' # show_nat i @ CHR ''.'' # y) v
        (SetStackVariable (ID a @ CHR ''.'' # show_nat i @ CHR ''.'' # z) u c))" for y v z u
    by (intro keeps_api_Set' keeps_api_Set no)
  with Cons.prems Cons.IH keeps_api_trans show ?case
    by (auto simp: deref_def split: option.splits) blast
qed simp

section \<open>The contract\<close>

locale task_runner =
  fixes R :: "'w TaskRunner"
  assumes fill_under: "FillContext R c a t w = (r, c', w') \<Longrightarrow> under (ID a) c c'"
    and fill_api: "FillContext R c a t w = (Ok (), c', w') \<Longrightarrow> Get c' (api_key (ID a)) = endpoint t"
    and run_keeps: "RunTask R c a ts w = (r, c', w') \<Longrightarrow> keeps_api (ID a) c c'"
begin

lemma fillContext_under:
  assumes "fillContext E R s = (r, s')"
  shows "app s' = app s" and "under (ID (app s)) (vars s) (vars s')"
  using assms fill_under
  by (auto simp: fillContext_def split: prod.splits result.splits option.splits list.splits)

lemma fillContext_api:
  assumes "fillContext E R s = (Ok (), s')"
  shows "\<exists>w w' task ts. marathon_tasks E (ID (app s)) w = (Ok (Some (task # ts)), w') \<and>
           Get (vars s') (api_key (ID (app s))) = endpoint task"
  using assms fill_api
  by (fastforce simp: fillContext_def split: prod.splits result.splits option.splits list.splits)

lemma runTask_keeps:
  assumes "runTask R i s = (r, s')"
  shows "app s' = app s" and "keeps_api (ID (app s)) (vars s) (vars s')"
  using assms run_keeps by (auto simp: runTask_def split: yaml.splits prod.splits)

end

section \<open>The runners\<close>

lemma Exhibitor_RunTask_laws:
  assumes "Exhibitor_RunTask H c a ts w = (r, c', w')"
  shows "keeps_api (ID a) c c'"
proof -
  let ?f = "\<lambda>api. call_then (Exhibitor_Add H api ts) (\<lambda>_. call_then (Exhibitor_Update H api ts)
             (\<lambda>_. Exhibitor_Start H api ts))"
  have "keeps_api (ID a) c c1" if "call_context (?f api) (Exhibitor_fillTaskContext a) c w = (r1, c1, w1)" for api r1 c1 w1
    using that
    by (rule call_context_laws)
       (auto simp: Exhibitor_fillTaskContext_def elim!: fill_servers_laws)
  with assms show ?thesis
    by (auto simp: Exhibitor_RunTask_def or_blocked_def split: option.splits result.splits prod.splits)
qed

lemma Elasticsearch_FillContext_laws:
  assumes "Elasticsearch_FillContext H etr c a t w = (r, c', w')"
  shows "under (ID a) c c'" and "r = Ok () \<Longrightarrow> Get c' (api_key (ID a)) = endpoint t"
proof -
  have p: "under (ID a) c (fill_ports c a t)" using keeps_api_fill_ports by blast
  have q: "under (ID a) c (SetStackVariable (ID a @ ''.api'') api (fill_ports c a t))" for api
    using under_trans [OF p under_Set] by simp
  have k: "keeps_api (ID a) c1 c2" if "call_context (GetTasks H api) (fill_addresses a 0) c1 w1 = (r2, c2, w2)"
    for api c1 w1 r2 c2 w2
    using that fill_addresses_laws by (rule call_context_laws)
  show "under (ID a) c c'"
    using assms p q under_trans [OF q keeps_api_under [OF k]]
    by (auto simp: or_blocked_def Elasticsearch_FillContext_def Let_def split: option.splits result.splits prod.splits)
  have g: "Get c2 (api_key (ID a)) = Ok api"
    if "call_context (GetTasks H api) (fill_addresses a 0)
          (SetStackVariable (ID a @ ''.api'') api (fill_ports c a t)) w1 = (r2, c2, w2)" for api w1 r2 c2 w2
    using keeps_api_Get [OF k [OF that]] api_Set [of "ID a"] by (simp add: api_key_def)
  show "r = Ok () \<Longrightarrow> Get c' (api_key (ID a)) = endpoint t"
    using assms g
    by (auto simp: or_blocked_def Elasticsearch_FillContext_def Let_def split: option.splits result.splits prod.splits)
qed

text \<open>The runners that only publish the endpoint in \<open>FillContext\<close>.\<close>

lemma endpoint_task_runner:
  assumes "\<And>c a t (w :: 'w). fill c a t w = fill_endpoint c a t w"
    and "\<And>c a ts (w :: 'w) r c' w'. run c a ts w = (r, c', w') \<Longrightarrow> keeps_api (ID a) c c'"
  shows "task_runner \<lparr>FillContext = fill, RunTask = run\<rparr>"
  by unfold_locales (use assms in \<open>auto dest: fill_endpoint_laws\<close>)

lemma requests_keep:
  "with_api c a (\<lambda>api. call_context (f api) keep_context c) w = (r, c', w') \<Longrightarrow> keeps_api p c c'"
  by (auto elim!: with_api_laws call_context_laws intro: keep_context_laws)

interpretation kafka: task_runner "\<lparr>FillContext = Kafka_FillContext, RunTask = Kafka_RunTask H\<rparr>" for H
  by (rule endpoint_task_runner)
     (auto simp: Kafka_FillContext_def Kafka_RunTask_def intro: requests_keep)

interpretation statsd: task_runner "\<lparr>FillContext = Statsd_FillContext, RunTask = Statsd_RunTask H\<rparr>" for H
  by (rule endpoint_task_runner)
     (auto simp: Statsd_FillContext_def Statsd_RunTask_def intro: requests_keep)

interpretation syslog: task_runner "\<lparr>FillContext = Syslog_FillContext, RunTask = Syslog_RunTask H\<rparr>" for H
  by (rule endpoint_task_runner)
     (auto simp: Syslog_FillContext_def Syslog_RunTask_def intro: requests_keep)

interpretation go_kafka: task_runner "\<lparr>FillContext = GoKafka_FillContext, RunTask = GoKafka_RunTask H\<rparr>" for H
  by (rule endpoint_task_runner)
     (auto simp: GoKafka_FillContext_def GoKafka_RunTask_def intro: requests_keep)

interpretation dse: task_runner "\<lparr>FillContext = DSE_FillContext, RunTask = DSE_RunTask H\<rparr>" for H
  by (rule endpoint_task_runner)
     (auto simp: DSE_FillContext_def DSE_RunTask_def DSE_fillTaskContext_def
       elim!: with_api_laws call_context_laws fill_servers_laws)

interpretation dse02x: task_runner "\<lparr>FillContext = DSE02x_FillContext, RunTask = DSE02x_RunTask H\<rparr>" for H
  by (rule endpoint_task_runner)
     (auto simp: DSE02x_FillContext_def DSE02x_RunTask_def DSE02x_fillTaskContext_def
       elim!: with_api_laws call_context_laws fill_nodes_laws split: result.splits if_splits)

interpretation zipkin: task_runner "\<lparr>FillContext = Zipkin_FillContext, RunTask = Zipkin_RunTask H\<rparr>" for H
  by (rule endpoint_task_runner)
     (auto simp: Zipkin_FillContext_def Zipkin_RunTask_def Zipkin_fillTaskContext_def
       elim!: with_api_laws call_context_laws fill_queries_laws intro: keep_context_laws
       split: option.splits if_splits)

interpretation exhibitor: task_runner
    "\<lparr>FillContext = Exhibitor_FillContext, RunTask = Exhibitor_RunTask H\<rparr>" for H
  by (rule endpoint_task_runner) (auto simp: Exhibitor_FillContext_def dest: Exhibitor_RunTask_laws)

interpretation elasticsearch: task_runner
    "\<lparr>FillContext = Elasticsearch_FillContext H etr, RunTask = Elasticsearch_RunTask\<rparr>" for H etr
  by unfold_locales
     (auto simp: Elasticsearch_RunTask_def dest: Elasticsearch_FillContext_laws)

lemma registered_task_runner: "taskRunners H t = Some R \<Longrightarrow> task_runner R"
  using kafka.task_runner_axioms statsd.task_runner_axioms syslog.task_runner_axioms
    go_kafka.task_runner_axioms dse.task_runner_axioms dse02x.task_runner_axioms
    zipkin.task_runner_axioms exhibitor.task_runner_axioms elasticsearch.task_runner_axioms
  by (auto simp: taskRunners_def split: if_splits)

section \<open>The deployment of an application\<close>

text \<open>A step that keeps the application's ID and writes only under that name.\<close>

definition step_under :: "string \<Rightarrow> 'w step \<Rightarrow> bool" where
  "step_under p f \<longleftrightarrow> (\<forall>s r s'. ID (app s) = p \<longrightarrow> f s = (r, s') \<longrightarrow>
     ID (app s') = p \<and> Type (app s') = Type (app s) \<and> under p (vars s) (vars s'))"

text \<open>The steps that also leave the endpoint alone.\<close>

definition step_keeps :: "string \<Rightarrow> 'w step \<Rightarrow> bool" where
  "step_keeps p f \<longleftrightarrow> (\<forall>s r s'. ID (app s) = p \<longrightarrow> f s = (r, s') \<longrightarrow>
     ID (app s') = p \<and> Type (app s') = Type (app s) \<and> keeps_api p (vars s) (vars s'))"

lemma step_underD:
  assumes "step_under p f" and "f s = (r, s')" and "ID (app s) = p"
  shows "ID (app s') = p \<and> Type (app s') = Type (app s) \<and> under p (vars s) (vars s')"
  using assms unfolding step_under_def by blast

lemma step_keepsD:
  assumes "step_keeps p f" and "f s = (r, s')" and "ID (app s) = p"
  shows "ID (app s') = p \<and> Type (app s') = Type (app s) \<and> keeps_api p (vars s) (vars s')"
  using assms unfolding step_keeps_def by blast

lemma step_keeps_under: "step_keeps p f \<Longrightarrow> step_under p f"
  unfolding step_under_def using step_keepsD keeps_api_under by metis

lemma sequence_under:
  assumes "\<And>f. f \<in> set fs \<Longrightarrow> step_under p f"
  shows "step_under p (sequence fs)"
  using assms
proof (induction fs)
  case Nil
  then show ?case by (simp add: step_under_def)
next
  case (Cons f fs)
  from Cons have f: "step_under p f" and fs: "step_under p (sequence fs)" by simp_all
  show ?case
    unfolding step_under_def
  proof (intro allI impI)
    fix s r s' assume p: "ID (app s) = p" and run: "sequence (f # fs) s = (r, s')"
    obtain r1 t where t: "f s = (r1, t)" by fastforce
    from step_underD [OF f t p]
    have 1: "ID (app t) = p \<and> Type (app t) = Type (app s) \<and> under p (vars s) (vars t)" .
    show "ID (app s') = p \<and> Type (app s') = Type (app s) \<and> under p (vars s) (vars s')"
    proof (cases r1)
      case (Ok u)
      with run t have "sequence fs t = (r, s')" by simp
      from step_underD [OF fs this] 1
      have "ID (app s') = p \<and> Type (app s') = Type (app t) \<and> under p (vars t) (vars s')" by simp
      with 1 under_trans show ?thesis by metis
    qed (use run t 1 in simp_all)
  qed
qed

lemma sequence_keeps:
  assumes "\<And>f. f \<in> set fs \<Longrightarrow> step_keeps p f"
  shows "ID (app s) = p \<Longrightarrow> sequence fs s = (r, s') \<Longrightarrow> keeps_api p (vars s) (vars s') \<and> ID (app s') = p"
  using assms
proof (induction fs arbitrary: s)
  case (Cons f fs)
  obtain r1 t where t: "f s = (r1, t)" by fastforce
  have "step_keeps p f" by (rule Cons.prems(3)) simp
  from step_keepsD [OF this t] Cons.prems(1)
  have 1: "ID (app t) = p \<and> keeps_api p (vars s) (vars t)" by simp
  show ?case
  proof (cases r1)
    case (Ok u)
    with Cons.prems(2) t have "sequence fs t = (r, s')" by simp
    with Cons.IH [of t] Cons.prems(3) 1 keeps_api_trans show ?thesis
      by (metis list.set_intros(2))
  qed (use Cons.prems(2) t 1 in simp_all)
qed simp

lemma resolve_keeps: "step_keeps p (resolve E n)"
proof (unfold step_keeps_def, intro allI impI)
  fix s r s' assume "ID (app s) = p" and "resolve E n s = (r, s')"
  then show "ID (app s') = p \<and> Type (app s') = Type (app s) \<and> keeps_api p (vars s) (vars s')"
    using resolve_loop_frame
    by (fastforce simp: resolve_def resolveVariables_def split: result.splits)
qed

lemma ensure_keeps: "step_keeps p (ensure E vals)"
  by (auto simp: step_keeps_def ensure_def)

lemma executeCommands_keeps: "step_keeps p (executeCommands E cmds script)"
  by (auto simp: step_keeps_def executeCommands_def split: if_splits prod.splits)

lemma launch_keeps: "step_keeps p (launch E maxWait)"
  by (auto simp: step_keeps_def launch_def runMesos_def runMarathon_def
      split: if_splits prod.splits result.splits)

lemmas step_laws = resolve_keeps ensure_keeps executeCommands_keeps launch_keeps

context task_runner
begin

lemma task_steps_keep: "f \<in> set (task_steps E R i) \<Longrightarrow> step_keeps p f"
proof -
  have "step_keeps p (runTask R i)"
    using runTask_keeps unfolding step_keeps_def by metis
  then show "f \<in> set (task_steps E R i) \<Longrightarrow> step_keeps p f"
    using step_laws by (auto simp: task_steps_def)
qed

lemma fillContext_step: "step_under p (fillContext E R)"
  unfolding step_under_def using fillContext_under by metis

text \<open>Once the context is filled, the endpoint is there for the tasks and stays.\<close>

lemma tasks_endpoint:
  assumes "sequence (fillContext E R # concat (map (task_steps E R) is)) s = (Ok (), s')"
  shows "\<exists>w w' task ts. marathon_tasks E (ID (app s)) w = (Ok (Some (task # ts)), w') \<and>
           Get (vars s') (api_key (ID (app s))) = endpoint task \<and> ID (app s') = ID (app s)"
proof -
  from assms obtain t where t: "fillContext E R s = (Ok (), t)"
    and rest: "sequence (concat (map (task_steps E R) is)) t = (Ok (), s')"
    unfolding sequence_Ok_Cons by blast
  from t have app: "app t = app s" by (rule fillContext_under)
  have "keeps_api (ID (app s)) (vars t) (vars s') \<and> ID (app s') = ID (app s)"
    by (rule sequence_keeps [OF _ _ rest]) (use task_steps_keep app in auto)
  with fillContext_api [OF t] keeps_api_Get show ?thesis by metis
qed

end

lemma runTasks_under:
  assumes "TaskRunners E = taskRunners H"
  shows "step_under p (runTasks E)"
  unfolding step_under_def
proof (intro allI impI)
  fix s r s' assume p: "ID (app s) = p" and run: "runTasks E s = (r, s')"
  show "ID (app s') = p \<and> Type (app s') = Type (app s) \<and> under p (vars s) (vars s')"
  proof (cases "TaskRunners E (Type (app s))")
    case None
    with run p show ?thesis by (simp add: runTasks_def)
  next
    case (Some R)
    then have R: "task_runner R" using assms registered_task_runner by metis
    let ?fs = "fillContext E R # concat (map (task_steps E R) [0..<length (Tasks (app s))])"
    have "step_under p f" if "f \<in> set ?fs" for f
      using that task_runner.fillContext_step [OF R]
        step_keeps_under [OF task_runner.task_steps_keep [OF R]] by auto
    then have "step_under p (sequence ?fs)" by (rule sequence_under)
    moreover from run Some have "sequence ?fs s = (r, s')" by (simp add: runTasks_def)
    ultimately show ?thesis using p by (rule step_underD)
  qed
qed

lemma run_steps_under:
  assumes "TaskRunners E = taskRunners H" and "f \<in> set (run_steps E maxWait n)"
  shows "step_under p f"
  using assms(2) runTasks_under [OF assms(1)] step_laws [THEN step_keeps_under]
  by (auto simp: run_steps_def)

text \<open>C15: With the runners of the program, the deployment of an application changes no
  variable outside its own name: whatever its result, every key that does not start with
  the application's ID and a dot reads as before. Applications of a stack cannot
  overwrite each other's variables, nor the variables of the request.\<close>
theorem application_namespace:
  assumes "TaskRunners E = taskRunners H" and "Application_Run E maxWait s = (r, s')"
    and "\<not> HasPrefix k (ID (app s) @ ''.'')"
  shows "Get (vars s') k = Get (vars s) k"
proof -
  let ?fs = "run_steps E maxWait (length (Tasks (app s)))"
  have "step_under (ID (app s)) (sequence ?fs)"
    by (rule sequence_under) (rule run_steps_under [OF assms(1)])
  moreover have "sequence ?fs s = (r, s')" using assms(2) by (simp only: Application_Run_def)
  ultimately have "under (ID (app s)) (vars s) (vars s')" using step_underD by blast
  then show ?thesis using assms(3) by (rule under_Get)
qed

text \<open>A context that sends no request, and a stack with one Kafka framework.\<close>

definition silent_http :: "unit http_api" where
  "silent_http =
     \<lparr>http_Get = (\<lambda>u w. (Ok (200, Ok []), w)), http_Post = (\<lambda>u t b w. (Ok (200, Ok []), w)),
      marshal = (\<lambda>x. Ok []), unmarshal_object = (\<lambda>b. Ok [(''Success'', JBool True)]),
      unmarshal_cluster = (\<lambda>b. Ok None), unmarshal_status = (\<lambda>b. Ok None),
      unmarshal_tasks = (\<lambda>b. Ok []), unmarshal_start = (\<lambda>b. Ok None),
      ParseFloat = (\<lambda>s. Ok NaN), now = (\<lambda>w. 0), sleep = (\<lambda>d w. w), show_duration = (\<lambda>d. [])\<rparr>"

definition kafka_env :: "unit environment" where
  "kafka_env =
     \<lparr>regexps = literal_regexp, shell = (\<lambda>cmds file w. (Ok (), w)),
      marathon_create = (\<lambda>a w. (Ok (), w)), marathon_application = (\<lambda>i w. (Ok (Some (1, 1)), w)),
      marathon_tasks = (\<lambda>i w. (Ok (Some [\<lparr>Host = ''h'', TaskPorts = [7]\<rparr>]), w)),
      mesos_run = (\<lambda>a w. (Ok (), w)), mesos_state = (\<lambda>w. NewMesosClusterState ''m''),
      TaskRunners = taskRunners silent_http, MesosTaskRunners = (\<lambda>t. False),
      show_variables = (\<lambda>v. []), arrange = (\<lambda>xs. xs), order = (\<lambda>n p xs. xs)\<rparr>"

definition kafka_app :: Application where
  "kafka_app = empty_application\<lparr>ID := ''kafka'', Type := ''kafka-mesos-0.9.x''\<rparr>"

definition kafka_run :: "Variables \<Rightarrow> unit deployment" where
  "kafka_run v = \<lparr>app = kafka_app, vars = v, world = ()\<rparr>"

definition zone_vars :: Variables where
  "zone_vars = SetArbitraryVariable ''zone'' ''z1'' NewVariables"

theorem application_namespace_witness:
  "Get (vars (snd (Application_Run kafka_env 3 (kafka_run zone_vars)))) ''zone'' = Ok ''z1''"
proof -
  have "Get (vars (kafka_run zone_vars)) ''zone'' = Ok ''z1''"
    by (simp add: kafka_run_def zone_vars_def Get_def SetArbitraryVariable_def NewVariables_def)
  moreover have "Get (vars (snd (Application_Run kafka_env 3 (kafka_run zone_vars)))) ''zone'' = Get (vars (kafka_run zone_vars)) ''zone''"
    by (rule application_namespace [of kafka_env silent_http 3 "kafka_run zone_vars"
          "fst (Application_Run kafka_env 3 (kafka_run zone_vars))"])
       (simp_all add: kafka_env_def kafka_run_def kafka_app_def HasPrefix_def)
  ultimately show ?thesis by simp
qed

lemma sequence_append_Ok:
  "sequence (fs @ gs) s = (Ok (), s') \<longleftrightarrow>
     (\<exists>t. sequence fs s = (Ok (), t) \<and> sequence gs t = (Ok (), s'))"
proof (induction fs arbitrary: s)
  case (Cons f fs)
  then show ?case unfolding append_Cons sequence_Ok_Cons by blast
qed simp

lemma runTasks_endpoint:
  assumes "TaskRunners E = taskRunners H" and "TaskRunners E (Type (app s)) \<noteq> None"
    and "runTasks E s = (Ok (), s')"
  shows "\<exists>w w' task ts. marathon_tasks E (ID (app s)) w = (Ok (Some (task # ts)), w') \<and>
           Get (vars s') (api_key (ID (app s))) = endpoint task \<and> ID (app s') = ID (app s)"
proof -
  from assms(2) obtain R where R: "TaskRunners E (Type (app s)) = Some R" by blast
  then have "task_runner R" using assms(1) registered_task_runner by metis
  from task_runner.tasks_endpoint [OF this] assms(3) R show ?thesis
    unfolding runTasks_def by simp
qed

text \<open>C16: A successful deployment publishes the endpoint of the framework. For an
  application whose type has a task runner, the variable \<open>api\<close> under its name is then
  the host and the first port of the first task Marathon reported for it, for the
  applications that depend on it; no task of the application has changed it.\<close>
theorem run_publishes_endpoint:
  assumes "TaskRunners E = taskRunners H" and "TaskRunners E (Type (app s)) \<noteq> None"
    and "Application_Run E maxWait s = (Ok (), s')"
  shows "\<exists>w w' task ts port ports. marathon_tasks E (ID (app s)) w = (Ok (Some (task # ts)), w') \<and>
    TaskPorts task = port # ports \<and>
    Get (vars s') (ID (app s) @ ''.api'') = Ok (''http://'' @ Host task @ '':'' @ Itoa port)"
proof -
  let ?p = "ID (app s)"
  obtain before after where steps: "run_steps E maxWait (length (Tasks (app s))) = before @ runTasks E # after"
    and b: "\<And>f. f \<in> set before \<Longrightarrow> step_keeps ?p f" and a: "\<And>f. f \<in> set after \<Longrightarrow> step_keeps ?p f"
  proof
    show "run_steps E maxWait (length (Tasks (app s))) =
      take 7 (run_steps E maxWait (length (Tasks (app s)))) @ runTasks E #
      drop 8 (run_steps E maxWait (length (Tasks (app s))))" by (simp add: run_steps_def)
  qed (use step_laws in \<open>auto simp: run_steps_def\<close>)
  with assms(3) obtain t u where 1: "sequence before s = (Ok (), t)" and 2: "runTasks E t = (Ok (), u)"
    and 3: "sequence after u = (Ok (), s')"
    unfolding Application_Run_def steps sequence_append_Ok sequence_Ok_Cons by blast
  have t: "ID (app t) = ?p \<and> Type (app t) = Type (app s)"
    using step_underD [OF sequence_under [OF step_keeps_under [OF b]] 1] by blast
  with assms(1,2) runTasks_endpoint [OF assms(1) _ 2] obtain w w' task ts where
    m: "marathon_tasks E ?p w = (Ok (Some (task # ts)), w')"
    and g: "Get (vars u) (api_key ?p) = endpoint task" and u: "ID (app u) = ?p"
    by metis
  from sequence_keeps [OF a u 3] have "Get (vars s') (api_key ?p) = endpoint task"
    using keeps_api_Get g by metis
  moreover have "Get (vars s') (api_key ?p) \<noteq> Panic e" for e
    by (auto simp: Get_def split: option.splits)
  ultimately show ?thesis using m
    by (fastforce simp: endpoint_def api_key_def split: list.splits)
qed

lemma kafka_registered:
  "taskRunners H ''kafka-mesos-0.9.x'' = Some \<lparr>FillContext = Kafka_FillContext, RunTask = Kafka_RunTask H\<rparr>"
  by (simp add: taskRunners_def)

lemma empty_resolved: "ensureStringVariableResolved [] [] = Ok ()"
  by code_simp

lemma resolve_no_commands: "fold (\<lambda>kv. map (substitute kv)) kvs [] = []"
  by (induction kvs) simp_all

lemma resolve_kafka: "resolve_loop inner i kvs kafka_app = Ok kafka_app"
  by (induction kvs arbitrary: i)
     (simp_all add: resolve_pass_def kafka_app_def empty_application_def substitute_def resolveCmdVariables_def
       reference_def resolve_no_commands)

lemmas resolve_kafka' = resolve_kafka [unfolded kafka_app_def empty_application_def, simplified]

lemma kafka_run_Ok: "fst (Application_Run kafka_env 3 (kafka_run NewVariables)) = Ok ()"
  by (simp add: Application_Run_def run_steps_def resolve_def resolveVariables_def All_def NewVariables_def
      ensure_def ensure_strings.simps executeCommands_def launch_def runMarathon_def runTasks_def fillContext_def
      kafka_run_def kafka_env_def kafka_app_def empty_application_def kafka_registered Kafka_FillContext_def
      fill_endpoint_def endpoint_def createApplication_def GetInstances_def getContainer_def
      awaitRunningAndHealthy_def checkRunningAndHealthy_def numeral_eq_Suc empty_resolved resolve_kafka')

theorem run_publishes_endpoint_witness:
  "Get (vars (snd (Application_Run kafka_env 3 (kafka_run NewVariables)))) ''kafka.api'' = Ok ''http://h:7''"
proof -
  let ?out = "Application_Run kafka_env 3 (kafka_run NewVariables)"
  have out: "?out = (Ok (), snd ?out)" using kafka_run_Ok by (metis prod.collapse)
  have env: "TaskRunners kafka_env = taskRunners silent_http"
    "marathon_tasks kafka_env i w = (Ok (Some [\<lparr>Host = ''h'', TaskPorts = [7]\<rparr>]), w)" for i w
    by (simp_all add: kafka_env_def)
  have app: "ID (app (kafka_run NewVariables)) = ''kafka''" "Type (app (kafka_run NewVariables)) = ''kafka-mesos-0.9.x''"
    by (simp_all add: kafka_run_def kafka_app_def)
  have "Itoa 7 = ''7''" by code_simp
  moreover have "TaskRunners kafka_env (Type (app (kafka_run NewVariables))) \<noteq> None"
    by (simp only: env app kafka_registered) simp
  ultimately show ?thesis
    using run_publishes_endpoint [OF env(1) _ out] unfolding env(2) app by auto
qed

section \<open>What the requests carry\<close>

lemma select_values_law:
  assumes "distinct (map fst params)"
  shows "map_of (fold (\<lambda>(k, v) vs. if sel k then values_Set k v vs else vs) params vs) =
           map_of vs ++ (\<lambda>k. if sel k then map_option (\<lambda>v. [v]) (map_of params k) else None)"
  using assms
proof (induction params arbitrary: vs)
  case Nil
  then show ?case by (simp add: fun_eq_iff map_add_def)
next
  case (Cons p params)
  obtain k v where p: "p = (k, v)" by (cases p)
  from Cons.prems p have "map_of params k = None" by (auto simp: map_of_eq_None_iff)
  with Cons p show ?case
    by (auto simp: fun_eq_iff map_add_def values_Set_def split: option.splits)
qed

lemma distinct_select_values:
  "distinct (map fst vs) \<Longrightarrow>
     distinct (map fst (fold (\<lambda>(k, v) vs. if sel k then values_Set k v vs else vs) params vs))"
  by (induction params arbitrary: vs) (auto simp: values_Set_def)

lemma value_pairs_map_of:
  assumes "distinct (map fst vs)"
  shows "set (value_pairs vs) = {(k, v). \<exists>l. map_of vs k = Some l \<and> v \<in> set l}"
  using assms by (auto simp: value_pairs_set)

lemma sent_select:
  assumes "distinct (map fst params)"
  shows "set (ParseQuery (Encode (select_values sel params))) = {(k, v) \<in> set params. sel k}"
proof -
  have d: "distinct (map fst (select_values sel params))"
    by (simp add: select_values_def distinct_select_values)
  have "map_of (select_values sel params) =
          (\<lambda>k. if sel k then map_option (\<lambda>v. [v]) (map_of params k) else None)"
    by (simp add: select_values_def select_values_law [OF assms])
  then show ?thesis
    using assms by (auto simp: parse_Encode value_pairs_map_of [OF d] split: if_splits)
qed

text \<open>A request does not depend on the order in which the parameters are visited.\<close>

lemma select_any_order:
  assumes "mset params = mset params'" and "distinct (map fst params)"
  shows "Encode (select_values sel params) = Encode (select_values sel params')"
proof (rule Encode_cong)
  from assms have d: "distinct (map fst params')"
    by (metis mset_eq_imp_distinct_iff mset_map)
  show "map_of (select_values sel params) = map_of (select_values sel params')"
    unfolding select_values_def select_values_law [OF assms(2)] select_values_law [OF d] map_of_permute [OF assms] ..
qed (simp_all add: select_values_def distinct_select_values)

text \<open>The names Kafka uses for a task and the two parts of its parameters.\<close>

definition kafka_name :: "string \<Rightarrow> string" where
  "kafka_name k = (if k = ''id'' then ''broker'' else k)"

lemma kafka_add_select:
  "''broker'' \<notin> fst ` set params \<Longrightarrow>
     kafka_add_values params = select_values (\<lambda>k. k \<noteq> ''timeout'') (map (apfst kafka_name) params)"
proof -
  have "kafka_name k = ''timeout'' \<longleftrightarrow> k = ''timeout''" for k by (simp add: kafka_name_def)
  then have step: "(\<lambda>(k, v) vs. if k = ''timeout'' then vs else if k = ''id'' then values_Set ''broker'' v vs
      else values_Set k v vs) =
    (\<lambda>p. (\<lambda>(k, v) vs. if k \<noteq> ''timeout'' then values_Set k v vs else vs) (apfst kafka_name p))"
    by (auto simp: fun_eq_iff kafka_name_def)
  show ?thesis
    by (simp only: kafka_add_values_def select_values_def fold_map step comp_def)
qed

lemma kafka_start_select:
  "kafka_start_values params =
     select_values (\<lambda>k. k = ''broker'' \<or> k = ''timeout'') (map (apfst kafka_name) (filter (\<lambda>p. fst p \<noteq> ''broker'') params))"
  by (induction params rule: rev_induct)
     (auto simp: kafka_start_values_def select_values_def kafka_name_def Let_def)

lemma kafka_names_distinct:
  assumes "distinct (map fst params)" and "''broker'' \<notin> fst ` set params"
  shows "distinct (map fst (map (apfst kafka_name) params))"
proof -
  have "inj_on kafka_name (fst ` set params)"
    using assms(2) unfolding inj_on_def kafka_name_def by metis
  with assms(1) have "inj_on (kafka_name \<circ> fst) (set params)"
    by (simp add: distinct_map comp_inj_on)
  with assms(1) show ?thesis by (simp add: distinct_map comp_def)
qed

lemma add_is_set:
  assumes "distinct (map fst params)"
  shows "fold (\<lambda>(k, v). values_Add k v) params [] = select_values (\<lambda>k. True) params"
  using assms
proof (induction params rule: rev_induct)
  case Nil
  then show ?case by (simp add: select_values_def)
next
  case (snoc p params)
  obtain k v where p: "p = (k, v)" by (cases p)
  from snoc.prems p have d: "distinct (map fst params)" and k: "map_of params k = None"
    by (auto simp: map_of_eq_None_iff)
  have "map_of (select_values (\<lambda>k. True) params) k = None"
    using select_values_law [OF d, of "\<lambda>k. True" "[]"] k by (simp add: select_values_def)
  with snoc.IH [OF d] p show ?case
    by (simp add: select_values_def values_Add_def values_Set_def)
qed

text \<open>A log of the requested URLs, and the query of a URL.\<close>

definition records :: "(string list) http_api \<Rightarrow> bool" where
  "records H \<longleftrightarrow> (\<forall>u w. snd (http_Get H u w) = w @ [u])"

definition query_of :: "string \<Rightarrow> (string \<times> string) list" where
  "query_of u = ParseQuery (drop 1 (dropWhile (\<lambda>c. c \<noteq> CHR ''?'') u))"

lemma query_of_append: "CHR ''?'' \<notin> set a \<Longrightarrow> query_of (a @ CHR ''?'' # q) = ParseQuery q"
  by (simp only: query_of_def drop_key not_False_eq_True simp_thms One_nat_def drop_Suc_Cons drop_0)

lemma query_of_none: "CHR ''?'' \<notin> set a \<Longrightarrow> query_of a = []"
proof -
  assume "CHR ''?'' \<notin> set a"
  then have "dropWhile (\<lambda>c. c \<noteq> CHR ''?'') a = []" by (induction a) auto
  then show ?thesis by (simp only: query_of_def) (simp add: ParseQuery_def)
qed

lemma get_checked_log:
  "records H \<Longrightarrow> get_checked H check u w = (r, w') \<Longrightarrow> w' = w @ [u]"
  unfolding get_checked_def call_then_def records_def
  by (cases "http_Get H u w") (auto split: result.splits dest!: spec [of _ u] spec [of _ w])

lemma call_then_Ok:
  "call_then f g w = (Ok y, w') \<longleftrightarrow> (\<exists>x v. f w = (Ok x, v) \<and> g x v = (Ok y, w'))"
  by (auto simp: call_then_def split: prod.splits result.splits)

lemma call_context_Ok:
  "call_context f fill c w = (Ok (), c', w') \<Longrightarrow> \<exists>x. f w = (Ok x, w')"
  by (auto simp: call_context_def split: prod.splits result.splits)

lemma run_requests:
  assumes "with_api c a (\<lambda>api. call_context (f api) (fill api) c) w = (Ok (), c', w')"
    and "Get c (ID a @ ''.api'') = Ok api"
  shows "\<exists>x. f api w = (Ok x, w')"
  using assms call_context_Ok by (auto simp: with_api_def MustGet_def)

lemma two_requests:
  assumes "records H"
    and "call_then (get_checked H c1 u1) (\<lambda>_. get_checked H c2 u2) w = (Ok x, w')"
  shows "w' = w @ [u1, u2]"
  using assms(2) by (auto simp: call_then_Ok dest!: get_checked_log [OF assms(1)])

lemma three_requests:
  assumes "records H"
    and "call_then (get_checked H c1 u1) (\<lambda>_. call_then (get_checked H c2 u2) (\<lambda>_. get_checked H c3 u3)) w = (Ok x, w')"
  shows "w' = w @ [u1, u2, u3]"
  using assms(2) by (auto simp: call_then_Ok dest!: get_checked_log [OF assms(1)])

lemma request_query:
  assumes "CHR ''?'' \<notin> set api" and "CHR ''?'' \<notin> set path" and "distinct (map fst params)"
  shows "set (query_of (api @ path @ CHR ''?'' # Encode (select_values sel params))) =
           {(k, v) \<in> set params. sel k}"
  using query_of_append [of "api @ path"] sent_select [OF assms(3)] assms(1,2) by simp

text \<open>The log of a task whose parameters all reached the framework, under the names
  \<open>name\<close> gives them.\<close>

definition delivered :: "(string \<Rightarrow> string) \<Rightarrow> string \<Rightarrow> (string \<times> string) list \<Rightarrow> string list \<Rightarrow> bool" where
  "delivered name api task urls \<longleftrightarrow>
     (\<Union>u \<in> set urls. set (query_of u)) = apfst name ` set task \<and> list_all (\<lambda>u. HasPrefix u api) urls"

lemma kafka_delivers:
  assumes log: "records H" and plain: "CHR ''?'' \<notin> set api" and keys: "distinct (map fst task)"
    and run: "call_then (Kafka_Add H api task) (\<lambda>_. Kafka_Start H api task) w = (Ok x, w')"
    and broker: "''broker'' \<notin> fst ` set task"
  shows "\<exists>urls. w' = w @ urls \<and> delivered kafka_name api task urls"
proof -
  let ?ps = "map (apfst kafka_name) task"
  have d: "distinct (map fst ?ps)" by (rule kafka_names_distinct [OF keys broker])
  have f: "filter (\<lambda>p. fst p \<noteq> ''broker'') task = task"
    using broker by (force simp: filter_id_conv)
  let ?u1 = "api @ ''/api/broker/add?'' @ Encode (kafka_add_values task)"
  let ?u2 = "api @ ''/api/broker/start?'' @ Encode (kafka_start_values task)"
  have "w' = w @ [?u1, ?u2]"
    by (rule two_requests [OF log run [unfolded Kafka_Add_def Kafka_Start_def]])
  moreover have "set (query_of ?u1) = {(k, v) \<in> set ?ps. k \<noteq> ''timeout''}"
    using request_query [OF plain _ d, of "''/api/broker/add''"] kafka_add_select [OF broker] by simp
  moreover have "set (query_of ?u2) = {(k, v) \<in> set ?ps. k = ''broker'' \<or> k = ''timeout''}"
    using request_query [OF plain _ d, of "''/api/broker/start''"] kafka_start_select [of task] f by simp
  ultimately show ?thesis
    by (intro exI [of _ "[?u1, ?u2]"]) (auto simp: HasPrefix_def delivered_def)
qed

lemma gokafka_delivers:
  assumes log: "records H" and plain: "CHR ''?'' \<notin> set api" and keys: "distinct (map fst task)"
    and run: "call_then (GoKafka_Add H api task) (\<lambda>_. call_then (GoKafka_Update H api task)
      (\<lambda>_. GoKafka_Start H api task)) w = (Ok x, w')"
  shows "\<exists>urls. w' = w @ urls \<and> delivered id api task urls"
proof -
  let ?u = "\<lambda>path sel. api @ path @ CHR ''?'' # Encode (select_values sel task)"
  let ?urls = "[?u ''/api/add'' gokafka_add_key, ?u ''/api/update'' gokafka_update_key,
                ?u ''/api/start'' start_key]"
  have q: "CHR ''?'' \<notin> set path \<Longrightarrow> set (query_of (?u path sel)) = {(k, v) \<in> set task. sel k}" for path sel
    by (rule request_query [OF plain _ keys])
  have "w' = w @ ?urls"
    using three_requests [OF log] run
    unfolding GoKafka_Add_def GoKafka_Update_def GoKafka_Start_def by simp
  moreover have "gokafka_add_key k \<or> gokafka_update_key k \<or> start_key k" for k
    by (auto simp: gokafka_add_key_def gokafka_update_key_def start_key_def)
  then have "delivered id api task ?urls"
    using q [of "''/api/add''" gokafka_add_key] q [of "''/api/update''" gokafka_update_key]
      q [of "''/api/start''" start_key]
    by (auto simp: delivered_def HasPrefix_def)
  ultimately show ?thesis by blast
qed

lemma update_delivers:
  assumes log: "records H" and plain: "CHR ''?'' \<notin> set api" and keys: "distinct (map fst task)"
    and run: "call_then (get_checked H c1 (api @ ''/api/update?'' @ Encode (select_values (\<lambda>k. True) task)))
      (\<lambda>_. get_checked H c2 (api @ ''/api/start'')) w = (Ok x, w')"
  shows "\<exists>urls. w' = w @ urls \<and> delivered id api task urls"
proof -
  let ?u1 = "api @ ''/api/update?'' @ Encode (select_values (\<lambda>k. True) task)"
  let ?u2 = "api @ ''/api/start''"
  have "w' = w @ [?u1, ?u2]" by (rule two_requests [OF log run])
  moreover have "set (query_of ?u1) = set task"
    using request_query [OF plain _ keys, of "''/api/update''" "\<lambda>k. True"] by simp
  moreover have "query_of ?u2 = []" using plain by (intro query_of_none) simp
  ultimately show ?thesis
    by (intro exI [of _ "[?u1, ?u2]"]) (simp add: HasPrefix_def delivered_def)
qed

lemma dse02x_delivers:
  assumes log: "records H" and plain: "CHR ''?'' \<notin> set api" and keys: "distinct (map fst task)"
    and run: "call_then (DSE02x_AddCluster H api task) (\<lambda>_. call_then (DSE02x_Add H api task)
      (\<lambda>_. DSE02x_Start H api task)) w = (Ok x, w')"
  shows "\<exists>urls. w' = w @ urls \<and> delivered id api task urls"
proof -
  let ?u = "\<lambda>path. api @ path @ CHR ''?'' # Encode (select_values (\<lambda>k. True) task)"
  let ?urls = "[?u ''/api/cluster/add'', ?u ''/api/node/add'', ?u ''/api/node/start'']"
  have q: "CHR ''?'' \<notin> set path \<Longrightarrow> set (query_of (?u path)) = set task" for path
    using request_query [OF plain _ keys, of path "\<lambda>k. True"] by simp
  have "w' = w @ ?urls"
    using three_requests [OF log] run
    unfolding DSE02x_AddCluster_def DSE02x_Add_def DSE02x_Start_def DSE02x_doGet_def add_is_set [OF keys]
    by simp
  moreover have "delivered id api task ?urls"
    using q [of "''/api/cluster/add''"] q [of "''/api/node/add''"] q [of "''/api/node/start''"]
    by (simp add: delivered_def HasPrefix_def)
  ultimately show ?thesis by blast
qed

text \<open>C21: Every parameter of a task reaches the framework. When a task of a Kafka, DSE 0.2,
  Statsd, Syslog or Go Kafka client application succeeds, the queries of the requests
  that were sent, read back with a standard parser, hold together exactly the parameters
  of the task, whatever characters they contain and in whatever order the map was
  visited; Kafka calls the identifier \<open>broker\<close>. All requests went to the endpoint of
  the framework.\<close>
theorem task_parameters_delivered:
  assumes "records H" and "taskRunners H t = Some R"
    and "t \<in> set [''kafka-mesos-0.9.x'', ''dse-mesos-0.2.x'', ''statsd-mesos-0.1.x'',
                   ''syslog-mesos-0.1.x'', ''go-kafka-client-mesos-0.3.x'']"
    and "distinct (map fst task)" and "t = ''kafka-mesos-0.9.x'' \<longrightarrow> ''broker'' \<notin> fst ` set task"
    and "Get c (ID a @ ''.api'') = Ok api" and "CHR ''?'' \<notin> set api"
    and "RunTask R c a task w = (Ok (), c', w')"
  shows "\<exists>urls. w' = w @ urls \<and>
    (\<Union>u \<in> set urls. set (query_of u)) =
      apfst (if t = ''kafka-mesos-0.9.x'' then kafka_name else id) ` set task \<and>
    list_all (\<lambda>u. HasPrefix u api) urls"
proof -
  from assms(3) have "t = ''kafka-mesos-0.9.x'' \<or> t = ''dse-mesos-0.2.x'' \<or>
      t = ''statsd-mesos-0.1.x'' \<or> t = ''syslog-mesos-0.1.x'' \<or> t = ''go-kafka-client-mesos-0.3.x''"
    by (simp only: list.set insert_iff empty_iff simp_thms)
  then have "\<exists>urls. w' = w @ urls \<and>
    delivered (if t = ''kafka-mesos-0.9.x'' then kafka_name else id) api task urls"
  proof (elim disjE)
    assume t: "t = ''kafka-mesos-0.9.x''"
    with assms(2,8) have "Kafka_RunTask H c a task w = (Ok (), c', w')" by (auto simp: taskRunners_def)
    from run_requests [OF this [unfolded Kafka_RunTask_def] assms(6)] show ?thesis
      using kafka_delivers [OF assms(1,7,4)] assms(5) t by auto
  next
    assume t: "t = ''dse-mesos-0.2.x''"
    with assms(2,8) have "DSE02x_RunTask H c a task w = (Ok (), c', w')" by (auto simp: taskRunners_def)
    from run_requests [OF this [unfolded DSE02x_RunTask_def] assms(6)] show ?thesis
      using dse02x_delivers [OF assms(1,7,4)] t by auto
  next
    assume t: "t = ''statsd-mesos-0.1.x''"
    with assms(2,8) have "Statsd_RunTask H c a task w = (Ok (), c', w')" by (auto simp: taskRunners_def)
    from run_requests [OF this [unfolded Statsd_RunTask_def Statsd_Update_def Statsd_Start_def] assms(6)]
    show ?thesis using update_delivers [OF assms(1,7,4)] t by auto
  next
    assume t: "t = ''syslog-mesos-0.1.x''"
    with assms(2,8) have "Syslog_RunTask H c a task w = (Ok (), c', w')" by (auto simp: taskRunners_def)
    from run_requests [OF this [unfolded Syslog_RunTask_def Syslog_Update_def Syslog_Start_def] assms(6)]
    show ?thesis using update_delivers [OF assms(1,7,4)] t by auto
  next
    assume t: "t = ''go-kafka-client-mesos-0.3.x''"
    with assms(2,8) have "GoKafka_RunTask H c a task w = (Ok (), c', w')" by (auto simp: taskRunners_def)
    from run_requests [OF this [unfolded GoKafka_RunTask_def] assms(6)] show ?thesis
      using gokafka_delivers [OF assms(1,7,4)] t by auto
  qed
  then show ?thesis unfolding delivered_def .
qed

definition log_http :: "(string list) http_api" where
  "log_http =
     \<lparr>http_Get = (\<lambda>u w. (Ok (200, Ok []), w @ [u])), http_Post = (\<lambda>u t b w. (Ok (200, Ok []), w @ [u])),
      marshal = (\<lambda>x. Ok []), unmarshal_object = (\<lambda>b. Ok [(''Success'', JBool True)]),
      unmarshal_cluster = (\<lambda>b. Ok None), unmarshal_status = (\<lambda>b. Ok None),
      unmarshal_tasks = (\<lambda>b. Ok []), unmarshal_start = (\<lambda>b. Ok None),
      ParseFloat = (\<lambda>s. Ok NaN), now = (\<lambda>w. 0), sleep = (\<lambda>d w. w), show_duration = (\<lambda>d. [])\<rparr>"

definition broker_task :: "(string \<times> string) list" where
  "broker_task = [(''id'', ''0..2''), (''heap'', ''1 & more''), (''timeout'', ''10m'')]"

definition kafka_vars :: Variables where
  "kafka_vars = SetStackVariable ''kafka.api'' ''http://h:7000'' NewVariables"

theorem task_parameters_delivered_witness:
  "\<exists>urls. snd (snd (Kafka_RunTask log_http kafka_vars kafka_app broker_task [])) = urls \<and>
     (\<Union>u \<in> set urls. set (query_of u)) =
       {(''broker'', ''0..2''), (''heap'', ''1 & more''), (''timeout'', ''10m'')} \<and>
     list_all (\<lambda>u. HasPrefix u ''http://h:7000'') urls"
proof -
  let ?R = "\<lparr>FillContext = Kafka_FillContext, RunTask = Kafka_RunTask log_http\<rparr>"
  have "fst (Kafka_RunTask log_http kafka_vars kafka_app broker_task []) = Ok ()" by code_simp
  then have run: "RunTask ?R kafka_vars kafka_app broker_task [] =
      (Ok (), fst (snd (Kafka_RunTask log_http kafka_vars kafka_app broker_task [])),
       snd (snd (Kafka_RunTask log_http kafka_vars kafka_app broker_task [])))"
    by (metis TaskRunner.select_convs(2) prod.collapse)
  have keys: "distinct (map fst broker_task)" "''broker'' \<notin> fst ` set broker_task"
    by (simp_all add: broker_task_def)
  have api: "Get kafka_vars (ID kafka_app @ ''.api'') = Ok ''http://h:7000''"
    by (simp add: kafka_vars_def kafka_app_def Get_def SetStackVariable_def NewVariables_def)
  have "\<exists>urls. snd (snd (Kafka_RunTask log_http kafka_vars kafka_app broker_task [])) = [] @ urls \<and>
     (\<Union>u \<in> set urls. set (query_of u)) =
       apfst (if ''kafka-mesos-0.9.x'' = ''kafka-mesos-0.9.x'' then kafka_name else id) ` set broker_task \<and>
     list_all (\<lambda>u. HasPrefix u ''http://h:7000'') urls"
    by (rule task_parameters_delivered [OF _ _ _ keys(1) _ api _ run])
       (simp_all add: records_def log_http_def taskRunners_def keys(2))
  then show ?thesis by (simp add: broker_task_def kafka_name_def)
qed

section \<open>Waiting\<close>

lemma poll_loop_terminates:
  fixes m :: "'w \<Rightarrow> nat"
  assumes "\<And>w w'. poll w = (None, w') \<Longrightarrow> m w' < m w"
  shows "\<exists>y. poll_loop poll w = Some y"
proof (induction "m w" arbitrary: w rule: less_induct)
  case less
  obtain out w' where p: "poll w = (out, w')" by fastforce
  show ?case
  proof (cases out)
    case None
    with p assms less have "\<exists>y. poll_loop poll w' = Some y" by blast
    with p None show ?thesis by (metis poll_loop_step)
  next
    case (Some r)
    with p show ?thesis by (metis poll_loop_stop)
  qed
qed

lemma poll_loop_None: "poll_loop poll w = None \<longleftrightarrow> (\<forall>n. fst (poll (before_poll poll n w)) = None)"
proof
  assume none: "poll_loop poll w = None"
  show "\<forall>n. fst (poll (before_poll poll n w)) = None"
  proof
    fix n show "fst (poll (before_poll poll n w)) = None"
    proof (induction n rule: less_induct)
      case (less n)
      show ?case
      proof (rule ccontr)
        assume "fst (poll (before_poll poll n w)) \<noteq> None"
        then obtain r where r: "fst (poll (before_poll poll n w)) = Some r" by blast
        with less have "polls_to poll w n (r, snd (poll (before_poll poll n w)))"
          by (auto simp: polls_to_def prod_eq_iff)
        with none polls_to_returns show False by (metis option.distinct(1))
      qed
    qed
  qed
next
  assume never: "\<forall>n. fst (poll (before_poll poll n w)) = None"
  show "poll_loop poll w = None"
  proof (rule ccontr)
    assume "poll_loop poll w \<noteq> None"
    then obtain y where "poll_loop poll w = Some y" by blast
    from poll_loop_returns [OF this] never show False
      unfolding polls_to_def by (metis fst_conv option.distinct(1))
  qed
qed

text \<open>A complete ensemble: every server has reported, and each of them sees as many members
  serving as there are servers.\<close>

definition serving :: "exhibitorStatus \<Rightarrow> nat" where
  "serving st =
     length (filter (\<lambda>p. \<exists>zk. p = Some zk \<and> zk_Description zk = ''serving'') (ex_ClusterView st))"

definition sees_serving :: "nat \<Rightarrow> exhibitorStatus \<Rightarrow> bool" where
  "sees_serving n st \<longleftrightarrow> None \<notin> set (ex_ClusterView st) \<and> serving st = n"

definition ensemble_complete :: "exhibitorClusterStatus \<Rightarrow> bool" where
  "ensemble_complete cluster \<longleftrightarrow>
     (\<exists>sts. ex_ServerStatuses cluster = map Some sts \<and> (\<forall>st \<in> set sts. sees_serving (length sts) st))"

text \<open>An incomplete one: the first server that does not see all of them sees another number.\<close>

definition ensemble_incomplete :: "exhibitorClusterStatus \<Rightarrow> bool" where
  "ensemble_incomplete cluster \<longleftrightarrow>
     (\<exists>sts st rest n. ex_ServerStatuses cluster = map Some sts @ Some st # rest \<and>
        (\<forall>x \<in> set sts. sees_serving (length (ex_ServerStatuses cluster)) x) \<and>
        sees_serving n st \<and> n \<noteq> length (ex_ServerStatuses cluster))"

text \<open>The \<open>n\<close>-th look at the status, ten seconds after the one before it.\<close>

fun status_look :: "'w http_api \<Rightarrow> string \<Rightarrow> 'w \<Rightarrow> nat \<Rightarrow> exhibitorClusterStatus option result \<times> 'w" where
  "status_look H api w 0 = Exhibitor_Status H api (sleep H 10000000000 w)"
| "status_look H api w (Suc n) = status_look H api (snd (status_look H api w 0)) n"

definition still_waiting :: "'w http_api \<Rightarrow> string \<Rightarrow> 'w \<Rightarrow> nat \<Rightarrow> bool" where
  "still_waiting H api w n \<longleftrightarrow>
     (\<exists>cluster. fst (status_look H api w n) = Ok (Some cluster) \<and> ensemble_incomplete cluster)"

lemma count_serving_Ok:
  "count_serving ps = Ok n \<longleftrightarrow>
     None \<notin> set ps \<and> n = length (filter (\<lambda>p. \<exists>zk. p = Some zk \<and> zk_Description zk = ''serving'') ps)"
  by (induction ps arbitrary: n) (auto simp: deref_def and_then_Ok_iff map_result_Ok_iff split: option.splits)

lemma count_serving_sees: "count_serving (ex_ClusterView st) = Ok n \<longleftrightarrow> sees_serving n st"
  by (auto simp: count_serving_Ok sees_serving_def serving_def)

lemma all_serving_True:
  "all_serving n ps = Ok True \<longleftrightarrow> (\<exists>sts. ps = map Some sts \<and> (\<forall>st \<in> set sts. sees_serving n st))"
proof (induction ps)
  case (Cons p ps)
  then show ?case
    by (cases p) (auto simp: deref_def and_then_Ok_iff count_serving_sees Cons_eq_map_conv)
qed simp

lemma all_serving_False:
  "all_serving n ps = Ok False \<longleftrightarrow>
     (\<exists>sts st rest m. ps = map Some sts @ Some st # rest \<and> (\<forall>x \<in> set sts. sees_serving n x) \<and>
        sees_serving m st \<and> m \<noteq> n)" (is "_ \<longleftrightarrow> ?R ps")
proof (induction ps)
  case (Cons p ps)
  have tail: "?R (p # ps) \<longleftrightarrow>
      (\<exists>st m. p = Some st \<and> sees_serving m st \<and> (m \<noteq> n \<or> m = n \<and> ?R ps))" (is "_ \<longleftrightarrow> ?S")
  proof
    assume "?R (p # ps)"
    then obtain sts st rest m where *: "p # ps = map Some sts @ Some st # rest"
      "\<forall>x \<in> set sts. sees_serving n x" "sees_serving m st" "m \<noteq> n" by blast
    then show ?S by (cases sts) auto
  next
    assume ?S
    then obtain st m where p: "p = Some st" "sees_serving m st" and "m \<noteq> n \<or> m = n \<and> ?R ps" by blast
    then consider "m \<noteq> n" | "m = n" "?R ps" by blast
    then show "?R (p # ps)"
    proof cases
      case 1
      with p show ?thesis by (intro exI [of _ "[]"] exI [of _ st] exI [of _ ps]) auto
    next
      case 2
      then obtain sts x rest k where "ps = map Some sts @ Some x # rest"
        "\<forall>y \<in> set sts. sees_serving n y" "sees_serving k x" "k \<noteq> n" by blast
      with p 2(1) show ?thesis by (intro exI [of _ "st # sts"] exI [of _ x] exI [of _ rest]) auto
    qed
  qed
  have "all_serving n (p # ps) = Ok False \<longleftrightarrow>
      (\<exists>st m. p = Some st \<and> sees_serving m st \<and> (m \<noteq> n \<or> m = n \<and> all_serving n ps = Ok False))"
    by (cases p) (auto simp: deref_def and_then_Ok_iff count_serving_sees)
  then show ?case unfolding tail Cons.IH .
qed simp

lemma serving_no_Err: "count_serving vs \<noteq> Err e" "all_serving n ps \<noteq> Err e"
proof -
  show count: "count_serving vs \<noteq> Err e" for vs
  proof (induction vs)
    case (Cons v vs)
    then show ?case by (cases v; cases "count_serving vs") (simp_all add: deref_def)
  qed simp
  show "all_serving n ps \<noteq> Err e"
  proof (induction ps)
    case (Cons p ps)
    then show ?case
      using count [of "ex_ClusterView (the p)"]
      by (cases p; cases "count_serving (ex_ClusterView (the p))") (auto simp: deref_def)
  qed simp
qed

lemma zookeeper_ready_iff:
  "zookeeper_ready status = Ok True \<longleftrightarrow> (\<exists>cluster. status = Some cluster \<and> ensemble_complete cluster)"
  "zookeeper_ready status = Ok False \<longleftrightarrow> (\<exists>cluster. status = Some cluster \<and> ensemble_incomplete cluster)"
  "zookeeper_ready status \<noteq> Err e"
  by (cases status;
      auto simp: zookeeper_ready_def deref_def all_serving_True all_serving_False serving_no_Err
        ensemble_complete_def ensemble_incomplete_def)+

text \<open>One iteration of the loop, by what it saw.\<close>

lemma zookeeper_poll_look:
  "fst (zookeeper_poll H api w) = None \<longleftrightarrow> still_waiting H api w 0"
  "zookeeper_poll H api w = (Some (Ok ()), w') \<longleftrightarrow>
     (\<exists>cluster. status_look H api w 0 = (Ok (Some cluster), w') \<and> ensemble_complete cluster)"
  "zookeeper_poll H api w = (Some (Err e), w') \<longleftrightarrow> status_look H api w 0 = (Err e, w')"
  "snd (zookeeper_poll H api w) = snd (status_look H api w 0)"
proof -
  obtain r v where look: "Exhibitor_Status H api (sleep H 10000000000 w) = (r, v)"
    by (cases "Exhibitor_Status H api (sleep H 10000000000 w)")
  then have poll: "zookeeper_poll H api w =
      (case and_then r zookeeper_ready of
         Ok True \<Rightarrow> (Some (Ok ()), v) | Ok False \<Rightarrow> (None, v) | Err e \<Rightarrow> (Some (Err e), v) | Panic e \<Rightarrow> (Some (Panic e), v))"
    by (simp add: zookeeper_poll_def call_then_def split: result.splits)
  have ready: "ensemble_complete c \<longleftrightarrow> zookeeper_ready (Some c) = Ok True"
    "ensemble_incomplete c \<longleftrightarrow> zookeeper_ready (Some c) = Ok False" for c
    by (simp_all add: zookeeper_ready_iff)
  obtain p where nil: "zookeeper_ready None = Panic p" by (simp add: zookeeper_ready_def deref_def)
  show "fst (zookeeper_poll H api w) = None \<longleftrightarrow> still_waiting H api w 0"
  proof (cases r)
    case (Ok status)
    then show ?thesis
      by (cases status) (auto simp: poll look still_waiting_def ready nil split: result.splits bool.splits)
  qed (simp_all add: poll look still_waiting_def)
  show "zookeeper_poll H api w = (Some (Ok ()), w') \<longleftrightarrow>
     (\<exists>cluster. status_look H api w 0 = (Ok (Some cluster), w') \<and> ensemble_complete cluster)"
  proof (cases r)
    case (Ok status)
    then show ?thesis by (cases status) (auto simp: poll look ready nil split: result.splits bool.splits)
  qed (simp_all add: poll look)
  show "zookeeper_poll H api w = (Some (Err e), w') \<longleftrightarrow> status_look H api w 0 = (Err e, w')"
    using zookeeper_ready_iff(3) by (cases r) (auto simp: poll look split: result.splits bool.splits)
  show "snd (zookeeper_poll H api w) = snd (status_look H api w 0)"
    by (auto simp: poll look split: result.splits bool.splits)
qed

lemma before_poll_look: "status_look H api (before_poll (zookeeper_poll H api) n w) 0 = status_look H api w n"
  by (induction n arbitrary: w) (simp_all add: zookeeper_poll_look(4))

lemma before_poll_waiting:
  "still_waiting H api (before_poll (zookeeper_poll H api) n w) 0 \<longleftrightarrow> still_waiting H api w n"
  unfolding still_waiting_def before_poll_look ..

lemma zookeeper_polls_to:
  "polls_to (zookeeper_poll H api) w n y \<longleftrightarrow>
     (\<forall>i < n. still_waiting H api w i) \<and>
     zookeeper_poll H api (before_poll (zookeeper_poll H api) n w) = (Some (fst y), snd y)"
  by (simp add: polls_to_def zookeeper_poll_look(1) before_poll_waiting)

text \<open>C40: Waiting for ZooKeeper. The wait succeeds exactly when, after looks at incomplete
  ensembles only, one look shows every server seeing as many serving members as there are
  servers; it fails with an error exactly when, after such looks, asking for the status
  fails with that error; and it never returns exactly when every look succeeds and shows
  an incomplete ensemble, since the loop has no limit.\<close>
theorem zookeeper_await:
  "(AwaitZookeeperRunning H api w = Some (Ok (), w') \<longleftrightarrow>
      (\<exists>n cluster. (\<forall>i < n. still_waiting H api w i) \<and>
         status_look H api w n = (Ok (Some cluster), w') \<and> ensemble_complete cluster)) \<and>
   (AwaitZookeeperRunning H api w = Some (Err e, w') \<longleftrightarrow>
      (\<exists>n. (\<forall>i < n. still_waiting H api w i) \<and> status_look H api w n = (Err e, w'))) \<and>
   (AwaitZookeeperRunning H api w = None \<longleftrightarrow> (\<forall>n. still_waiting H api w n))"
proof (intro conjI)
  show "AwaitZookeeperRunning H api w = None \<longleftrightarrow> (\<forall>n. still_waiting H api w n)"
    by (simp add: AwaitZookeeperRunning_def poll_loop_None zookeeper_poll_look(1) before_poll_waiting)
qed (simp_all add: AwaitZookeeperRunning_def poll_loop_iff zookeeper_polls_to zookeeper_poll_look(2,3)
      before_poll_look del: status_look.simps)

text \<open>An ensemble of one server, which serves from the second look on, or never.\<close>

definition ensemble_http :: "bool \<Rightarrow> nat http_api" where
  "ensemble_http starts =
     \<lparr>http_Get = (\<lambda>u w. (Ok (200, Ok (if starts \<and> w > 0 then ''up'' else ''down'')), Suc w)),
      http_Post = (\<lambda>u t b w. (Ok (200, Ok []), w)),
      marshal = (\<lambda>x. Ok []), unmarshal_object = (\<lambda>b. Ok []), unmarshal_cluster = (\<lambda>b. Ok None),
      unmarshal_status = (\<lambda>b. Ok (Some \<lparr>ex_Success = True, ex_Message = [],
        ex_Value = Some \<lparr>ex_ServerStatuses = [Some \<lparr>ex_Server = None, ex_ClusterView =
          [Some \<lparr>zk_Hostname = ''h'', zk_IsLeader = True,
            zk_Description = (if b = ''up'' then ''serving'' else ''down''), zk_Code = 0\<rparr>]\<rparr>]\<rparr>\<rparr>)),
      unmarshal_tasks = (\<lambda>b. Ok []), unmarshal_start = (\<lambda>b. Ok None),
      ParseFloat = (\<lambda>s. Ok NaN), now = (\<lambda>w. 0), sleep = (\<lambda>d w. w), show_duration = (\<lambda>d. [])\<rparr>"

lemma ensemble_look:
  "status_look (ensemble_http starts) api w n =
     (Ok (Some \<lparr>ex_ServerStatuses = [Some \<lparr>ex_Server = None, ex_ClusterView =
        [Some \<lparr>zk_Hostname = ''h'', zk_IsLeader = True,
          zk_Description = (if starts \<and> w + n > 0 then ''serving'' else ''down''), zk_Code = 0\<rparr>]\<rparr>]\<rparr>), Suc (w + n))"
  by (induction n arbitrary: w)
     (simp_all add: Exhibitor_Status_def get_checked_def call_then_def Exhibitor_checkResponse_def ensemble_http_def deref_def)

lemma ensemble_waits: "still_waiting (ensemble_http starts) api w n \<longleftrightarrow> \<not> (starts \<and> w + n > 0)"
  by (auto simp: still_waiting_def ensemble_look ensemble_incomplete_def sees_serving_def serving_def
      Cons_eq_append_conv)

theorem zookeeper_await_witness:
  "AwaitZookeeperRunning (ensemble_http True) ''a'' 0 = Some (Ok (), 2) \<and>
   AwaitZookeeperRunning (ensemble_http False) ''a'' 0 = None"
proof
  show "AwaitZookeeperRunning (ensemble_http False) ''a'' 0 = None"
    using zookeeper_await [of "ensemble_http False" "''a''" 0] by (simp add: ensemble_waits)
  have "ensemble_complete \<lparr>ex_ServerStatuses = map Some [\<lparr>ex_Server = None, ex_ClusterView =
      [Some \<lparr>zk_Hostname = ''h'', zk_IsLeader = True, zk_Description = ''serving'', zk_Code = 0\<rparr>]\<rparr>]\<rparr>"
    unfolding ensemble_complete_def exhibitorClusterStatus.select_convs
    by (rule exI, rule conjI, rule refl) (simp add: sees_serving_def serving_def)
  then have "\<exists>n cluster. (\<forall>i < n. still_waiting (ensemble_http True) ''a'' 0 i) \<and>
      status_look (ensemble_http True) ''a'' 0 n = (Ok (Some cluster), 2) \<and> ensemble_complete cluster"
    unfolding ensemble_look ensemble_waits by (intro exI [of _ 1]) simp
  with zookeeper_await [of "ensemble_http True" "''a''" 0 2] show
    "AwaitZookeeperRunning (ensemble_http True) ''a'' 0 = Some (Ok (), 2)" by blast
qed

text \<open>Waiting for Elasticsearch ends. When time passes (a sleep of \<open>d\<close> advances the clock
  by at least \<open>d\<close>, and requests do not turn it back), the wait returns, and it
  succeeds only after a look that showed at least one task and all of them running.\<close>

lemma elastic_poll_running:
  assumes "elastic_poll H api await backoff started v = (Some (Ok ()), v')"
  shows "\<exists>ts. GetTasks H api v = (Ok ts, v') \<and> ts \<noteq> [] \<and> tasks_running ts = Ok True"
  using assms
  by (auto simp: elastic_poll_def split: if_splits prod.splits result.splits bool.splits)

lemma GetTasks_clock:
  assumes "\<And>u v. now H v \<le> now H (snd (http_Get H u v))"
  shows "now H v \<le> now H (snd (GetTasks H api v))"
  using assms [of v "api @ ''/v1/tasks''"]
  by (auto simp: GetTasks_def get_checked_def call_then_def split: prod.splits result.splits)

theorem elastic_await_returns:
  assumes "0 < backoff" and "\<And>d v. now H v + d \<le> now H (sleep H d v)"
    and "\<And>u v. now H v \<le> now H (snd (http_Get H u v))"
  shows "\<exists>r v. AwaitRunning H api await backoff w = Some (r, v) \<and>
    (r = Ok () \<longrightarrow> (\<exists>u ts. GetTasks H api u = (Ok ts, v) \<and> ts \<noteq> [] \<and> tasks_running ts = Ok True))"
proof (cases "await \<le> 0")
  case True
  then show ?thesis by (simp add: AwaitRunning_def)
next
  case False
  let ?poll = "elastic_poll H api await backoff (now H w)"
  have "nat (now H w + await - now H v') < nat (now H w + await - now H v)" if "?poll v = (None, v')" for v v'
  proof -
    from that have early: "now H v < now H w + await"
      and v': "v' = sleep H backoff (snd (GetTasks H api v))"
      by (auto simp: elastic_poll_def split: if_splits prod.splits result.splits bool.splits)
    from GetTasks_clock [OF assms(3)] assms(2) have "now H v + backoff \<le> now H v'"
      unfolding v' by (meson add_mono_thms_linordered_semiring(3) order_trans)
    with early assms(1) show ?thesis by simp
  qed
  then have "\<exists>y. poll_loop ?poll w = Some y" by (rule poll_loop_terminates)
  then obtain r v where y: "poll_loop ?poll w = Some (r, v)" by auto
  from poll_loop_returns [OF y] obtain u where "?poll u = (Some r, v)" by (auto simp: polls_to_def)
  with y False elastic_poll_running show ?thesis by (fastforce simp: AwaitRunning_def)
qed

end
