(* ===== verification/Stack.thy ===== *)
theory Stack
  imports Deployment
begin

text \<open>
  Stacks and their inheritance (src/framework/stack.go, src/framework/layer.go and the
  setters of src/framework/util.go): the merge of a child into its parent, validation,
  and layers.  Merging is modelled on values: in the Cassandra storage every stack is
  decoded afresh, so that the parent and the child share nothing with other stacks.
\<close>

section \<open>Data\<close>

text \<open>A nil application pointer, which an empty YAML entry gives, is \<open>None\<close>.\<close>

record Stack =
  Namespace :: string
  Name :: string
  From :: string
  Applications :: "(string, Application option) gomap"
  Layer :: int

definition empty_stack :: Stack where
  "empty_stack = \<lparr>Namespace = [], Name = [], From = [], Applications = None, Layer = 0\<rparr>"

definition Stack_ID :: "Stack \<Rightarrow> string" where
  "Stack_ID s = Namespace s @ ''.'' @ Name s"

section \<open>Merging\<close>

definition setString :: "string \<Rightarrow> string \<Rightarrow> string" where
  "setString from to = (if from \<noteq> [] then from else to)"

definition setStringSlice :: "string list \<Rightarrow> string list \<Rightarrow> string list" where
  "setStringSlice from to = (if length from > 0 then from else to)"

definition setIntSlice :: "int list \<Rightarrow> int list \<Rightarrow> int list" where
  "setIntSlice from to = (if length from > 0 then from else to)"

definition setFloat :: "float64 \<Rightarrow> float64 \<Rightarrow> float64" where
  "setFloat from to = (if \<not> feq from (Fin 0) then from else to)"

text \<open>One scheduler option of the child: an empty value deletes the option, and a map
  is made when the parent has none.\<close>

fun set_scheduler :: "string \<times> string \<Rightarrow> (string, string) gomap \<Rightarrow> (string, string) gomap" where
  "set_scheduler (k, v) m =
     (if v = [] then mdel k m
      else (case m of None \<Rightarrow> Some [(k, v)] | Some es \<Rightarrow> Some (AList.update k v es)))"

text \<open>The body of the loop for an application that both stacks have.\<close>

definition merge_application :: "Application \<Rightarrow> Application \<Rightarrow> Application" where
  "merge_application child a =
     a\<lparr>ID := setString (ID child) (ID a),
       Version := setString (Version child) (Version a),
       Cpu := setFloat (Cpu child) (Cpu a),
       Mem := setFloat (Mem child) (Mem a),
       Ports := setIntSlice (Ports child) (Ports a),
       User := setString (User child) (User a),
       Healthcheck := setString (Healthcheck child) (Healthcheck a),
       LaunchCommand := setString (LaunchCommand child) (LaunchCommand a),
       ArtifactURLs := setStringSlice (ArtifactURLs child) (ArtifactURLs a),
       AdditionalArtifacts := setStringSlice (AdditionalArtifacts child) (AdditionalArtifacts a),
       Dependencies := setStringSlice (Dependencies child) (Dependencies a),
       Scheduler := fold set_scheduler (entries (Scheduler child)) (Scheduler a),
       Tasks := (if length (Tasks child) > 0 then Tasks child else Tasks a),
       BeforeScheduler := setStringSlice (BeforeScheduler child) (BeforeScheduler a),
       AfterScheduler := setStringSlice (AfterScheduler child) (AfterScheduler a),
       BeforeTask := setStringSlice (BeforeTask child) (BeforeTask a),
       AfterTask := setStringSlice (AfterTask child) (AfterTask a),
       AfterTasks := setStringSlice (AfterTasks child) (AfterTasks a)\<rparr>"

definition merge_entry ::
    "string \<times> Application option \<Rightarrow> (string, Application option) gomap
     \<Rightarrow> (string, Application option) gomap result" where
  "merge_entry entry apps =
     (case entry of (name, childApp) \<Rightarrow>
        (case mget apps name of
           None \<Rightarrow> mput name childApp apps
         | Some a \<Rightarrow>
             (case (childApp, a) of
                (Some c, Some p) \<Rightarrow> mput name (Some (merge_application c p)) apps
              | _ \<Rightarrow> Panic nil_dereference)))"

fun merge_loop ::
    "(string \<times> Application option) list \<Rightarrow> (string, Application option) gomap
     \<Rightarrow> (string, Application option) gomap result" where
  "merge_loop [] apps = Ok apps"
| "merge_loop (e # es) apps = and_then (merge_entry e apps) (\<lambda>apps'. merge_loop es apps')"

definition Merge :: "Stack \<Rightarrow> Stack \<Rightarrow> Stack result" where
  "Merge s child =
     map_result (\<lambda>apps. s\<lparr>Name := Name child, Applications := apps\<rparr>)
       (merge_loop (entries (Applications child)) (Applications s))"

section \<open>Validation\<close>

fun validate_loop ::
    "regexp \<Rightarrow> (string \<Rightarrow> bool) \<Rightarrow> (string \<times> Application option) list \<Rightarrow> unit result" where
  "validate_loop rx runners [] = Ok ()"
| "validate_loop rx runners ((name, a) # es) =
     (case a of
        None \<Rightarrow> Panic nil_dereference
      | Some a \<Rightarrow>
          (case Application_Validate rx runners a of
             Ok _ \<Rightarrow> validate_loop rx runners es
           | Err e \<Rightarrow> Err (''Invalid application '' @ name @ '': '' @ e)
           | Panic e \<Rightarrow> Panic e))"

definition Stack_Validate :: "regexp \<Rightarrow> (string \<Rightarrow> bool) \<Rightarrow> Stack \<Rightarrow> unit result" where
  "Stack_Validate rx runners s = validate_loop rx runners (entries (Applications s))"

section \<open>Layers\<close>

definition LayerZone :: int where "LayerZone = 0"
definition LayerCluster :: int where "LayerCluster = 1"
definition LayerDataCenter :: int where "LayerDataCenter = 2"
definition LayerStack :: int where "LayerStack = 3"

record Layer_t =
  Level :: int
  LayerStack_of :: Stack

definition NewDataCenter :: "Stack \<Rightarrow> Layer_t" where
  "NewDataCenter s = \<lparr>Level = LayerDataCenter, LayerStack_of = s\<rparr>"

definition NewCluster :: "Stack \<Rightarrow> Layer_t" where
  "NewCluster s = \<lparr>Level = LayerCluster, LayerStack_of = s\<rparr>"

definition NewZone :: "Stack \<Rightarrow> Layer_t" where
  "NewZone s = \<lparr>Level = LayerZone, LayerStack_of = s\<rparr>"

definition NewLayer :: "Stack \<Rightarrow> Layer_t option" where
  "NewLayer s =
     (if Layer s = LayerZone then Some (NewZone s)
      else if Layer s = LayerCluster then Some (NewCluster s)
      else if Layer s = LayerDataCenter then Some (NewDataCenter s)
      else None)"

definition Layer_Merge :: "Layer_t \<Rightarrow> Layer_t \<Rightarrow> Layer_t result" where
  "Layer_Merge l other =
     (if Level l < Level other
      then Err (''Can'' @ [CHR 0x27] @ ''t merge layer level '' @ Itoa (Level l) @
                '' with level '' @ Itoa (Level other))
      else map_result (\<lambda>s. l\<lparr>LayerStack_of := s\<rparr>) (Merge (LayerStack_of l) (LayerStack_of other)))"

section \<open>Chains\<close>

text \<open>Merging a chain of stacks, the root first: what the recursion of the Cassandra
  \<open>GetStack\<close> does.\<close>

fun merge_all :: "Stack \<Rightarrow> Stack list \<Rightarrow> Stack result" where
  "merge_all s [] = Ok s"
| "merge_all s (c # cs) = and_then (Merge s c) (\<lambda>s'. merge_all s' cs)"

text \<open>The definitions of one application along a chain.\<close>

fun app_of :: "string \<Rightarrow> Stack \<Rightarrow> Application option" where
  "app_of n s = (case mget (Applications s) n of Some (Some a) \<Rightarrow> Some a | _ \<Rightarrow> None)"

definition app_defs :: "Stack list \<Rightarrow> string \<Rightarrow> Application list" where
  "app_defs stacks n = List.map_filter (app_of n) stacks"

fun overlay :: "Application list \<Rightarrow> Application option" where
  "overlay [] = None"
| "overlay (a # as) = Some (fold merge_application as a)"

text \<open>A stack as the decoder gives it: one entry per application, none of them nil.\<close>

definition stack_ok :: "Stack \<Rightarrow> bool" where
  "stack_ok s \<longleftrightarrow> map_ok (Applications s) \<and> None \<notin> snd ` set (entries (Applications s))"

text \<open>The last value of a list that is given, or else a default; a text or a list is
  given when it is not empty, a number when it is not zero.\<close>

definition nearest :: "('a \<Rightarrow> bool) \<Rightarrow> 'a list \<Rightarrow> 'a \<Rightarrow> 'a" where
  "nearest given xs x = (case rev (filter given xs) of [] \<Rightarrow> x | y # _ \<Rightarrow> y)"

definition given_list :: "'a list \<Rightarrow> bool" where
  "given_list xs \<longleftrightarrow> xs \<noteq> []"

definition given_number :: "float64 \<Rightarrow> bool" where
  "given_number x \<longleftrightarrow> \<not> feq x (Fin 0)"

section \<open>Lemmas on the merge\<close>

lemma mget_set_scheduler:
  "mget (set_scheduler (k, v) m) =
     (if v = [] then (mget m)(k := None) else (mget m)(k \<mapsto> v))"
  by (cases m) (auto simp: mdel_def)

lemma mget_fold_scheduler:
  "distinct (map fst es) \<Longrightarrow>
     mget (fold set_scheduler es m) k =
       (case map_of es k of None \<Rightarrow> mget m k | Some v \<Rightarrow> if v = [] then None else Some v)"
proof (induction es arbitrary: m)
  case Nil
  then show ?case by simp
next
  case (Cons e es)
  obtain k' v where e: "e = (k', v)" by (cases e)
  with Cons.prems have "map_of es k' = None" and "distinct (map fst es)"
    by (auto simp: map_of_eq_None_iff)
  with Cons.IH [of "set_scheduler (k', v) m"] show ?case
    by (auto simp: e mget_set_scheduler simp del: set_scheduler.simps split: option.split)
qed

lemma merge_entry_mget:
  assumes "merge_entry (n, c) m = Ok m'"
  shows "mget m' = (mget m)(n \<mapsto> (case mget m n of
      None \<Rightarrow> c | Some p \<Rightarrow> Some (merge_application (the c) (the p))))"
  using assms by (cases m) (auto simp: merge_entry_def mput_def split: option.splits)

lemma merge_loop_mget:
  assumes "merge_loop es m = Ok m'" and "distinct (map fst es)"
  shows "mget m' n = (case map_of es n of
      None \<Rightarrow> mget m n
    | Some c \<Rightarrow> Some (case mget m n of
        None \<Rightarrow> c | Some p \<Rightarrow> Some (merge_application (the c) (the p))))"
  using assms
proof (induction es arbitrary: m)
  case Nil
  then show ?case by simp
next
  case (Cons e es)
  obtain k c where e: "e = (k, c)" by (cases e)
  from Cons.prems e obtain m1 where m1: "merge_entry (k, c) m = Ok m1"
    and r: "merge_loop es m1 = Ok m'" by (auto simp: and_then_Ok_iff)
  from Cons.prems e have "map_of es k = None" and d: "distinct (map fst es)"
    by (auto simp: map_of_eq_None_iff)
  with Cons.IH [OF r d] merge_entry_mget [OF m1] show ?case
    by (auto simp: e split: option.split)
qed

lemma merge_entry_map_ok: "merge_entry e m = Ok m' \<Longrightarrow> map_ok m \<Longrightarrow> map_ok m'"
  by (cases m)
     (auto simp: merge_entry_def mput_def split: option.splits prod.splits)

lemma merge_loop_map_ok: "merge_loop es m = Ok m' \<Longrightarrow> map_ok m \<Longrightarrow> map_ok m'"
  by (induction es arbitrary: m) (auto simp: and_then_Ok_iff dest: merge_entry_map_ok)

lemma stack_ok_iff:
  "stack_ok s \<longleftrightarrow> map_ok (Applications s) \<and> (\<forall>n. mget (Applications s) n \<noteq> Some None)"
  by (cases "Applications s") (force simp: stack_ok_def image_iff)+

lemma merge_entry_total:
  assumes "mget (Some ps) n \<noteq> Some None"
  shows "\<exists>qs. merge_entry (n, Some c) (Some ps) = Ok (Some qs)"
  using assms by (auto simp: merge_entry_def mput_def split: option.splits)

lemma merge_loop_total:
  assumes "\<forall>n. map_of es n \<noteq> Some None" and "\<forall>n. map_of ps n \<noteq> Some None"
    and "distinct (map fst es)"
  shows "\<exists>qs. merge_loop es (Some ps) = Ok (Some qs)"
  using assms
proof (induction es arbitrary: ps)
  case Nil
  then show ?case by simp
next
  case (Cons e es)
  obtain n c where e: "e = (n, c)" by (cases e)
  with Cons.prems(1) obtain c' where c: "c = Some c'" by (cases c) (auto dest: spec [of _ n])
  from Cons.prems e have es: "\<forall>n. map_of es n \<noteq> Some None" "distinct (map fst es)"
    by (auto split: if_splits)
  from merge_entry_total [of ps n c'] Cons.prems(2) obtain qs where
    q: "merge_entry (n, Some c') (Some ps) = Ok (Some qs)" by auto
  have "\<forall>k. map_of qs k \<noteq> Some None"
  proof
    fix k
    show "map_of qs k \<noteq> Some None"
      using fun_cong [OF merge_entry_mget [OF q], of k] Cons.prems(2)
      by (auto split: option.splits if_splits)
  qed
  with Cons.IH [OF es(1) _ es(2)] q show ?case by (simp add: e c)
qed

lemma Merge_Ok:
  assumes "Merge s c = Ok s'" and "stack_ok s" and "stack_ok c"
  shows "stack_ok s'" and "app_of n s' = overlay (app_defs [s, c] n)"
    and "Name s' = Name c" and "From s' = From s" and "Layer s' = Layer s"
proof -
  from assms(1) obtain m where m: "merge_loop (entries (Applications c)) (Applications s) = Ok m"
    and s': "s' = s\<lparr>Name := Name c, Applications := m\<rparr>"
    by (auto simp: Merge_def map_result_Ok_iff)
  from assms have d: "distinct (map fst (entries (Applications c)))"
    by (simp add: stack_ok_def map_ok_def)
  note get = merge_loop_mget [OF m d]
  have eq: "map_of (entries (Applications c)) n = mget (Applications c) n" for n
    by (simp add: mget_def)
  show "app_of n s' = overlay (app_defs [s, c] n)"
    using assms(2,3) unfolding stack_ok_iff
    by (auto simp: s' get eq app_defs_def List.map_filter_simps split: option.splits)
  show "stack_ok s'"
    using assms(2,3) merge_loop_map_ok [OF m] unfolding stack_ok_iff
    by (auto simp: s' get eq split: option.splits) (metis not_None_eq)
qed (use assms(1) in \<open>auto simp: Merge_def map_result_Ok_iff\<close>)

lemma Merge_total:
  assumes "stack_ok s" and "stack_ok c" and "Applications s \<noteq> None"
  shows "\<exists>s'. Merge s c = Ok s' \<and> Applications s' \<noteq> None"
proof -
  from assms(3) obtain ps where ps: "Applications s = Some ps" by auto
  from assms(1,2) have "\<exists>qs. merge_loop (entries (Applications c)) (Some ps) = Ok (Some qs)"
    unfolding stack_ok_iff by (intro merge_loop_total) (auto simp: ps mget_def map_ok_def)
  with ps show ?thesis by (auto simp: Merge_def)
qed

lemma overlay_append:
  "overlay (as @ bs) = (case overlay as of None \<Rightarrow> overlay bs | Some a \<Rightarrow> overlay (a # bs))"
  by (cases as) simp_all

lemma app_defs_Cons:
  "app_defs (s # ss) n = (case app_of n s of None \<Rightarrow> [] | Some a \<Rightarrow> [a]) @ app_defs ss n"
  by (simp add: app_defs_def List.map_filter_simps del: app_of.simps split: option.split)

lemma merge_all_Ok:
  assumes "merge_all s cs = Ok s'" and "stack_ok s" and "list_all stack_ok cs"
  shows "stack_ok s' \<and> app_of n s' = overlay (app_defs (s # cs) n) \<and>
    Name s' = Name (last (s # cs)) \<and> From s' = From s \<and> Layer s' = Layer s"
  using assms
proof (induction cs arbitrary: s)
  case Nil
  then show ?case
    by (simp add: app_defs_Cons app_defs_def List.map_filter_simps del: app_of.simps
        split: option.split)
next
  case (Cons c cs)
  then obtain t where t: "Merge s c = Ok t" and r: "merge_all t cs = Ok s'"
    by (auto simp: and_then_Ok_iff)
  from Cons.prems have "stack_ok c" by simp
  note M = Merge_Ok [OF t Cons.prems(2) this]
  from Cons.IH [OF r M(1)] Cons.prems(3) have
    IH: "stack_ok s' \<and> app_of n s' = overlay (app_defs (t # cs) n) \<and>
      Name s' = Name (last (t # cs)) \<and> From s' = From t \<and> Layer s' = Layer t" by simp
  have "overlay (app_defs (t # cs) n) = overlay (app_defs (s # c # cs) n)"
    by (auto simp: app_defs_Cons M(2) overlay_append app_defs_def List.map_filter_simps
        simp del: app_of.simps split: option.split)
  with IH M(3-5) show ?case by auto
qed

lemma merge_all_total:
  assumes "stack_ok s" and "list_all stack_ok cs" and "Applications s \<noteq> None"
  shows "\<exists>s'. merge_all s cs = Ok s' \<and> Applications s' \<noteq> None"
  using assms
proof (induction cs arbitrary: s)
  case Nil
  then show ?case by simp
next
  case (Cons c cs)
  then obtain t where t: "Merge s c = Ok t" "Applications t \<noteq> None"
    using Merge_total [of s c] by auto
  moreover have "stack_ok t" using Merge_Ok(1) [OF t(1)] Cons.prems by simp
  ultimately show ?case using Cons.IH [of t] Cons.prems by simp
qed

lemma fold_nearest: "fold (\<lambda>c x. if given c then c else x) xs x = nearest given xs x"
proof (induction xs rule: rev_induct)
  case Nil
  show ?case by (simp add: nearest_def)
next
  case (snoc y ys)
  then show ?case by (simp add: nearest_def split: list.splits)
qed

lemma nearest_field:
  assumes "\<And>c a. f (merge_application c a) = (if given (f c) then f c else f a)"
  shows "f (fold merge_application as a) = nearest given (map f as) (f a)"
proof -
  have "f (fold merge_application as a) = fold (\<lambda>c x. if given c then c else x) (map f as) (f a)"
    by (induction as arbitrary: a) (simp_all add: assms)
  then show ?thesis by (simp add: fold_nearest)
qed

lemmas setter_defs = setString_def setStringSlice_def setIntSlice_def setFloat_def
  given_list_def given_number_def

lemma nearest_texts:
  fixes a :: Application and as :: "Application list"
  defines "b \<equiv> fold merge_application as a"
  shows "ID b = nearest given_list (map ID as) (ID a)"
    and "Version b = nearest given_list (map Version as) (Version a)"
    and "User b = nearest given_list (map User as) (User a)"
    and "Healthcheck b = nearest given_list (map Healthcheck as) (Healthcheck a)"
    and "LaunchCommand b = nearest given_list (map LaunchCommand as) (LaunchCommand a)"
    and "Cpu b = nearest given_number (map Cpu as) (Cpu a)"
    and "Mem b = nearest given_number (map Mem as) (Mem a)"
  unfolding b_def
  by (rule nearest_field; simp add: merge_application_def setter_defs)+

lemma nearest_lists:
  fixes a :: Application and as :: "Application list"
  defines "b \<equiv> fold merge_application as a"
  shows "Ports b = nearest given_list (map Ports as) (Ports a)"
    and "ArtifactURLs b = nearest given_list (map ArtifactURLs as) (ArtifactURLs a)"
    and "AdditionalArtifacts b = nearest given_list (map AdditionalArtifacts as) (AdditionalArtifacts a)"
    and "Dependencies b = nearest given_list (map Dependencies as) (Dependencies a)"
    and "Tasks b = nearest given_list (map Tasks as) (Tasks a)"
    and "BeforeScheduler b = nearest given_list (map BeforeScheduler as) (BeforeScheduler a)"
    and "AfterScheduler b = nearest given_list (map AfterScheduler as) (AfterScheduler a)"
    and "BeforeTask b = nearest given_list (map BeforeTask as) (BeforeTask a)"
    and "AfterTask b = nearest given_list (map AfterTask as) (AfterTask a)"
    and "AfterTasks b = nearest given_list (map AfterTasks as) (AfterTasks a)"
  unfolding b_def
  by (rule nearest_field; simp add: merge_application_def setter_defs)+

text \<open>The fields the merge never writes.\<close>

definition unmerged :: "Application \<Rightarrow> _" where
  "unmerged a = (Type a, Instances a, Constraints a, Args a, Env a, DockerSpec a, StartTime a,
     TimeSchedule a)"

lemma unmerged_fold: "unmerged (fold merge_application as a) = unmerged a"
  by (induction as arbitrary: a) (simp_all add: unmerged_def merge_application_def)

definition mentioned :: "string \<Rightarrow> Application list \<Rightarrow> string list" where
  "mentioned k as = List.map_filter (\<lambda>a. mget (Scheduler a) k) as"

lemma scheduler_fold:
  assumes "list_all (\<lambda>c. map_ok (Scheduler c)) as"
  shows "mget (Scheduler (fold merge_application as a)) k =
    (case rev (mentioned k as) of
       [] \<Rightarrow> mget (Scheduler a) k
     | v # _ \<Rightarrow> if v = [] then None else Some v)"
  using assms
proof (induction as rule: rev_induct)
  case Nil
  show ?case by (simp add: mentioned_def List.map_filter_simps)
next
  case (snoc c as)
  let ?a = "fold merge_application as a"
  have "mget (Scheduler (merge_application c ?a)) k =
      (case mget (Scheduler c) k of None \<Rightarrow> mget (Scheduler ?a) k
       | Some v \<Rightarrow> if v = [] then None else Some v)"
    using snoc.prems mget_fold_scheduler [of "entries (Scheduler c)" "Scheduler ?a" k]
    by (simp add: merge_application_def map_ok_def mget_def)
  with snoc show ?case
    by (auto simp: mentioned_def List.map_filter_def split: option.splits)
qed

lemma is_ok_iff: "is_ok r \<longleftrightarrow> (\<exists>x. r = Ok x)"
  by (cases r) auto

lemma ParseConstraints_is_ok:
  "is_ok (ParseConstraints rx raws) \<longleftrightarrow>
     (\<forall>r \<in> set raws. r \<noteq> [] \<and> is_ok (ParseConstraint rx (tl r)))"
  by (simp add: ParseConstraints_def parse_loop_is_ok)

lemma validate_loop_iff:
  "validate_loop rx runners es = Ok () \<longleftrightarrow>
     (\<forall>(n, a) \<in> set es. \<exists>b. a = Some b \<and> Application_Validate rx runners b = Ok ())"
  by (induction es) (auto split: option.splits result.splits)

section \<open>Properties\<close>

text \<open>C10: Inheritance gives the nearest definition. Merging a chain of stacks, root first,
  always succeeds when the root has an application map; in the result every application
  defined anywhere in the chain is present. Its ID, version, user, health check, launch
  command, CPU, memory, ports, artifacts, dependencies, tasks and the five lists of commands
  are each the last ones along the chain that are given (not empty, not zero); each scheduler
  option is the one of the last stack that mentions it, an empty value meaning that the option
  is removed; type, instances, constraints, arguments, environment, container and time
  schedule are those of the first stack that defines the application.\<close>
theorem inheritance_nearest:
  assumes "stack_ok base" and "list_all stack_ok cs" and "Applications base \<noteq> None"
    and "app_defs (base # cs) n = a # as" and "list_all (\<lambda>c. map_ok (Scheduler c)) as"
  shows "\<exists>s b. merge_all base cs = Ok s \<and> Name s = Name (last (base # cs)) \<and>
    app_of n s = Some b \<and>
    ID b = nearest given_list (map ID as) (ID a) \<and>
    Version b = nearest given_list (map Version as) (Version a) \<and>
    User b = nearest given_list (map User as) (User a) \<and>
    Healthcheck b = nearest given_list (map Healthcheck as) (Healthcheck a) \<and>
    LaunchCommand b = nearest given_list (map LaunchCommand as) (LaunchCommand a) \<and>
    Cpu b = nearest given_number (map Cpu as) (Cpu a) \<and>
    Mem b = nearest given_number (map Mem as) (Mem a) \<and>
    Ports b = nearest given_list (map Ports as) (Ports a) \<and>
    ArtifactURLs b = nearest given_list (map ArtifactURLs as) (ArtifactURLs a) \<and>
    AdditionalArtifacts b = nearest given_list (map AdditionalArtifacts as) (AdditionalArtifacts a) \<and>
    Dependencies b = nearest given_list (map Dependencies as) (Dependencies a) \<and>
    Tasks b = nearest given_list (map Tasks as) (Tasks a) \<and>
    BeforeScheduler b = nearest given_list (map BeforeScheduler as) (BeforeScheduler a) \<and>
    AfterScheduler b = nearest given_list (map AfterScheduler as) (AfterScheduler a) \<and>
    BeforeTask b = nearest given_list (map BeforeTask as) (BeforeTask a) \<and>
    AfterTask b = nearest given_list (map AfterTask as) (AfterTask a) \<and>
    AfterTasks b = nearest given_list (map AfterTasks as) (AfterTasks a) \<and>
    (\<forall>k. mget (Scheduler b) k =
       (case rev (mentioned k as) of
          [] \<Rightarrow> mget (Scheduler a) k
        | v # _ \<Rightarrow> if v = [] then None else Some v)) \<and>
    Type b = Type a \<and> Instances b = Instances a \<and> Constraints b = Constraints a \<and>
    Args b = Args a \<and> Env b = Env a \<and> DockerSpec b = DockerSpec a \<and>
    StartTime b = StartTime a \<and> TimeSchedule b = TimeSchedule a"
proof -
  from merge_all_total [OF assms(1-3)] obtain s where s: "merge_all base cs = Ok s" by blast
  let ?b = "fold merge_application as a"
  from merge_all_Ok [OF s assms(1,2), of n] assms(4)
  have b: "app_of n s = Some ?b" "Name s = Name (last (base # cs))" by simp_all
  have frozen: "Type ?b = Type a" "Instances ?b = Instances a" "Constraints ?b = Constraints a"
    "Args ?b = Args a" "Env ?b = Env a" "DockerSpec ?b = DockerSpec a" "StartTime ?b = StartTime a"
    "TimeSchedule ?b = TimeSchedule a"
    using unmerged_fold [of as a] by (simp_all add: unmerged_def)
  show ?thesis
    by (rule exI [of _ s], rule exI [of _ ?b], intro conjI allI s b frozen nearest_texts nearest_lists
        scheduler_fold [OF assms(5)])
qed

definition base_stack :: Stack where
  "base_stack = empty_stack\<lparr>Name := ''base'', Applications := Some
     [(''k'', Some (empty_application\<lparr>ID := ''kafka'', Instances := ''1'', LaunchCommand := ''run'',
         Scheduler := Some [(''zk'', ''z:2181''), (''debug'', ''true'')]\<rparr>))]\<rparr>"

definition dev_stack :: Stack where
  "dev_stack = empty_stack\<lparr>Name := ''dev'', From := ''base'', Applications := Some
     [(''k'', Some (empty_application\<lparr>Instances := ''all'', LaunchCommand := ''debug'',
         Scheduler := Some [(''debug'', [])]\<rparr>))]\<rparr>"

lemmas sample_stack_defs = base_stack_def dev_stack_def empty_stack_def empty_application_def

lemma sample_stacks_ok: "stack_ok base_stack" "stack_ok dev_stack"
  by (simp_all add: stack_ok_def sample_stack_defs)

theorem inheritance_nearest_witness:
  "\<exists>s b. merge_all base_stack [dev_stack] = Ok s \<and> Name s = ''dev'' \<and> app_of ''k'' s = Some b \<and>
     ID b = ''kafka'' \<and> LaunchCommand b = ''debug'' \<and>
     mget (Scheduler b) ''zk'' = Some ''z:2181'' \<and> mget (Scheduler b) ''debug'' = None"
proof -
  let ?a = "the (app_of ''k'' base_stack)" and ?c = "the (app_of ''k'' dev_stack)"
  have "app_defs [base_stack, dev_stack] ''k'' = [?a, ?c]"
    by (simp add: app_defs_def List.map_filter_simps sample_stack_defs)
  moreover have "list_all (\<lambda>c. map_ok (Scheduler c)) [?c]" by (simp add: sample_stack_defs)
  moreover have "Applications base_stack \<noteq> None" by (simp add: sample_stack_defs)
  ultimately obtain s b where r: "merge_all base_stack [dev_stack] = Ok s" "app_of ''k'' s = Some b"
    and n: "Name s = Name (last [base_stack, dev_stack])"
    and f: "ID b = nearest given_list (map ID [?c]) (ID ?a)"
      "LaunchCommand b = nearest given_list (map LaunchCommand [?c]) (LaunchCommand ?a)"
    and sch: "\<forall>k. mget (Scheduler b) k = (case rev (mentioned k [?c]) of
          [] \<Rightarrow> mget (Scheduler ?a) k | v # _ \<Rightarrow> if v = [] then None else Some v)"
    using inheritance_nearest [of base_stack "[dev_stack]" "''k''" ?a "[?c]"] sample_stacks_ok
    by auto
  from sch have "mget (Scheduler b) ''zk'' = Some ''z:2181''" "mget (Scheduler b) ''debug'' = None"
    by (simp_all add: mentioned_def List.map_filter_simps sample_stack_defs)
  moreover from n f have "Name s = ''dev''" "ID b = ''kafka''" "LaunchCommand b = ''debug''"
    by (simp_all add: nearest_def given_list_def sample_stack_defs)
  ultimately show ?thesis using r by blast
qed

text \<open>The settings that inheritance cannot change: type, instances, constraints,
  arguments, environment, container and time schedule of an application are those of the
  first stack of the chain that defines it, whatever the stacks further down say.\<close>
theorem inheritance_frozen:
  assumes "merge_all base cs = Ok s" and "stack_ok base" and "list_all stack_ok cs"
    and "app_defs (base # cs) n = a # as"
  shows "\<exists>b. app_of n s = Some b \<and> Type b = Type a \<and> Instances b = Instances a \<and>
    Constraints b = Constraints a \<and> Args b = Args a \<and> Env b = Env a \<and>
    DockerSpec b = DockerSpec a \<and> StartTime b = StartTime a \<and> TimeSchedule b = TimeSchedule a"
  using merge_all_Ok [OF assms(1-3), of n] unmerged_fold [of as a] assms(4)
  by (simp add: unmerged_def del: app_of.simps)

theorem inheritance_frozen_witness:
  "\<exists>s b. merge_all base_stack [dev_stack] = Ok s \<and> app_of ''k'' s = Some b \<and>
     Instances b = ''1'' \<and> Instances (the (app_of ''k'' dev_stack)) = ''all''"
proof -
  let ?a = "the (app_of ''k'' base_stack)" and ?c = "the (app_of ''k'' dev_stack)"
  obtain s where s: "merge_all base_stack [dev_stack] = Ok s"
    using merge_all_total [of base_stack "[dev_stack]"] sample_stacks_ok
    by (auto simp: base_stack_def)
  have "app_defs [base_stack, dev_stack] ''k'' = [?a, ?c]"
    by (simp add: app_defs_def List.map_filter_simps sample_stack_defs)
  with inheritance_frozen [OF s sample_stacks_ok(1), of "''k''" ?a "[?c]"] sample_stacks_ok
  obtain b where "app_of ''k'' s = Some b" "Instances b = Instances ?a" by auto
  moreover have "Instances ?a = ''1''" "Instances ?c = ''all''" by (simp_all add: sample_stack_defs)
  ultimately show ?thesis using s by auto
qed

text \<open>Merging an application into a stack without an application map panics (the
  assignment goes to a nil map): a layer or parent that defines no applications cannot
  be extended unless it was decoded to an empty, non-nil map.\<close>
theorem merge_into_nil_map_panics:
  assumes "Applications s = None" and "entries (Applications child) \<noteq> []"
  shows "Merge s child = Panic ''assignment to entry in nil map''"
  using assms by (cases "entries (Applications child)")
    (auto simp: Merge_def merge_entry_def mput_def split: prod.split)

theorem merge_into_nil_map_panics_witness:
  "Merge empty_stack dev_stack = Panic ''assignment to entry in nil map''"
  by (rule merge_into_nil_map_panics) (simp_all add: sample_stack_defs)

text \<open>A stack passes validation exactly when each of its applications has a type, a
  task runner for it if there are tasks, an ID, CPU and memory that are not at or below
  zero, a number of instances that is empty, \<open>all\<close> or a positive number, and
  constraints that parse.\<close>
theorem Stack_Validate_iff:
  "Stack_Validate rx runners s = Ok () \<longleftrightarrow>
     (\<forall>(n, p) \<in> set (entries (Applications s)). \<exists>a. p = Some a \<and>
        Type a \<noteq> [] \<and> (Tasks a = [] \<or> runners (Type a)) \<and> ID a \<noteq> [] \<and>
        \<not> fle (Cpu a) (Fin 0) \<and> \<not> fle (Mem a) (Fin 0) \<and>
        (Instances a \<in> {[], ''all''} \<or> (\<exists>k \<ge> 1. Atoi (Instances a) = Some k)) \<and>
        (\<forall>r \<in> set (Constraints a). r \<noteq> [] \<and> is_ok (ParseConstraint rx (tl r))))"
proof -
  have "Application_Validate rx runners a = Ok () \<longleftrightarrow>
      Type a \<noteq> [] \<and> (Tasks a = [] \<or> runners (Type a)) \<and> ID a \<noteq> [] \<and>
      \<not> fle (Cpu a) (Fin 0) \<and> \<not> fle (Mem a) (Fin 0) \<and>
      (Instances a \<in> {[], ''all''} \<or> (\<exists>k \<ge> 1. Atoi (Instances a) = Some k)) \<and>
      is_ok (ParseConstraints rx (Constraints a))" for a
    by (auto simp: Application_Validate_def is_ok_iff map_result_Ok_iff split: option.split)
  then show ?thesis
    unfolding Stack_Validate_def validate_loop_iff ParseConstraints_is_ok by simp
qed

theorem Stack_Validate_iff_witness:
  "Stack_Validate literal_regexp (\<lambda>_. False)
     (empty_stack\<lparr>Applications := Some [(''a'', Some (empty_application
        \<lparr>Type := ''t'', ID := ''a'', Cpu := Fin 1, Mem := Fin 1, Instances := ''3''\<rparr>))]\<rparr>) = Ok () \<and>
   Stack_Validate literal_regexp (\<lambda>_. False) base_stack \<noteq> Ok ()"
  unfolding Stack_Validate_iff using Atoi_3 by (simp add: sample_stack_defs)

end
