(* ===== verification/StateStorage.thy ===== *)
theory StateStorage
  imports Stack
begin

text \<open>
  The storage of run states (src/framework/state_storage.go): the interface, the
  in-memory implementation, and the Cassandra implementation over the queries it sends.
  The mutex of the in-memory storage makes its methods atomic.
\<close>

section \<open>Data and interface\<close>

datatype StackStatus = StackStatusStaging | StackStatusRunning | StackStatusFailed

record StackState =
  ss_Name :: string
  ss_Zone :: string
  Status :: StackStatus
  ss_Variables :: "Variables option"
  ss_Applications :: "(string \<times> ApplicationStatus) list"

definition newStackState :: "string \<Rightarrow> string \<Rightarrow> StackStatus \<Rightarrow> StackState" where
  "newStackState name zone status =
     \<lparr>ss_Name = name, ss_Zone = zone, Status = status, ss_Variables = None, ss_Applications = []\<rparr>"

definition ErrStackStateExists :: error where
  "ErrStackStateExists = ''Stack state already exists''"
definition ErrStackStateDoesNotExist :: error where
  "ErrStackStateDoesNotExist = ''Stack state does not exist''"

record 's StateStorage =
  SaveStackStatus :: "string \<Rightarrow> string \<Rightarrow> StackStatus \<Rightarrow> 's \<Rightarrow> unit result \<times> 's"
  SaveApplicationStatus ::
    "string \<Rightarrow> string \<Rightarrow> string \<Rightarrow> ApplicationStatus \<Rightarrow> 's \<Rightarrow> unit result \<times> 's"
  SaveStackVariables :: "string \<Rightarrow> string \<Rightarrow> Variables \<Rightarrow> 's \<Rightarrow> unit result \<times> 's"
  GetStackState :: "string \<Rightarrow> string \<Rightarrow> 's \<Rightarrow> StackState result"

section \<open>In memory\<close>

type_synonym state_map = "(string \<times> (string \<times> StackState) list) list"

definition find_state :: "state_map \<Rightarrow> string \<Rightarrow> string \<Rightarrow> StackState option" where
  "find_state m name zone =
     (case map_of m name of None \<Rightarrow> None | Some zones \<Rightarrow> map_of zones zone)"

definition put_state :: "string \<Rightarrow> string \<Rightarrow> StackState \<Rightarrow> state_map \<Rightarrow> state_map" where
  "put_state name zone st m =
     (case map_of m name of
        None \<Rightarrow> AList.update name [(zone, st)] m
      | Some zones \<Rightarrow> AList.update name (AList.update zone st zones) m)"

definition NewInMemoryStateStorage :: state_map where
  "NewInMemoryStateStorage = []"

text \<open>The map of a new stack is created before the zone is looked at.\<close>

definition mem_SaveStackStatus ::
    "string \<Rightarrow> string \<Rightarrow> StackStatus \<Rightarrow> state_map \<Rightarrow> unit result \<times> state_map" where
  "mem_SaveStackStatus name zone status m =
     (let m' = (case map_of m name of None \<Rightarrow> AList.update name [] m | Some _ \<Rightarrow> m)
      in case find_state m' name zone of
           Some _ \<Rightarrow> (Err ErrStackStateExists, m')
         | None \<Rightarrow> (Ok (), put_state name zone (newStackState name zone status) m'))"

definition mem_SaveApplicationStatus ::
    "string \<Rightarrow> string \<Rightarrow> string \<Rightarrow> ApplicationStatus \<Rightarrow> state_map \<Rightarrow> unit result \<times> state_map" where
  "mem_SaveApplicationStatus stack zone applicationName status m =
     (case find_state m stack zone of
        None \<Rightarrow> (Err ErrStackStateDoesNotExist, m)
      | Some st \<Rightarrow>
          (Ok (), put_state stack zone
             (st\<lparr>ss_Applications := AList.update applicationName status (ss_Applications st)\<rparr>) m))"

definition mem_SaveStackVariables ::
    "string \<Rightarrow> string \<Rightarrow> Variables \<Rightarrow> state_map \<Rightarrow> unit result \<times> state_map" where
  "mem_SaveStackVariables stack zone variables m =
     (case find_state m stack zone of
        None \<Rightarrow> (Err ErrStackStateDoesNotExist, m)
      | Some st \<Rightarrow> (Ok (), put_state stack zone (st\<lparr>ss_Variables := Some variables\<rparr>) m))"

definition mem_GetStackState :: "string \<Rightarrow> string \<Rightarrow> state_map \<Rightarrow> StackState result" where
  "mem_GetStackState stack zone m =
     (case find_state m stack zone of None \<Rightarrow> Err ErrStackStateDoesNotExist | Some st \<Rightarrow> Ok st)"

definition InMemoryStateStorage :: "state_map StateStorage" where
  "InMemoryStateStorage =
     \<lparr>SaveStackStatus = mem_SaveStackStatus, SaveApplicationStatus = mem_SaveApplicationStatus,
      SaveStackVariables = mem_SaveStackVariables, GetStackState = mem_GetStackState\<rparr>"

section \<open>Cassandra\<close>

text \<open>The statements of the storage, one function each on the state \<open>'c\<close> of the
  database.  The statuses travel as the numbers of their constants; a select delivers
  the rows that \<open>Scan\<close> yields, each with the error that \<open>RowData\<close> reports for it.\<close>

record 'c state_session =
  create_state_tables :: "'c \<Rightarrow> unit result \<times> 'c"
  insert_stack_state :: "string \<times> string \<Rightarrow> StackStatus \<Rightarrow> 'c \<Rightarrow> unit result \<times> 'c"
  insert_application_state ::
    "string \<times> string \<Rightarrow> string \<Rightarrow> ApplicationStatus \<Rightarrow> 'c \<Rightarrow> unit result \<times> 'c"
  insert_stack_variable ::
    "string \<times> string \<Rightarrow> string \<Rightarrow> string \<times> string \<Rightarrow> 'c \<Rightarrow> unit result \<times> 'c"
  select_stack_state :: "string \<times> string \<Rightarrow> 'c \<Rightarrow> StackStatus result"
  select_application_states ::
    "string \<times> string \<Rightarrow> 'c \<Rightarrow> ((string \<times> ApplicationStatus) \<times> error option) list"
  select_stack_variables ::
    "string \<times> string \<Rightarrow> 'c \<Rightarrow> ((string \<times> string \<times> string) \<times> error option) list"

definition cas_SaveStackStatus ::
    "'c state_session \<Rightarrow> string \<Rightarrow> string \<Rightarrow> StackStatus \<Rightarrow> 'c \<Rightarrow> unit result \<times> 'c" where
  "cas_SaveStackStatus S name zone status = insert_stack_state S (name, zone) status"

definition cas_SaveApplicationStatus ::
    "'c state_session \<Rightarrow> string \<Rightarrow> string \<Rightarrow> string \<Rightarrow> ApplicationStatus \<Rightarrow> 'c
     \<Rightarrow> unit result \<times> 'c" where
  "cas_SaveApplicationStatus S stack zone name status =
     insert_application_state S (stack, zone) name status"

text \<open>One of the three loops: it stops at the first error.\<close>

fun save_variables ::
    "'c state_session \<Rightarrow> string \<times> string \<Rightarrow> string \<Rightarrow> (string \<times> string) list \<Rightarrow> 'c
     \<Rightarrow> unit result \<times> 'c" where
  "save_variables S sz varType [] c = (Ok (), c)"
| "save_variables S sz varType ((k, v) # kvs) c =
     (case insert_stack_variable S sz k (v, varType) c of
        (Ok _, c') \<Rightarrow> save_variables S sz varType kvs c'
      | (r, c') \<Rightarrow> (r, c'))"

definition cas_SaveStackVariables ::
    "'c state_session \<Rightarrow> string \<Rightarrow> string \<Rightarrow> Variables \<Rightarrow> 'c \<Rightarrow> unit result \<times> 'c" where
  "cas_SaveStackVariables S stack zone vs c =
     (case save_variables S (stack, zone) ''global'' (globalVariables vs) c of
        (Ok _, c1) \<Rightarrow>
          (case save_variables S (stack, zone) ''arbitrary'' (arbitraryVariables vs) c1 of
             (Ok _, c2) \<Rightarrow> save_variables S (stack, zone) ''stack'' (stackVariables vs) c2
           | (r, c2) \<Rightarrow> (r, c2))
      | (r, c1) \<Rightarrow> (r, c1))"

fun read_applications ::
    "((string \<times> ApplicationStatus) \<times> error option) list \<Rightarrow> (string \<times> ApplicationStatus) list
     \<Rightarrow> (string \<times> ApplicationStatus) list result" where
  "read_applications [] m = Ok m"
| "read_applications (((name, status), None) # rows) m =
     read_applications rows (AList.update name status m)"
| "read_applications ((_, Some e) # rows) m = Err e"

fun read_variables ::
    "((string \<times> string \<times> string) \<times> error option) list \<Rightarrow> Variables \<Rightarrow> Variables result" where
  "read_variables [] vs = Ok vs"
| "read_variables ((_, Some e) # rows) vs = Err e"
| "read_variables (((key, val, varType), None) # rows) vs =
     (if varType = ''global'' then read_variables rows (SetGlobalVariable key val vs)
      else if varType = ''arbitrary'' then read_variables rows (SetArbitraryVariable key val vs)
      else if varType = ''stack'' then read_variables rows (SetStackVariable key val vs)
      else Panic (''Unknown stored variable type '' @ varType))"

definition cas_GetStackState ::
    "'c state_session \<Rightarrow> string \<Rightarrow> string \<Rightarrow> 'c \<Rightarrow> StackState result" where
  "cas_GetStackState S name zone c =
     and_then (select_stack_state S (name, zone) c) (\<lambda>status.
       and_then (read_applications (select_application_states S (name, zone) c) []) (\<lambda>apps.
         and_then (read_variables (select_stack_variables S (name, zone) c) NewVariables) (\<lambda>vs.
           Ok ((newStackState name zone status)
                 \<lparr>ss_Applications := apps, ss_Variables := Some vs\<rparr>))))"

definition CassandraStateStorage :: "'c state_session \<Rightarrow> 'c StateStorage" where
  "CassandraStateStorage S =
     \<lparr>SaveStackStatus = cas_SaveStackStatus S, SaveApplicationStatus = cas_SaveApplicationStatus S,
      SaveStackVariables = cas_SaveStackVariables S, GetStackState = cas_GetStackState S\<rparr>"

definition NewCassandraStateStorage ::
    "'c state_session \<Rightarrow> 'c \<Rightarrow> unit result \<times> 'c" where
  "NewCassandraStateStorage S c = create_state_tables S c"

section \<open>The contract\<close>

text \<open>What a deployment relies on: a saved application status is the one recorded, other
  applications keep theirs, and saving the variables changes no status.\<close>

locale state_storage =
  fixes SS :: "'s StateStorage"
    and recorded :: "'s \<Rightarrow> string \<times> string \<Rightarrow> string \<Rightarrow> ApplicationStatus option"
  assumes save_application:
      "SaveApplicationStatus SS stack zone a x s = (Ok (), s') \<Longrightarrow>
         recorded s' = (recorded s)((stack, zone) := (recorded s (stack, zone))(a \<mapsto> x))"
    and save_variables:
      "SaveStackVariables SS stack zone v s = (Ok (), s') \<Longrightarrow> recorded s' = recorded s"
begin

text \<open>Saving a series of statuses, as the receive loop of a deployment does.\<close>

lemma saved_status:
  "SaveApplicationStatus SS stack zone a x s = (Ok (), s1) \<Longrightarrow>
   SaveStackVariables SS stack zone v s1 = (Ok (), s2) \<Longrightarrow>
     recorded s2 (stack, zone) b = (if b = a then Some x else recorded s (stack, zone) b)"
  using save_application save_variables by simp

end

definition mem_recorded ::
    "state_map \<Rightarrow> string \<times> string \<Rightarrow> string \<Rightarrow> ApplicationStatus option" where
  "mem_recorded m sz a =
     (case find_state m (fst sz) (snd sz) of
        None \<Rightarrow> None | Some st \<Rightarrow> map_of (ss_Applications st) a)"

lemma find_put_state:
  "find_state (put_state n z st m) n' z' = (if n' = n \<and> z' = z then Some st else find_state m n' z')"
  by (auto simp: find_state_def put_state_def split: option.split)

interpretation mem: state_storage InMemoryStateStorage mem_recorded
  by unfold_locales
     (auto simp: InMemoryStateStorage_def mem_SaveApplicationStatus_def mem_SaveStackVariables_def
       mem_recorded_def find_put_state fun_eq_iff split: option.splits if_splits)

lemma mem_saved_status:
  "mem_SaveStackStatus name zone x m = (Ok (), m') \<Longrightarrow>
     find_state m' name zone = Some (newStackState name zone x)"
  by (auto simp: mem_SaveStackStatus_def Let_def find_put_state split: option.splits)

lemma mem_save_again:
  "find_state m name zone = Some st \<Longrightarrow>
     mem_SaveStackStatus name zone y m = (Err ErrStackStateExists, m)"
  by (auto simp: mem_SaveStackStatus_def Let_def find_state_def split: option.splits)

text \<open>The rows behind the queries, and the behaviour of CQL the storage relies on: an
  insert replaces the row with its primary key (stack, zone and key for a variable,
  whatever its type), and a select delivers the rows of its partition, each key once.\<close>

record state_rows =
  status_rows :: "string \<times> string \<Rightarrow> StackStatus option"
  application_rows :: "string \<times> string \<Rightarrow> string \<Rightarrow> ApplicationStatus option"
  variable_rows :: "string \<times> string \<Rightarrow> string \<Rightarrow> (string \<times> string) option"

definition cql_upserts :: "'c state_session \<Rightarrow> ('c \<Rightarrow> state_rows) \<Rightarrow> bool" where
  "cql_upserts S rows \<longleftrightarrow>
     (\<forall>sz x c c'. insert_stack_state S sz x c = (Ok (), c') \<longrightarrow>
        rows c' = (rows c)\<lparr>status_rows := (status_rows (rows c))(sz \<mapsto> x)\<rparr>) \<and>
     (\<forall>sz a x c c'. insert_application_state S sz a x c = (Ok (), c') \<longrightarrow>
        rows c' = (rows c)\<lparr>application_rows :=
          (application_rows (rows c))(sz := (application_rows (rows c) sz)(a \<mapsto> x))\<rparr>) \<and>
     (\<forall>sz k x c c'. insert_stack_variable S sz k x c = (Ok (), c') \<longrightarrow>
        rows c' = (rows c)\<lparr>variable_rows :=
          (variable_rows (rows c))(sz := (variable_rows (rows c) sz)(k \<mapsto> x))\<rparr>)"

definition cql_selects :: "'c state_session \<Rightarrow> ('c \<Rightarrow> state_rows) \<Rightarrow> bool" where
  "cql_selects S rows \<longleftrightarrow>
     (\<forall>sz c. case status_rows (rows c) sz of
        None \<Rightarrow> \<not> is_ok (select_stack_state S sz c)
      | Some x \<Rightarrow> select_stack_state S sz c = Ok x) \<and>
     (\<forall>sz c. \<exists>as. select_application_states S sz c = map (\<lambda>r. (r, None)) as \<and>
        distinct (map fst as) \<and> map_of as = application_rows (rows c) sz) \<and>
     (\<forall>sz c. \<exists>vs. select_stack_variables S sz c = map (\<lambda>r. (r, None)) vs \<and>
        distinct (map fst vs) \<and> map_of vs = variable_rows (rows c) sz)"

lemma map_add_upd_swap: "f k = None \<Longrightarrow> m(k \<mapsto> v) ++ f = m ++ f(k \<mapsto> v)"
  by (simp add: map_add_upd_left domIff)

lemma save_variables_rows:
  assumes "cql_upserts S rows" and "distinct (map fst kvs)"
    and "save_variables S sz ty kvs c = (Ok (), c')"
  shows "variable_rows (rows c') sz =
    variable_rows (rows c) sz ++ (\<lambda>k. map_option (\<lambda>v. (v, ty)) (map_of kvs k))"
  using assms(2,3)
proof (induction kvs arbitrary: c)
  case Nil
  then show ?case by (simp add: map_add_def)
next
  case (Cons kv kvs)
  obtain k v where kv: "kv = (k, v)" by (cases kv)
  from Cons.prems(2) kv obtain c1 where
    i: "insert_stack_variable S sz k (v, ty) c = (Ok (), c1)"
    and r: "save_variables S sz ty kvs c1 = (Ok (), c')"
    by (auto split: prod.splits result.splits)
  from assms(1) i have "rows c1 = (rows c)\<lparr>variable_rows := (variable_rows (rows c))(sz :=
      (variable_rows (rows c) sz)(k \<mapsto> (v, ty)))\<rparr>" unfolding cql_upserts_def by blast
  then have c1: "variable_rows (rows c1) sz = (variable_rows (rows c) sz)(k \<mapsto> (v, ty))" by simp
  from Cons.prems(1) kv have "map_of kvs k = None" by (auto simp: map_of_eq_None_iff)
  moreover have "(\<lambda>x. map_option (\<lambda>v. (v, ty)) (map_of (kv # kvs) x)) =
      (\<lambda>x. map_option (\<lambda>v. (v, ty)) (map_of kvs x))(k \<mapsto> (v, ty))"
    by (auto simp: kv fun_eq_iff)
  moreover have "variable_rows (rows c') sz = variable_rows (rows c1) sz ++
      (\<lambda>k. map_option (\<lambda>v. (v, ty)) (map_of kvs k))"
    using Cons.IH [OF _ r] Cons.prems(1) by simp
  ultimately show ?case
    unfolding c1 by (metis (no_types, lifting) map_add_upd_swap option.map_disc_iff)
qed

lemma save_variables_frame:
  assumes "cql_upserts S rows" and "save_variables S sz ty kvs c = (Ok (), c')"
  shows "application_rows (rows c') = application_rows (rows c) \<and>
    status_rows (rows c') = status_rows (rows c)"
  using assms(2)
proof (induction kvs arbitrary: c)
  case Nil
  then show ?case by simp
next
  case (Cons kv kvs)
  obtain k v where kv: "kv = (k, v)" by (cases kv)
  from Cons.prems kv obtain c1 where
    i: "insert_stack_variable S sz k (v, ty) c = (Ok (), c1)"
    and r: "save_variables S sz ty kvs c1 = (Ok (), c')"
    by (auto split: prod.splits result.splits)
  from assms(1) i have "rows c1 = (rows c)\<lparr>variable_rows := (variable_rows (rows c))(sz :=
      (variable_rows (rows c) sz)(k \<mapsto> (v, ty)))\<rparr>" unfolding cql_upserts_def by blast
  with Cons.IH [OF r] show ?case by simp
qed

lemma cas_SaveStackVariables_Ok:
  assumes "cas_SaveStackVariables S stack zone vs c = (Ok (), c')"
  obtains c1 c2 where
    "save_variables S (stack, zone) ''global'' (globalVariables vs) c = (Ok (), c1)"
    "save_variables S (stack, zone) ''arbitrary'' (arbitraryVariables vs) c1 = (Ok (), c2)"
    "save_variables S (stack, zone) ''stack'' (stackVariables vs) c2 = (Ok (), c')"
  using assms by (auto simp: cas_SaveStackVariables_def split: prod.splits result.splits)

text \<open>The Cassandra storage keeps the contract on every database with these laws.\<close>

locale cassandra_states =
  fixes S :: "'c state_session" and rows :: "'c \<Rightarrow> state_rows"
  assumes upserts: "cql_upserts S rows"

sublocale cassandra_states \<subseteq> state_storage "CassandraStateStorage S" "\<lambda>c. application_rows (rows c)"
proof
  fix stack zone a x c c'
  assume "SaveApplicationStatus (CassandraStateStorage S) stack zone a x c = (Ok (), c')"
  then have "insert_application_state S (stack, zone) a x c = (Ok (), c')"
    by (simp add: CassandraStateStorage_def cas_SaveApplicationStatus_def)
  with upserts have "rows c' = (rows c)\<lparr>application_rows := (application_rows (rows c))((stack, zone) :=
      (application_rows (rows c) (stack, zone))(a \<mapsto> x))\<rparr>"
    unfolding cql_upserts_def by blast
  then show "application_rows (rows c') = (application_rows (rows c))((stack, zone) :=
      (application_rows (rows c) (stack, zone))(a \<mapsto> x))" by simp
next
  fix stack zone v c c'
  assume "SaveStackVariables (CassandraStateStorage S) stack zone v c = (Ok (), c')"
  then have "cas_SaveStackVariables S stack zone v c = (Ok (), c')"
    by (simp add: CassandraStateStorage_def)
  then show "application_rows (rows c') = application_rows (rows c)"
    by (elim cas_SaveStackVariables_Ok) (simp add: save_variables_frame [OF upserts])
qed

context cassandra_states
begin

lemma is_state_storage: "state_storage (CassandraStateStorage S) (\<lambda>c. application_rows (rows c))" ..

end

lemma cassandra_state_storage:
  assumes "cql_upserts S rows"
  shows "state_storage (CassandraStateStorage S) (\<lambda>c. application_rows (rows c))"
  using assms by (intro cassandra_states.is_state_storage cassandra_states.intro)

lemma read_applications_rows:
  assumes "distinct (map fst as)"
  shows "\<exists>m'. read_applications (map (\<lambda>r. (r, None)) as) m = Ok m' \<and> map_of m' = map_of m ++ map_of as"
  using assms
proof (induction as arbitrary: m)
  case Nil
  then show ?case by simp
next
  case (Cons r as)
  obtain n x where r: "r = (n, x)" by (cases r)
  from Cons.prems r have "map_of as n = None" by (auto simp: map_of_eq_None_iff)
  then have "map_of (AList.update n x m) ++ map_of as = map_of m ++ map_of (r # as)"
    by (metis map_add_upd_swap map_of.simps(2) map_of_update r fst_conv snd_conv)
  moreover from Cons.prems have "distinct (map fst as)" by simp
  note Cons.IH [OF this, of "AList.update n x m"]
  ultimately show ?case
    unfolding r list.map read_applications.simps by metis
qed

text \<open>The part of a set of rows that belongs to one type.\<close>

definition layer_rows :: "string \<Rightarrow> (string \<Rightarrow> (string \<times> string) option) \<Rightarrow> string \<Rightarrow> string option" where
  "layer_rows ty m k = (case m k of None \<Rightarrow> None | Some (v, t) \<Rightarrow> if t = ty then Some v else None)"

lemma Set_same:
  "stackVariables (SetStackVariable k x v) = AList.update k x (stackVariables v)"
  "arbitraryVariables (SetArbitraryVariable k x v) = AList.update k x (arbitraryVariables v)"
  "globalVariables (SetGlobalVariable k x v) = AList.update k x (globalVariables v)"
  by (simp_all add: set_variable_defs)

lemma layer_rows_Cons:
  assumes "map_of vs k = None"
  shows "map_of es ++ layer_rows ty (map_of ((k, v, t) # vs)) =
    map_of (if t = ty then AList.update k v es else es) ++ layer_rows ty (map_of vs)"
  using assms by (auto simp: layer_rows_def fun_eq_iff map_add_def split: option.split)

lemma read_variables_rows:
  assumes "distinct (map fst vs)"
    and "\<forall>(k, v, t) \<in> set vs. t \<in> {''global'', ''arbitrary'', ''stack''}"
  shows "\<exists>w. read_variables (map (\<lambda>r. (r, None)) vs) v0 = Ok w \<and>
    map_of (stackVariables w) = map_of (stackVariables v0) ++ layer_rows ''stack'' (map_of vs) \<and>
    map_of (arbitraryVariables w) =
      map_of (arbitraryVariables v0) ++ layer_rows ''arbitrary'' (map_of vs) \<and>
    map_of (globalVariables w) =
      map_of (globalVariables v0) ++ layer_rows ''global'' (map_of vs)"
  using assms
proof (induction vs arbitrary: v0)
  case Nil
  then show ?case by (simp add: layer_rows_def map_add_def)
next
  case (Cons r vs)
  obtain k v t where r: "r = (k, v, t)" by (cases r)
  from Cons.prems r have new: "map_of vs k = None" by (auto simp: map_of_eq_None_iff)
  have rest: "distinct (map fst vs)" "\<forall>(k, v, t) \<in> set vs. t \<in> {''global'', ''arbitrary'', ''stack''}"
    using Cons.prems by auto
  from Cons.prems(2) r consider "t = ''global''" | "t = ''arbitrary''" | "t = ''stack''" by auto
  then show ?case
  proof cases
    case 1
    with Cons.IH [OF rest, of "SetGlobalVariable k v v0"] show ?thesis
      by (simp add: r layer_rows_Cons [OF new] Set_frame Set_same fun_upd_def del: map_of.simps)
  next
    case 2
    with Cons.IH [OF rest, of "SetArbitraryVariable k v v0"] show ?thesis
      by (simp add: r layer_rows_Cons [OF new] Set_frame Set_same fun_upd_def del: map_of.simps)
  next
    case 3
    with Cons.IH [OF rest, of "SetStackVariable k v v0"] show ?thesis
      by (simp add: r layer_rows_Cons [OF new] Set_frame Set_same fun_upd_def del: map_of.simps)
  qed
qed

lemma Get_layers:
  "Get v k =
     (case (map_of (globalVariables v) ++ map_of (arbitraryVariables v)
         ++ map_of (stackVariables v)) k of
        Some x \<Rightarrow> Ok x | None \<Rightarrow> Err (''Key '' @ k @ '' is not present''))"
  by (simp add: Get_def map_add_def split: option.split)

text \<open>The rows of a partition written by the storage: each has one of the three types.\<close>

definition known_types :: "(string \<Rightarrow> (string \<times> string) option) \<Rightarrow> bool" where
  "known_types m \<longleftrightarrow> (\<forall>k x t. m k = Some (x, t) \<longrightarrow> t \<in> {''global'', ''arbitrary'', ''stack''})"

lemma saved_layers:
  assumes "m = m0 ++ (\<lambda>k. map_option (\<lambda>v. (v, ''global'')) (g k))
      ++ (\<lambda>k. map_option (\<lambda>v. (v, ''arbitrary'')) (a k))
      ++ (\<lambda>k. map_option (\<lambda>v. (v, ''stack'')) (s k))"
    and "known_types m0"
  shows "(layer_rows ''global'' m ++ layer_rows ''arbitrary'' m ++ layer_rows ''stack'' m) k =
    ((\<lambda>k. map_option fst (m0 k)) ++ g ++ a ++ s) k"
    and "m k = Some (x, t) \<Longrightarrow> t \<in> {''global'', ''arbitrary'', ''stack''}"
  using assms(2) unfolding known_types_def
  by (auto simp: assms(1) layer_rows_def map_add_def split: option.splits)

section \<open>Properties\<close>

text \<open>C29: Variables survive the Cassandra storage: the state read back after a successful
  save answers every lookup as the saved context did, although the table keeps one row per
  name and so drops shadowed layers; the writing order (global, arbitrary, stack) makes the
  row that stays the one a lookup prefers. A name the saved context does not have is answered
  from the rows that were in the partition before, which a save never removes: those of
  earlier saves of the same run, or of an earlier run. Rows of the three known types stay rows
  of these types, so that the next save meets the condition again. The recorded application statuses are
  those of the table.\<close>
theorem cassandra_variables_roundtrip:
  assumes "cql_upserts S rows" and "cql_selects S rows" and "vars_ok vs"
    and "known_types (variable_rows (rows c) (stack, zone))"
    and "status_rows (rows c) (stack, zone) = Some status"
    and "cas_SaveStackVariables S stack zone vs c = (Ok (), c')"
  shows "\<exists>st w. cas_GetStackState S stack zone c' = Ok st \<and> Status st = status \<and>
    ss_Variables st = Some w \<and>
    (\<forall>k. Get w k =
       (case Get vs k of
          Ok x \<Rightarrow> Ok x
        | r \<Rightarrow> (case variable_rows (rows c) (stack, zone) k of None \<Rightarrow> r | Some (x, t) \<Rightarrow> Ok x))) \<and>
    map_of (ss_Applications st) = application_rows (rows c) (stack, zone) \<and>
    known_types (variable_rows (rows c') (stack, zone))"
proof -
  let ?sz = "(stack, zone)"
  obtain c1 c2 where
    s: "save_variables S ?sz ''global'' (globalVariables vs) c = (Ok (), c1)"
    "save_variables S ?sz ''arbitrary'' (arbitraryVariables vs) c1 = (Ok (), c2)"
    "save_variables S ?sz ''stack'' (stackVariables vs) c2 = (Ok (), c')"
    using cas_SaveStackVariables_Ok [OF assms(6)] by blast
  note frame = s [THEN save_variables_frame [OF assms(1)]]
  define m where "m = variable_rows (rows c') ?sz"
  have m: "m = variable_rows (rows c) ?sz ++ (\<lambda>k. map_option (\<lambda>v. (v, ''global'')) (map_of (globalVariables vs) k))
      ++ (\<lambda>k. map_option (\<lambda>v. (v, ''arbitrary'')) (map_of (arbitraryVariables vs) k))
      ++ (\<lambda>k. map_option (\<lambda>v. (v, ''stack'')) (map_of (stackVariables vs) k))"
    using assms(3) s [THEN save_variables_rows [OF assms(1), rotated]]
    unfolding m_def vars_ok_def by metis
  obtain as where as: "select_application_states S ?sz c' = map (\<lambda>r. (r, None)) as"
      "distinct (map fst as)" "map_of as = application_rows (rows c') ?sz"
    using assms(2) unfolding cql_selects_def by blast
  obtain ls where ls: "select_stack_variables S ?sz c' = map (\<lambda>r. (r, None)) ls"
      "distinct (map fst ls)" "map_of ls = m"
    using assms(2) unfolding cql_selects_def m_def by blast
  have "select_stack_state S ?sz c' = Ok status"
    using conjunct1 [OF assms(2) [unfolded cql_selects_def], rule_format, of ?sz c'] assms(5) frame
    by simp
  moreover obtain apps where "read_applications (map (\<lambda>r. (r, None)) as) [] = Ok apps"
    and apps: "map_of apps = application_rows (rows c) ?sz"
    using read_applications_rows [OF as(2), of "[]"] as(3) frame by auto
  moreover have "t \<in> {''global'', ''arbitrary'', ''stack''}" if "(k, v, t) \<in> set ls" for k v t
    using saved_layers(2) [OF m assms(4)] map_of_is_SomeI [OF ls(2) that] unfolding ls(3) by blast
  then have "\<forall>(k, v, t) \<in> set ls. t \<in> {''global'', ''arbitrary'', ''stack''}" by blast
  from read_variables_rows [OF ls(2) this, of NewVariables] obtain w where
    "read_variables (map (\<lambda>r. (r, None)) ls) NewVariables = Ok w" and
    w: "map_of (stackVariables w) = layer_rows ''stack'' m"
    "map_of (arbitraryVariables w) = layer_rows ''arbitrary'' m"
    "map_of (globalVariables w) = layer_rows ''global'' m"
    unfolding ls(3) by (auto simp: NewVariables_def)
  moreover have "Get w k = (case Get vs k of Ok x \<Rightarrow> Ok x
      | r \<Rightarrow> (case variable_rows (rows c) ?sz k of None \<Rightarrow> r | Some (x, t) \<Rightarrow> Ok x))" for k
    unfolding Get_layers w saved_layers(1) [OF m assms(4)]
    by (auto simp: map_add_def split: option.splits)
  moreover have "known_types m"
    using saved_layers(2) [OF m assms(4)] unfolding known_types_def by blast
  ultimately show ?thesis
    by (simp add: cas_GetStackState_def as ls newStackState_def apps m_def)
qed

text \<open>Tables as association lists keyed by the primary key.\<close>

record state_tables =
  status_table :: "((string \<times> string) \<times> StackStatus) list"
  application_table :: "(((string \<times> string) \<times> string) \<times> ApplicationStatus) list"
  variable_table :: "(((string \<times> string) \<times> string) \<times> string \<times> string) list"

definition partition_of :: "'p \<Rightarrow> (('p \<times> 'k) \<times> 'v) list \<Rightarrow> ('k \<times> 'v) list" where
  "partition_of p t =
     AList.clearjunk (map (\<lambda>((_, k), v). (k, v)) (filter (\<lambda>((q, _), _). q = p) t))"

definition table_session :: "state_tables state_session" where
  "table_session =
     \<lparr>create_state_tables = (\<lambda>c. (Ok (), c)),
      insert_stack_state = (\<lambda>sz x c. (Ok (), c\<lparr>status_table := (sz, x) # status_table c\<rparr>)),
      insert_application_state =
        (\<lambda>sz a x c. (Ok (), c\<lparr>application_table := ((sz, a), x) # application_table c\<rparr>)),
      insert_stack_variable =
        (\<lambda>sz k x c. (Ok (), c\<lparr>variable_table := ((sz, k), x) # variable_table c\<rparr>)),
      select_stack_state =
        (\<lambda>sz c. case map_of (status_table c) sz of None \<Rightarrow> Err ''not found'' | Some x \<Rightarrow> Ok x),
      select_application_states =
        (\<lambda>sz c. map (\<lambda>r. (r, None)) (partition_of sz (application_table c))),
      select_stack_variables =
        (\<lambda>sz c. map (\<lambda>r. (r, None)) (partition_of sz (variable_table c)))\<rparr>"

definition table_rows :: "state_tables \<Rightarrow> state_rows" where
  "table_rows c =
     \<lparr>status_rows = map_of (status_table c),
      application_rows = (\<lambda>sz a. map_of (application_table c) (sz, a)),
      variable_rows = (\<lambda>sz k. map_of (variable_table c) (sz, k))\<rparr>"

lemma map_of_partition: "map_of (partition_of p t) = (\<lambda>k. map_of t (p, k))"
  unfolding partition_of_def map_of_clearjunk by (rule ext, induction t) auto

lemma distinct_partition [simp]: "distinct (map fst (partition_of p t))"
  by (simp add: partition_of_def)

lemma table_session_laws:
  "cql_upserts table_session table_rows" "cql_selects table_session table_rows"
proof -
  show "cql_upserts table_session table_rows"
    by (auto simp: cql_upserts_def table_session_def table_rows_def fun_eq_iff)
  show "cql_selects table_session table_rows"
    unfolding cql_selects_def
    by (auto simp: table_session_def table_rows_def map_of_partition split: option.split
        intro!: exI [of _ "partition_of _ _"])
qed

interpretation tables: cassandra_states table_session table_rows
  by unfold_locales (rule table_session_laws)

theorem cassandra_variables_roundtrip_witness:
  "let vs = SetGlobalVariable ''zone'' ''g'' (SetStackVariable ''zone'' ''s'' NewVariables);
       c = \<lparr>status_table = [((''k'', ''z''), StackStatusStaging)], application_table = [],
            variable_table = [(((''k'', ''z''), ''old''), ''o'', ''stack'')]\<rparr>;
       c' = snd (cas_SaveStackVariables table_session ''k'' ''z'' vs c)
   in \<exists>st w. cas_GetStackState table_session ''k'' ''z'' c' = Ok st \<and> ss_Variables st = Some w \<and>
        Get w ''zone'' = Ok ''s'' \<and> Get w ''old'' = Ok ''o''"
proof -
  let ?vs = "SetGlobalVariable ''zone'' ''g'' (SetStackVariable ''zone'' ''s'' NewVariables)"
  let ?c = "\<lparr>status_table = [((''k'', ''z''), StackStatusStaging)], application_table = [],
            variable_table = [(((''k'', ''z''), ''old''), ''o'', ''stack'')]\<rparr>"
  let ?c' = "snd (cas_SaveStackVariables table_session ''k'' ''z'' ?vs ?c)"
  have save: "cas_SaveStackVariables table_session ''k'' ''z'' ?vs ?c = (Ok (), ?c')"
    by (simp add: cas_SaveStackVariables_def table_session_def set_variable_defs NewVariables_def)
  have get: "Get ?vs ''zone'' = Ok ''s''" "\<not> is_ok (Get ?vs ''old'')"
    by (simp_all add: Get_def set_variable_defs NewVariables_def)
  have rows: "variable_rows (table_rows ?c) (''k'', ''z'') k = (if k = ''old'' then Some (''o'', ''stack'') else None)"
    "status_rows (table_rows ?c) (''k'', ''z'') = Some StackStatusStaging" for k
    by (simp_all add: table_rows_def)
  have known: "known_types (variable_rows (table_rows ?c) (''k'', ''z''))"
    by (simp add: known_types_def rows(1))
  obtain st w where "cas_GetStackState table_session ''k'' ''z'' ?c' = Ok st" "ss_Variables st = Some w"
    and w: "\<forall>k. Get w k = (case Get ?vs k of Ok x \<Rightarrow> Ok x
        | r \<Rightarrow> (case variable_rows (table_rows ?c) (''k'', ''z'') k of None \<Rightarrow> r | Some (x, t) \<Rightarrow> Ok x))"
    using cassandra_variables_roundtrip [OF table_session_laws _ known rows(2) save] by auto
  moreover have "Get w ''zone'' = Ok ''s''" "Get w ''old'' = Ok ''o''"
    using get by (auto simp: w rows(1) split: result.splits)
  ultimately show ?thesis unfolding Let_def by blast
qed

text \<open>The in-memory storage records the status of a stack once: a later status of the
  same stack and zone is refused and the first one stays.\<close>
theorem mem_status_write_once:
  assumes "mem_SaveStackStatus name zone x m = (Ok (), m')"
  shows "mem_SaveStackStatus name zone y m' = (Err ErrStackStateExists, m') \<and>
    (\<exists>st. mem_GetStackState name zone m' = Ok st \<and> Status st = x)"
  using mem_saved_status [OF assms] mem_save_again [of m' name zone]
  by (simp add: mem_GetStackState_def newStackState_def)

theorem mem_status_write_once_witness:
  "let m = snd (mem_SaveStackStatus ''k'' ''z'' StackStatusStaging NewInMemoryStateStorage)
   in fst (mem_SaveStackStatus ''k'' ''z'' StackStatusRunning m) = Err ErrStackStateExists"
  using mem_status_write_once [of "''k''" "''z''" StackStatusStaging NewInMemoryStateStorage _
      StackStatusRunning]
  by (simp add: Let_def mem_SaveStackStatus_def NewInMemoryStateStorage_def find_state_def)

end
