(* ===== verification/StackRun.thy ===== *)
theory StackRun
  imports StateStorage
begin

text \<open>
  The deployment of a stack (\<open>Stack.Run\<close>, src/framework/stack.go): skipped applications,
  the start of every application whose dependencies run, and the loop that receives the
  results.  Each started application is a goroutine; its result travels through a
  channel with one place per application.  A deployment is a state machine: a goroutine
  finishes at any time with any result, and the loop receives one result at a time.
\<close>

section \<open>State\<close>

type_synonym ApplicationRunStatus = "Application \<times> error option"

text \<open>What happened so far, for the statements about order.\<close>

datatype run_event = Skipped string | Launched string | Confirmed string

record 's run_state =
  runningApps :: "(string \<times> ApplicationStatus) list"
  inflight :: "Application list"
  statuses :: "ApplicationRunStatus list"
  storage :: 's
  history :: "run_event list"
  outcome :: "unit result option"

text \<open>An operation that may also block for ever on a full channel.\<close>

datatype 'a blocking = Returns 'a | Fails error | Panics error | Blocks

definition stack_apps :: "Stack \<Rightarrow> Application list" where
  "stack_apps s = List.map_filter snd (entries (Applications s))"

section \<open>Skipping\<close>

type_synonym skip_state =
  "(string \<times> ApplicationStatus) list \<times> ApplicationRunStatus list \<times> run_event list"

text \<open>The inner loop: \<open>cap\<close> is the capacity of the channel, from which nobody reads yet.\<close>

fun skip_matching ::
    "(string \<Rightarrow> bool) \<Rightarrow> nat \<Rightarrow> Application list \<Rightarrow> skip_state \<Rightarrow> skip_state blocking" where
  "skip_matching matches cap [] st = Returns st"
| "skip_matching matches cap (a # as) (running, queue, ev) =
     (if matches (ID a)
      then if length queue < cap
           then skip_matching matches cap as
                  (AList.update (ID a) ApplicationStatusRunning running, queue @ [(a, None)],
                   ev @ [Skipped (ID a)])
           else Blocks
      else skip_matching matches cap as (running, queue, ev))"

text \<open>The outer loop; \<open>ord n\<close> is the order in which the \<open>n\<close>-th pattern visits the
  applications.\<close>

fun markSkippedApps ::
    "regexp \<Rightarrow> (nat \<Rightarrow> Application list \<Rightarrow> Application list) \<Rightarrow> nat \<Rightarrow> nat \<Rightarrow> Application list
     \<Rightarrow> string list \<Rightarrow> skip_state \<Rightarrow> skip_state blocking" where
  "markSkippedApps rx ord n cap apps [] st = Returns st"
| "markSkippedApps rx ord n cap apps (p # ps) st =
     (case Compile rx p of
        Some e \<Rightarrow> Fails e
      | None \<Rightarrow>
          (case skip_matching (MatchString rx p) cap (ord n apps) st of
             Returns st' \<Rightarrow> markSkippedApps rx ord (Suc n) cap apps ps st'
           | r \<Rightarrow> r))"

section \<open>Starting applications\<close>

text \<open>The new map of states and the applications that a goroutine was started for.\<close>

fun runApplications ::
    "Application list \<Rightarrow> (string \<times> ApplicationStatus) list
     \<Rightarrow> (string \<times> ApplicationStatus) list \<times> Application list" where
  "runApplications [] running = (running, [])"
| "runApplications (a # as) running =
     (if map_of running (ID a) \<noteq> None then runApplications as running
      else if IsDependencySatisfied (Dependencies a) running
      then (case runApplications as (AList.update (ID a) ApplicationStatusStaging running) of
              (running', launched) \<Rightarrow> (running', a # launched))
      else runApplications as running)"

definition allApplicationsRunning ::
    "Application list \<Rightarrow> (string \<times> ApplicationStatus) list \<Rightarrow> bool" where
  "allApplicationsRunning apps running \<longleftrightarrow>
     list_all (\<lambda>a. map_of running (ID a) = Some ApplicationStatusRunning) apps"

definition launch_ready :: "Application list \<Rightarrow> 's run_state \<Rightarrow> 's run_state" where
  "launch_ready apps st =
     (case runApplications apps (runningApps st) of
        (running, launched) \<Rightarrow>
          st\<lparr>runningApps := running, inflight := inflight st @ launched,
             history := history st @ map (\<lambda>a. Launched (ID a)) launched\<rparr>)"

section \<open>The loop\<close>

text \<open>The body of the receive loop: \<open>vs\<close> is the context at the time of the save, \<open>apps\<close>
  the applications in the order of this pass.\<close>

definition recv_step ::
    "'s StateStorage \<Rightarrow> string \<Rightarrow> string \<Rightarrow> Variables \<Rightarrow> Application list \<Rightarrow> 's run_state
     \<Rightarrow> 's run_state" where
  "recv_step SS name zone vs apps st =
     (case statuses st of
        [] \<Rightarrow> st
      | (a, Some e) # rest \<Rightarrow>
          st\<lparr>statuses := rest,
             storage :=
               snd (SaveApplicationStatus SS name zone (ID a) ApplicationStatusFailed (storage st)),
             outcome := Some (Err (ID a @ '': '' @ e))\<rparr>
      | (a, None) # rest \<Rightarrow>
          (let st1 = st\<lparr>statuses := rest,
                 runningApps := AList.update (ID a) ApplicationStatusRunning (runningApps st),
                 history := history st @ [Confirmed (ID a)]\<rparr>
           in case SaveApplicationStatus SS name zone (ID a) ApplicationStatusRunning (storage st) of
                (Ok _, s1) \<Rightarrow>
                  (case SaveStackVariables SS name zone vs s1 of
                     (Ok _, s2) \<Rightarrow>
                       if allApplicationsRunning apps (runningApps st1)
                       then st1\<lparr>storage := s2, outcome := Some (Ok ())\<rparr>
                       else launch_ready apps (st1\<lparr>storage := s2\<rparr>)
                   | (r, s2) \<Rightarrow> st1\<lparr>storage := s2, outcome := Some r\<rparr>)
              | (r, s1) \<Rightarrow> st1\<lparr>storage := s1, outcome := Some r\<rparr>))"

text \<open>The \<open>i\<close>-th goroutine ends (\<open>runApplication\<close>) and sends its result.\<close>

definition finish_step :: "nat \<Rightarrow> error option \<Rightarrow> 's run_state \<Rightarrow> 's run_state" where
  "finish_step i err st =
     st\<lparr>inflight := take i (inflight st) @ drop (Suc i) (inflight st),
        statuses := statuses st @ [(inflight st ! i, err)]\<rparr>"

text \<open>The steps of a deployment of \<open>apps\<close>: \<open>results\<close> are the results an application's
  \<open>Run\<close> can have.\<close>

inductive run_step ::
    "'s StateStorage \<Rightarrow> string \<Rightarrow> string \<Rightarrow> Application list \<Rightarrow> ApplicationRunStatus set
     \<Rightarrow> 's run_state \<Rightarrow> 's run_state \<Rightarrow> bool"
  for SS name zone apps results where
  finish: "i < length (inflight st) \<Longrightarrow> (inflight st ! i, err) \<in> results \<Longrightarrow>
     length (statuses st) < length apps \<Longrightarrow>
     run_step SS name zone apps results st (finish_step i err st)"
| receive: "outcome st = None \<Longrightarrow> statuses st \<noteq> [] \<Longrightarrow> mset apps' = mset apps \<Longrightarrow>
     run_step SS name zone apps results st (recv_step SS name zone vs apps' st)"

inductive_cases run_stepE: "run_step SS name zone apps results st st'"

section \<open>The start\<close>

definition set_run_variables :: "string \<Rightarrow> string \<Rightarrow> string \<Rightarrow> Variables \<Rightarrow> Variables" where
  "set_run_variables leader zone stack vs =
     SetStackVariable ''stack'' stack
       (SetStackVariable ''zone'' zone (SetStackVariable ''mesos.master'' leader vs))"

text \<open>\<open>Run\<close> up to the loop: \<open>info\<close> is the answer of Marathon, \<open>ord\<close> the range orders of
  the skip patterns, \<open>apps'\<close> the order of the first pass.\<close>

definition Stack_Run ::
    "regexp \<Rightarrow> (string \<Rightarrow> bool) \<Rightarrow> string result \<Rightarrow> (nat \<Rightarrow> Application list \<Rightarrow> Application list)
     \<Rightarrow> Application list \<Rightarrow> string list \<Rightarrow> string \<Rightarrow> string \<Rightarrow> Stack \<Rightarrow> Variables \<Rightarrow> 's
     \<Rightarrow> (Variables \<times> 's run_state) blocking" where
  "Stack_Run rx runners info ord apps' skips name zone s vs store =
     (case Stack_Validate rx runners s of
        Err e \<Rightarrow> Fails e
      | Panic e \<Rightarrow> Panics e
      | Ok _ \<Rightarrow>
          (case info of
             Err e \<Rightarrow> Fails e
           | Panic e \<Rightarrow> Panics e
           | Ok leader \<Rightarrow>
               (case markSkippedApps rx ord 0 (mlen (Applications s)) (stack_apps s) skips ([], [], []) of
                  Fails e \<Rightarrow> Fails e
                | Panics e \<Rightarrow> Panics e
                | Blocks \<Rightarrow> Blocks
                | Returns (running, queue, ev) \<Rightarrow>
                    Returns (set_run_variables leader zone name vs,
                      launch_ready apps'
                        \<lparr>runningApps = running, inflight = [], statuses = queue,
                         storage = store, history = ev, outcome = None\<rparr>))))"

section \<open>Lemmas on one pass\<close>

lemma IsDependencySatisfied_iff:
  "IsDependencySatisfied ds running \<longleftrightarrow>
     (\<forall>d \<in> set ds. map_of running d = Some ApplicationStatusRunning)"
  by (induction ds) auto

lemma runApplications_map:
  "runApplications apps running = (running', launched) \<Longrightarrow>
     map_of running' x =
       (if x \<in> ID ` set launched then Some ApplicationStatusStaging else map_of running x)"
  by (induction apps arbitrary: running launched)
     (auto split: if_splits prod.splits)

lemma runApplications_launched:
  assumes "runApplications apps running = (running', launched)" and "a \<in> set launched"
  shows "a \<in> set apps \<and> map_of running (ID a) = None \<and>
    (\<forall>d \<in> set (Dependencies a). map_of running d = Some ApplicationStatusRunning)"
  using assms
proof (induction apps arbitrary: running launched)
  case Nil
  then show ?case by simp
next
  case (Cons b apps)
  show ?case
  proof (cases "map_of running (ID b) = None \<and> IsDependencySatisfied (Dependencies b) running")
    case True
    with Cons.prems obtain l where l: "launched = b # l"
      and r: "runApplications apps (AList.update (ID b) ApplicationStatusStaging running) = (running', l)"
      by (auto split: prod.splits)
    show ?thesis
    proof (cases "a \<in> set l")
      case True
      from Cons.IH [OF r True] show ?thesis by (auto split: if_splits)
    next
      case False
      with Cons.prems(2) l have "a = b" by simp
      with \<open>map_of running (ID b) = None \<and> _\<close> show ?thesis by (simp add: IsDependencySatisfied_iff)
    qed
  next
    case False
    with Cons.prems(1) have r: "runApplications apps running = (running', launched)"
      by (auto split: if_splits)
    from Cons.IH [OF r Cons.prems(2)] show ?thesis by simp
  qed
qed

lemma runApplications_distinct:
  "runApplications apps running = (running', launched) \<Longrightarrow> distinct (map ID launched)"
proof (induction apps arbitrary: running launched)
  case Nil
  then show ?case by simp
next
  case (Cons a apps)
  show ?case
  proof (cases "map_of running (ID a) = None \<and> IsDependencySatisfied (Dependencies a) running")
    case True
    with Cons.prems obtain l where l: "launched = a # l"
      and r: "runApplications apps (AList.update (ID a) ApplicationStatusStaging running) = (running', l)"
      by (auto split: prod.splits)
    from runApplications_launched [OF r] have "ID a \<notin> ID ` set l" by fastforce
    with Cons.IH [OF r] l show ?thesis by simp
  next
    case False
    with Cons show ?thesis by (auto split: if_splits)
  qed
qed

lemma runApplications_complete:
  assumes "runApplications apps running = (running', launched)" and "a \<in> set apps"
    and "map_of running' (ID a) = None"
  shows "\<exists>d \<in> set (Dependencies a). map_of running' d \<noteq> Some ApplicationStatusRunning"
  using assms
proof (induction apps arbitrary: running launched)
  case Nil
  then show ?case by simp
next
  case (Cons b apps)
  have "map_of running (ID b) = None \<and> IsDependencySatisfied (Dependencies b) running \<Longrightarrow> a \<noteq> b"
    using Cons.prems runApplications_map [OF Cons.prems(1), of "ID a"]
    by (auto split: prod.splits if_splits)
  moreover have "\<exists>d \<in> set (Dependencies b). map_of running' d \<noteq> Some ApplicationStatusRunning"
    if "\<not> IsDependencySatisfied (Dependencies b) running"
    using that runApplications_map [OF Cons.prems(1)]
    by (auto simp: IsDependencySatisfied_iff)
  moreover have "a = b \<Longrightarrow> map_of running (ID b) = None"
    using Cons.prems(3) runApplications_map [OF Cons.prems(1), of "ID a"] by (auto split: if_splits)
  moreover have "\<exists>r l. runApplications apps r = (running', l)"
    using Cons.prems(1) by (auto split: if_splits prod.splits)
  ultimately show ?case using Cons.IH Cons.prems(2,3) by auto
qed

section \<open>The invariant\<close>

definition staged :: "'s run_state \<Rightarrow> string list" where
  "staged st = map (\<lambda>p. ID (fst p)) (filter (\<lambda>p. map_of (runningApps st) (ID (fst p)) =
     Some ApplicationStatusStaging) (statuses st))"

definition launches :: "run_event list \<Rightarrow> string list" where
  "launches ev = List.map_filter (\<lambda>e. case e of Launched x \<Rightarrow> Some x | _ \<Rightarrow> None) ev"

text \<open>Where the applications are: started ones are staging, no ID twice among the
  running goroutines and the staging results in the channel.\<close>

definition places_inv :: "Application list \<Rightarrow> 's run_state \<Rightarrow> bool" where
  "places_inv apps st \<longleftrightarrow>
     set (inflight st) \<subseteq> set apps \<and> fst ` set (statuses st) \<subseteq> set apps \<and>
     (\<forall>a \<in> set (inflight st). map_of (runningApps st) (ID a) = Some ApplicationStatusStaging) \<and>
     (\<forall>p \<in> set (statuses st). map_of (runningApps st) (ID (fst p)) \<noteq> None) \<and>
     (\<forall>x. map_of (runningApps st) x \<noteq> Some ApplicationStatusFailed) \<and>
     distinct (map ID (inflight st) @ staged st)"

text \<open>Nothing is lost while the loop runs, and nothing that could start is left out.\<close>

definition waiting_inv :: "Application list \<Rightarrow> 's run_state \<Rightarrow> bool" where
  "waiting_inv apps st \<longleftrightarrow>
     (\<forall>x. map_of (runningApps st) x = Some ApplicationStatusStaging \<longrightarrow>
        x \<in> ID ` set (inflight st) \<union> (\<lambda>p. ID (fst p)) ` set (statuses st)) \<and>
     (\<forall>a \<in> set apps. map_of (runningApps st) (ID a) = None \<longrightarrow>
        (\<exists>d \<in> set (Dependencies a). map_of (runningApps st) d \<noteq> Some ApplicationStatusRunning)) \<and>
     (allApplicationsRunning apps (runningApps st) \<longrightarrow> statuses st \<noteq> [] \<or> apps = [])"

text \<open>Every launch comes after the confirmation (or the skipping) of its dependencies.\<close>

definition confirmed_before :: "run_event list \<Rightarrow> nat \<Rightarrow> string \<Rightarrow> bool" where
  "confirmed_before ev i d \<longleftrightarrow> (\<exists>j < i. ev ! j = Skipped d \<or> ev ! j = Confirmed d)"

definition ordered :: "Application list \<Rightarrow> run_event list \<Rightarrow> bool" where
  "ordered apps ev \<longleftrightarrow>
     (\<forall>i < length ev. \<forall>x. ev ! i = Launched x \<longrightarrow>
        (\<exists>a \<in> set apps. ID a = x \<and> (\<forall>d \<in> set (Dependencies a). confirmed_before ev i d)))"

definition history_inv :: "Application list \<Rightarrow> 's run_state \<Rightarrow> bool" where
  "history_inv apps st \<longleftrightarrow>
     distinct (launches (history st)) \<and>
     (\<forall>x \<in> set (launches (history st)). map_of (runningApps st) x \<noteq> None) \<and>
     (\<forall>x. map_of (runningApps st) x = Some ApplicationStatusRunning \<longrightarrow>
        confirmed_before (history st) (length (history st)) x) \<and>
     (\<forall>x. Skipped x \<in> set (history st) \<longrightarrow>
        map_of (runningApps st) x \<noteq> None \<and> x \<notin> set (launches (history st))) \<and>
     ordered apps (history st)"

definition run_inv :: "Application list \<Rightarrow> 's run_state \<Rightarrow> bool" where
  "run_inv apps st \<longleftrightarrow>
     places_inv apps st \<and> history_inv apps st \<and>
     (outcome st = None \<longrightarrow> waiting_inv apps st) \<and>
     (outcome st = Some (Ok ()) \<longrightarrow> allApplicationsRunning apps (runningApps st))"

section \<open>Preservation\<close>

lemma launches_append [simp]: "launches (xs @ ys) = launches xs @ launches ys"
  by (simp add: launches_def List.map_filter_def)

lemma launches_simps [simp]:
  "launches [] = []" "launches [Confirmed x] = []" "launches (map (\<lambda>a. Launched (ID a)) as) = map ID as"
  by (simp_all add: launches_def List.map_filter_def comp_def)

lemma confirmed_before_append:
  "i \<le> length ev \<Longrightarrow> confirmed_before (ev @ ys) i d = confirmed_before ev i d"
  unfolding confirmed_before_def
  by (intro ex_cong1 conj_cong refl) (simp add: nth_append)

lemma confirmed_before_mono: "confirmed_before ev i d \<Longrightarrow> i \<le> k \<Longrightarrow> confirmed_before ev k d"
  unfolding confirmed_before_def by (meson less_le_trans)

lemma ordered_append_confirmed:
  assumes "ordered apps ev"
  shows "ordered apps (ev @ [Confirmed x])"
  unfolding ordered_def
proof (intro allI impI)
  fix i y
  assume i: "i < length (ev @ [Confirmed x])" and y: "(ev @ [Confirmed x]) ! i = Launched y"
  then have "i < length ev" by (auto simp: nth_append split: if_splits)
  with assms y show "\<exists>a \<in> set apps. ID a = y \<and>
      (\<forall>d \<in> set (Dependencies a). confirmed_before (ev @ [Confirmed x]) i d)"
    by (simp add: ordered_def nth_append confirmed_before_append)
qed

lemma ordered_append_launched:
  assumes "ordered apps ev"
    and "\<forall>a \<in> set ls. a \<in> set apps \<and>
      (\<forall>d \<in> set (Dependencies a). confirmed_before ev (length ev) d)"
  shows "ordered apps (ev @ map (\<lambda>a. Launched (ID a)) ls)"
  unfolding ordered_def
proof (intro allI impI)
  fix i x
  let ?ev = "ev @ map (\<lambda>a. Launched (ID a)) ls"
  assume i: "i < length ?ev" and x: "?ev ! i = Launched x"
  show "\<exists>a \<in> set apps. ID a = x \<and> (\<forall>d \<in> set (Dependencies a). confirmed_before ?ev i d)"
  proof (cases "i < length ev")
    case True
    with assms(1) x show ?thesis
      by (auto simp: ordered_def nth_append confirmed_before_append)
  next
    case False
    define a where "a = ls ! (i - length ev)"
    from False i have "a \<in> set ls" by (auto simp: a_def)
    moreover from False i x have "ID a = x" by (auto simp: a_def nth_append)
    moreover have "confirmed_before ?ev i d" if "confirmed_before ev (length ev) d" for d
    proof -
      from that have "confirmed_before ?ev (length ev) d" by (simp add: confirmed_before_append)
      then show ?thesis by (rule confirmed_before_mono) (use False in simp)
    qed
    ultimately show ?thesis using assms(2) by blast
  qed
qed

lemma launch_ready_alt:
  "runApplications apps' (runningApps st) = (running, ls) \<Longrightarrow>
     launch_ready apps' st = st\<lparr>runningApps := running, inflight := inflight st @ ls,
       history := history st @ map (\<lambda>a. Launched (ID a)) ls\<rparr>"
  by (simp add: launch_ready_def)

lemma launched_fresh:
  assumes "runApplications apps' running = (running', ls)" and "map_of running x \<noteq> None"
  shows "x \<notin> ID ` set ls" and "map_of running' x = map_of running x"
proof -
  show x: "x \<notin> ID ` set ls" using assms(2) runApplications_launched [OF assms(1)] by fastforce
  with runApplications_map [OF assms(1), of x] show "map_of running' x = map_of running x" by simp
qed

lemma launch_ready_places:
  assumes "places_inv apps st" and "set apps' = set apps"
  shows "places_inv apps (launch_ready apps' st)"
proof -
  obtain running ls where r: "runApplications apps' (runningApps st) = (running, ls)" by fastforce
  let ?st = "launch_ready apps' st"
  note st = launch_ready_alt [OF r] and fresh = launched_fresh [OF r]
  have "staged ?st = staged st"
    unfolding staged_def st using assms(1) fresh(2)
    by (auto simp: places_inv_def intro!: arg_cong [of _ _ "map _"] filter_cong)
  moreover have "x \<notin> ID ` set ls" if "x \<in> set (staged st)" for x
    using that by (intro fresh(1)) (auto simp: staged_def)
  moreover have "x \<notin> ID ` set ls" if "x \<in> ID ` set (inflight st)" for x
    using that assms(1) by (intro fresh(1)) (auto simp: places_inv_def)
  moreover have "distinct (map ID ls)" by (rule runApplications_distinct [OF r])
  ultimately have "distinct (map ID (inflight st @ ls) @ staged ?st)"
    using assms(1) by (auto simp: places_inv_def)
  then show ?thesis
    using assms fresh(2) runApplications_map [OF r] runApplications_launched [OF r]
    by (auto simp: places_inv_def st)
qed

lemma launch_ready_waiting:
  assumes "set apps' = set apps"
    and F: "\<forall>x. map_of (runningApps st) x = Some ApplicationStatusStaging \<longrightarrow>
        x \<in> ID ` set (inflight st) \<union> (\<lambda>p. ID (fst p)) ` set (statuses st)"
    and N: "allApplicationsRunning apps (runningApps st) \<longrightarrow> statuses st \<noteq> [] \<or> apps = []"
  shows "waiting_inv apps (launch_ready apps' st)"
proof -
  obtain running ls where r: "runApplications apps' (runningApps st) = (running, ls)" by fastforce
  let ?st = "launch_ready apps' st"
  note st = launch_ready_alt [OF r] and map = runApplications_map [OF r]
  show ?thesis
    unfolding waiting_inv_def
  proof (intro conjI allI ballI impI)
    fix x assume "map_of (runningApps ?st) x = Some ApplicationStatusStaging"
    then show "x \<in> ID ` set (inflight ?st) \<union> (\<lambda>p. ID (fst p)) ` set (statuses ?st)"
      using F map [of x] by (auto simp: st split: if_splits)
  next
    fix a assume "a \<in> set apps" "map_of (runningApps ?st) (ID a) = None"
    then show "\<exists>d \<in> set (Dependencies a). map_of (runningApps ?st) d \<noteq> Some ApplicationStatusRunning"
      using runApplications_complete [OF r, of a] assms(1) by (simp add: st)
  next
    assume "allApplicationsRunning apps (runningApps ?st)"
    then have "allApplicationsRunning apps (runningApps st)"
      using map by (auto simp: st allApplicationsRunning_def list_all_iff split: if_splits)
    with N show "statuses ?st \<noteq> [] \<or> apps = []" by (simp add: st)
  qed
qed

lemma launch_ready_history:
  assumes "history_inv apps st" and "set apps' = set apps"
  shows "history_inv apps (launch_ready apps' st)"
proof -
  obtain running ls where r: "runApplications apps' (runningApps st) = (running, ls)" by fastforce
  let ?h = "history st @ map (\<lambda>a. Launched (ID a)) ls"
  note fresh = launched_fresh [OF r] and map = runApplications_map [OF r]
  have "x \<notin> ID ` set ls" if "x \<in> set (launches (history st))" for x
    using that assms(1) by (intro fresh(1)) (auto simp: history_inv_def)
  moreover have "ordered apps ?h"
    using assms runApplications_launched [OF r]
    by (auto simp: history_inv_def intro!: ordered_append_launched)
  moreover have "confirmed_before ?h (length ?h) x"
    if "map_of running x = Some ApplicationStatusRunning" for x
  proof -
    have "confirmed_before (history st) (length (history st)) x"
      using that map [of x] assms(1) by (auto simp: history_inv_def split: if_splits)
    then have "confirmed_before ?h (length (history st)) x" by (simp add: confirmed_before_append)
    then show ?thesis by (rule confirmed_before_mono) simp
  qed
  moreover have "x \<notin> ID ` set ls" if "Skipped x \<in> set (history st)" for x
    using that assms(1) by (intro fresh(1)) (auto simp: history_inv_def)
  ultimately show ?thesis
    using assms(1) map runApplications_distinct [OF r]
    by (auto simp: launch_ready_alt [OF r] history_inv_def)
qed

lemma launch_ready_inv:
  assumes "places_inv apps st" and "history_inv apps st" and "set apps' = set apps"
    and F: "\<forall>x. map_of (runningApps st) x = Some ApplicationStatusStaging \<longrightarrow>
        x \<in> ID ` set (inflight st) \<union> (\<lambda>p. ID (fst p)) ` set (statuses st)"
    and N: "allApplicationsRunning apps (runningApps st) \<longrightarrow> statuses st \<noteq> [] \<or> apps = []"
  shows "places_inv apps (launch_ready apps' st)" and "history_inv apps (launch_ready apps' st)"
    and "waiting_inv apps (launch_ready apps' st)"
  using launch_ready_places [OF assms(1,3)] launch_ready_history [OF assms(2,3)]
    launch_ready_waiting [OF assms(3) F N] by blast+

lemma finish_inv:
  assumes "run_inv apps st" and i: "i < length (inflight st)"
  shows "run_inv apps (finish_step i err st)"
proof -
  let ?a = "inflight st ! i" and ?rest = "take i (inflight st) @ drop (Suc i) (inflight st)"
  have split: "inflight st = take i (inflight st) @ ?a # drop (Suc i) (inflight st)"
    using i by (simp add: id_take_nth_drop [symmetric])
  have set: "set (inflight st) = insert ?a (set ?rest)"
    by (subst split) auto
  have a: "map_of (runningApps st) (ID ?a) = Some ApplicationStatusStaging" "?a \<in> set apps"
    using assms i nth_mem [OF i] by (auto simp: run_inv_def places_inv_def)
  then have stg: "staged (finish_step i err st) = staged st @ [ID ?a]"
    by (simp add: staged_def finish_step_def)
  have "mset (map ID ?rest @ staged st @ [ID ?a]) = mset (map ID (inflight st) @ staged st)"
    by (subst (4) split) simp
  then have "distinct (map ID ?rest @ staged st @ [ID ?a])"
    using assms(1) mset_eq_imp_distinct_iff unfolding run_inv_def places_inv_def by blast
  then have "places_inv apps (finish_step i err st)"
    using assms(1) a set unfolding run_inv_def places_inv_def stg
    by (auto simp: finish_step_def)
  moreover have "history_inv apps (finish_step i err st)"
    using assms(1) by (simp add: run_inv_def history_inv_def finish_step_def)
  moreover have "waiting_inv apps (finish_step i err st)" if "waiting_inv apps st"
    using that set unfolding waiting_inv_def by (auto simp: finish_step_def)
  ultimately show ?thesis
    using assms(1) by (auto simp: run_inv_def finish_step_def)
qed

lemma confirm_inv:
  assumes "places_inv apps st" and "history_inv apps st" and q: "statuses st = (a, None) # rest"
  defines "st1 \<equiv> st\<lparr>statuses := rest,
      runningApps := AList.update (ID a) ApplicationStatusRunning (runningApps st),
      history := history st @ [Confirmed (ID a)]\<rparr>"
  shows "places_inv apps st1" and "history_inv apps st1"
proof -
  have other: "ID b \<noteq> ID a" if "b \<in> set (inflight st)" for b
  proof (cases "map_of (runningApps st) (ID a) = Some ApplicationStatusStaging")
    case True
    then have "ID a \<in> set (staged st)" by (simp add: staged_def q)
    with assms(1) that show ?thesis by (force simp: places_inv_def)
  next
    case False
    with assms(1) that show ?thesis by (auto simp: places_inv_def)
  qed
  have "distinct (map ID (inflight st) @ staged st)" using assms(1) by (simp add: places_inv_def)
  moreover have "staged st1 = filter (\<lambda>x. x \<noteq> ID a) (staged st)"
    by (simp add: staged_def st1_def q filter_map comp_def conj_commute cong: filter_cong)
       (auto intro!: arg_cong [of _ _ "map _"] filter_cong)
  ultimately have "distinct (map ID (inflight st1) @ staged st1)" by (auto simp: st1_def)
  with other assms(1) show "places_inv apps st1"
    by (auto simp: places_inv_def st1_def q)
  have "confirmed_before (history st1) (length (history st1)) x"
    if "map_of (runningApps st1) x = Some ApplicationStatusRunning" for x
  proof (cases "x = ID a")
    case True
    then show ?thesis
      by (auto simp: confirmed_before_def st1_def nth_append intro!: exI [of _ "length (history st)"])
  next
    case False
    with that assms(2) have "confirmed_before (history st) (length (history st)) x"
      by (simp add: history_inv_def st1_def)
    then have "confirmed_before (history st1) (length (history st)) x"
      by (simp add: st1_def confirmed_before_append)
    then show ?thesis by (rule confirmed_before_mono) (simp add: st1_def)
  qed
  then show "history_inv apps st1"
    using assms(2) by (auto simp: history_inv_def st1_def ordered_append_confirmed)
qed

lemma inv_irrelevant [simp]:
  "places_inv apps (st\<lparr>storage := x\<rparr>) = places_inv apps st"
  "places_inv apps (st\<lparr>outcome := y\<rparr>) = places_inv apps st"
  "history_inv apps (st\<lparr>storage := x\<rparr>) = history_inv apps st"
  "history_inv apps (st\<lparr>outcome := y\<rparr>) = history_inv apps st"
  by (simp_all add: places_inv_def history_inv_def staged_def)

lemma drop_failed_inv:
  assumes "places_inv apps st" and "statuses st = p # rest"
  shows "places_inv apps (st\<lparr>statuses := rest\<rparr>)"
proof -
  have "staged st = (if map_of (runningApps st) (ID (fst p)) = Some ApplicationStatusStaging
      then [ID (fst p)] else []) @ staged (st\<lparr>statuses := rest\<rparr>)"
    by (simp add: staged_def assms(2))
  then have "distinct (map ID (inflight st) @ staged (st\<lparr>statuses := rest\<rparr>))"
    using assms(1) by (auto simp: places_inv_def split: if_splits)
  with assms show ?thesis by (simp add: places_inv_def)
qed

lemma allApplicationsRunning_mset:
  "mset apps' = mset apps \<Longrightarrow> allApplicationsRunning apps' r = allApplicationsRunning apps r"
  unfolding allApplicationsRunning_def list_all_iff by (drule mset_eq_setD) simp

lemma recv_success_cases:
  assumes "statuses st = (a, None) # rest"
  defines "st1 \<equiv> st\<lparr>statuses := rest,
      runningApps := AList.update (ID a) ApplicationStatusRunning (runningApps st),
      history := history st @ [Confirmed (ID a)]\<rparr>"
  obtains (failed) s r where "recv_step SS name zone vs apps st = st1\<lparr>storage := s, outcome := Some r\<rparr>"
      "r \<noteq> Ok ()"
  | (finished) s1 s2 where "SaveApplicationStatus SS name zone (ID a) ApplicationStatusRunning (storage st) = (Ok (), s1)"
      "SaveStackVariables SS name zone vs s1 = (Ok (), s2)"
      "allApplicationsRunning apps (runningApps st1)"
      "recv_step SS name zone vs apps st = st1\<lparr>storage := s2, outcome := Some (Ok ())\<rparr>"
  | (launching) s1 s2 where "SaveApplicationStatus SS name zone (ID a) ApplicationStatusRunning (storage st) = (Ok (), s1)"
      "SaveStackVariables SS name zone vs s1 = (Ok (), s2)"
      "\<not> allApplicationsRunning apps (runningApps st1)"
      "recv_step SS name zone vs apps st = launch_ready apps (st1\<lparr>storage := s2\<rparr>)"
proof -
  obtain r1 s1 where 1: "SaveApplicationStatus SS name zone (ID a) ApplicationStatusRunning (storage st) = (r1, s1)"
    by fastforce
  obtain r2 s2 where 2: "SaveStackVariables SS name zone vs s1 = (r2, s2)" by fastforce
  show thesis
  proof (cases "r1 = Ok () \<and> r2 = Ok ()")
    case True
    then have save: "SaveApplicationStatus SS name zone (ID a) ApplicationStatusRunning (storage st) = (Ok (), s1)"
      "SaveStackVariables SS name zone vs s1 = (Ok (), s2)" using 1 2 by simp_all
    show thesis
    proof (cases "allApplicationsRunning apps (runningApps st1)")
      case True
      show thesis
        by (rule finished [OF save True])
           (use True in \<open>simp add: recv_step_def assms(1) Let_def save st1_def\<close>)
    next
      case False
      show thesis
        by (rule launching [OF save False])
           (use False in \<open>simp add: recv_step_def assms(1) Let_def save st1_def\<close>)
    qed
  next
    case False
    show thesis
    proof (cases "r1 = Ok ()")
      case True
      show thesis
        by (rule failed [of r2 s2])
           (use False True in \<open>cases r2; simp add: recv_step_def assms(1) Let_def 1 2 st1_def\<close>)+
    next
      case False
      show thesis
        by (rule failed [of r1 s1])
           (use False in \<open>cases r1; simp add: recv_step_def assms(1) Let_def 1 2 st1_def\<close>)+
    qed
  qed
qed

lemma recv_inv:
  assumes inv: "run_inv apps st" and o: "outcome st = None" and ne: "statuses st \<noteq> []"
    and m: "mset apps' = mset apps"
  shows "run_inv apps (recv_step SS name zone vs apps' st)"
proof -
  from ne obtain a err rest where q: "statuses st = (a, err) # rest" by (cases "statuses st") auto
  have P: "places_inv apps st" and H: "history_inv apps st" and W: "waiting_inv apps st"
    using inv o by (auto simp: run_inv_def)
  show ?thesis
  proof (cases err)
    case (Some e)
    have "places_inv apps (st\<lparr>statuses := rest\<rparr>)" "history_inv apps (st\<lparr>statuses := rest\<rparr>)"
      using drop_failed_inv [OF P q] H by (simp_all add: history_inv_def)
    then show ?thesis by (simp add: recv_step_def q Some run_inv_def)
  next
    case None
    let ?st1 = "st\<lparr>statuses := rest,
      runningApps := AList.update (ID a) ApplicationStatusRunning (runningApps st),
      history := history st @ [Confirmed (ID a)]\<rparr>"
    note C = confirm_inv [OF P H q [unfolded None]]
    from q None have "statuses st = (a, None) # rest" by simp
    then show ?thesis
    proof (cases rule: recv_success_cases [where SS = SS and name = name and zone = zone
        and vs = vs and apps = apps'])
      case (failed s r)
      then show ?thesis using C by (simp add: run_inv_def)
    next
      case (finished s1 s2)
      then show ?thesis
        using C unfolding allApplicationsRunning_mset [OF m] by (simp add: run_inv_def)
    next
      case (launching s1 s2)
      have "x \<in> ID ` set (inflight st) \<union> (\<lambda>p. ID (fst p)) ` set rest"
        if "map_of (runningApps ?st1) x = Some ApplicationStatusStaging" for x
        using that W q by (auto simp: waiting_inv_def split: if_splits)
      then have "\<forall>x. map_of (runningApps (?st1\<lparr>storage := s2\<rparr>)) x = Some ApplicationStatusStaging \<longrightarrow>
          x \<in> ID ` set (inflight (?st1\<lparr>storage := s2\<rparr>)) \<union>
            (\<lambda>p. ID (fst p)) ` set (statuses (?st1\<lparr>storage := s2\<rparr>))" by simp
      note L = launch_ready_inv [OF _ _ _ this, of apps apps']
      have "\<not> allApplicationsRunning apps (runningApps ?st1)"
        using launching(3) unfolding allApplicationsRunning_mset [OF m] .
      then show ?thesis
        using L C o mset_eq_setD [OF m] unfolding launching(4) run_inv_def
        by (simp add: launch_ready_def split: prod.split)
    qed
  qed
qed

lemma run_step_inv: "run_step SS name zone apps results st st' \<Longrightarrow> run_inv apps st \<Longrightarrow> run_inv apps st'"
  by (elim run_stepE) (auto intro: finish_inv recv_inv)

lemma run_steps_inv:
  "(run_step SS name zone apps results)\<^sup>*\<^sup>* st st' \<Longrightarrow> run_inv apps st \<Longrightarrow> run_inv apps st'"
  by (induction rule: rtranclp_induct) (auto intro: run_step_inv)

section \<open>The start state\<close>

definition skip_inv :: "Application list \<Rightarrow> skip_state \<Rightarrow> bool" where
  "skip_inv apps st = (case st of (running, queue, ev) \<Rightarrow>
     fst ` set queue \<subseteq> set apps \<and> launches ev = [] \<and>
     (\<forall>x. Skipped x \<in> set ev \<longrightarrow> map_of running x \<noteq> None) \<and>
     (\<forall>x. map_of running x \<noteq> None \<longrightarrow> map_of running x = Some ApplicationStatusRunning \<and>
        Skipped x \<in> set ev \<and> x \<in> (\<lambda>p. ID (fst p)) ` set queue) \<and>
     (\<forall>p \<in> set queue. map_of running (ID (fst p)) = Some ApplicationStatusRunning))"

lemma launches_Skipped [simp]: "launches [Skipped x] = []"
  by (simp add: launches_def List.map_filter_def)

lemma skip_one:
  assumes "skip_inv apps (running, queue, ev)" and "a \<in> set apps"
  shows "skip_inv apps (AList.update (ID a) ApplicationStatusRunning running, queue @ [(a, None)],
    ev @ [Skipped (ID a)])"
  using assms by (auto simp: skip_inv_def split: if_splits)

lemma skip_matching_inv:
  "skip_matching f cap as st = Returns st' \<Longrightarrow> skip_inv apps st \<Longrightarrow> set as \<subseteq> set apps \<Longrightarrow>
     skip_inv apps st'"
proof (induction as arbitrary: st)
  case Nil
  then show ?case by simp
next
  case (Cons a as)
  obtain running queue ev where st: "st = (running, queue, ev)" by (cases st)
  with Cons show ?case
    by (auto split: if_splits intro: skip_one)
qed

text \<open>What every pattern preserves, the outer loop preserves.\<close>

lemma markSkippedApps_preserves:
  assumes "markSkippedApps rx ord n cap apps ps st = Returns st'" and "P st"
    and "\<And>f n u u'. skip_matching f cap (ord n apps) u = Returns u' \<Longrightarrow> P u \<Longrightarrow> P u'"
  shows "P st'"
  using assms(1,2)
proof (induction ps arbitrary: n st)
  case Nil
  then show ?case by simp
next
  case (Cons p ps)
  from Cons.prems(1) obtain st1 where
    r: "skip_matching (MatchString rx p) cap (ord n apps) st = Returns st1"
    and rest: "markSkippedApps rx ord (Suc n) cap apps ps st1 = Returns st'"
    by (auto split: option.splits blocking.splits)
  show ?case by (rule Cons.IH [OF rest assms(3) [OF r Cons.prems(2)]])
qed

lemma markSkippedApps_inv:
  assumes "markSkippedApps rx ord n cap apps ps st = Returns st'" and "skip_inv apps st"
    and "\<And>n. set (ord n apps) \<subseteq> set apps"
  shows "skip_inv apps st'"
  by (rule markSkippedApps_preserves [where P = "skip_inv apps", OF assms(1,2)])
     (rule skip_matching_inv [OF _ _ assms(3)])

lemma skip_start_inv:
  assumes "skip_inv apps (running, queue, ev)" and "set apps' = set apps"
  shows "run_inv apps (launch_ready apps'
    \<lparr>runningApps = running, inflight = [], statuses = queue, storage = store, history = ev,
     outcome = None\<rparr>)"
proof -
  let ?st = "\<lparr>runningApps = running, inflight = [], statuses = queue, storage = store, history = ev,
     outcome = None\<rparr>"
  have r: "map_of running x = None \<or> map_of running x = Some ApplicationStatusRunning" for x
    using assms(1) by (auto simp: skip_inv_def)
  then have stg: "staged ?st = []"
    by (auto simp: staged_def filter_empty_conv) (metis ApplicationStatus.distinct(1) option.distinct(1) option.inject)
  have F: "map_of running x \<noteq> Some ApplicationStatusStaging \<and>
      map_of running x \<noteq> Some ApplicationStatusFailed" for x
    using r [of x] by auto
  have P: "places_inv apps ?st"
    using assms(1) F stg by (auto simp: places_inv_def skip_inv_def)
  have "ordered apps ev"
  proof -
    have "ev ! i \<noteq> Launched x" if "i < length ev" for i x
    proof
      assume "ev ! i = Launched x"
      with that have "x \<in> set (launches ev)"
        by (force simp: launches_def List.map_filter_def in_set_conv_nth)
      with assms(1) show False by (simp add: skip_inv_def)
    qed
    then show ?thesis by (simp add: ordered_def)
  qed
  moreover have "confirmed_before ev (length ev) x" if "Skipped x \<in> set ev" for x
    using that by (auto simp: confirmed_before_def in_set_conv_nth)
  ultimately have H: "history_inv apps ?st"
    using assms(1) by (auto simp: history_inv_def skip_inv_def)
  have N: "allApplicationsRunning apps running \<Longrightarrow> queue \<noteq> [] \<or> apps = []"
    using assms(1) by (cases apps) (auto simp: allApplicationsRunning_def skip_inv_def)
  have L: "places_inv apps (launch_ready apps' ?st)" "history_inv apps (launch_ready apps' ?st)"
    "waiting_inv apps (launch_ready apps' ?st)"
    by (rule launch_ready_inv [OF P H assms(2)]; use F N in simp)+
  moreover have "outcome (launch_ready apps' ?st) = None"
    by (simp add: launch_ready_def split: prod.split)
  ultimately show ?thesis by (simp add: run_inv_def)
qed

lemma Stack_Run_inv:
  assumes "Stack_Run rx runners info ord apps' skips name zone s vs store = Returns (vs', st)"
    and "mset apps' = mset (stack_apps s)" and "\<And>n xs. mset (ord n xs) = mset xs"
  shows "run_inv (stack_apps s) st"
proof -
  from assms(1) obtain running queue ev where
    m: "markSkippedApps rx ord 0 (mlen (Applications s)) (stack_apps s) skips ([], [], []) =
      Returns (running, queue, ev)"
    and st: "st = launch_ready apps' \<lparr>runningApps = running, inflight = [], statuses = queue,
      storage = store, history = ev, outcome = None\<rparr>"
    by (auto simp: Stack_Run_def split: result.splits blocking.splits)
  have "skip_inv (stack_apps s) (running, queue, ev)"
    by (rule markSkippedApps_inv [OF m])
       (use assms(3) mset_eq_setD in \<open>fastforce simp: skip_inv_def\<close>)+
  then show ?thesis
    unfolding st using mset_eq_setD [OF assms(2)] by (rule skip_start_inv)
qed

end
