(* ===== verification/StackOrder.thy ===== *)
theory StackOrder
  imports StackRun
begin

text \<open>
  What a deployment guarantees (\<open>Stack.Run\<close>, src/framework/stack.go), over every
  interleaving of the goroutines and every range order: the order of the launches, at
  most one launch per application, what success means, a bound on the number of steps,
  and completion when the dependencies can be satisfied; and the inputs on which the
  deployment never returns.
\<close>

section \<open>Termination\<close>

definition weight :: "Application list \<Rightarrow> 's run_state \<Rightarrow> nat" where
  "weight apps st =
     2 * card (ID ` set apps - dom (map_of (runningApps st))) + 2 * length (inflight st) +
     length (statuses st)"

lemma launch_ready_weight:
  assumes "set apps' \<subseteq> set apps"
  shows "weight apps (launch_ready apps' st) = weight apps st"
proof -
  obtain running ls where r: "runApplications apps' (runningApps st) = (running, ls)" by fastforce
  have sub: "ID ` set ls \<subseteq> ID ` set apps - dom (map_of (runningApps st))"
    using runApplications_launched [OF r] assms by (auto simp: domIff)
  have "dom (map_of running) = dom (map_of (runningApps st)) \<union> ID ` set ls"
    using runApplications_map [OF r] by (auto simp: dom_def split: if_splits)
  then have "ID ` set apps - dom (map_of running) =
      (ID ` set apps - dom (map_of (runningApps st))) - ID ` set ls" by blast
  moreover have "card (ID ` set ls) = length ls"
    using distinct_card [OF runApplications_distinct [OF r]] by simp
  ultimately have "card (ID ` set apps - dom (map_of running)) + length ls =
      card (ID ` set apps - dom (map_of (runningApps st)))"
    using sub card_mono [OF _ sub] by (simp add: card_Diff_subset)
  then show ?thesis by (simp add: weight_def launch_ready_def r)
qed

lemma weight_irrelevant [simp]:
  "weight apps (st\<lparr>storage := x\<rparr>) = weight apps st"
  "weight apps (st\<lparr>outcome := y\<rparr>) = weight apps st"
  by (simp_all add: weight_def)

lemma confirm_weight:
  assumes "statuses st = (a, None) # rest"
  shows "weight apps (st\<lparr>statuses := rest,
      runningApps := AList.update (ID a) ApplicationStatusRunning (runningApps st),
      history := history st @ [Confirmed (ID a)]\<rparr>) < weight apps st"
proof -
  have "card (ID ` set apps - insert (ID a) (dom (map_of (runningApps st))))
      \<le> card (ID ` set apps - dom (map_of (runningApps st)))"
    by (rule card_mono) auto
  then show ?thesis by (simp add: weight_def assms)
qed

lemma run_step_weight:
  assumes "run_step SS name zone apps results st st'"
  shows "weight apps st' < weight apps st"
  using assms
proof (cases rule: run_step.cases)
  case (finish i err)
  then show ?thesis by (simp add: weight_def finish_step_def)
next
  case (receive apps' vs)
  then obtain a err rest where q: "statuses st = (a, err) # rest" by (cases "statuses st") auto
  show ?thesis
  proof (cases err)
    case (Some e)
    with receive(1) q show ?thesis by (simp add: recv_step_def weight_def)
  next
    case None
    with q have "statuses st = (a, None) # rest" by simp
    note w = confirm_weight [OF this, of apps]
    have sub: "set apps' \<subseteq> set apps" using mset_eq_setD [OF receive(4)] by simp
    from \<open>statuses st = (a, None) # rest\<close> show ?thesis
      unfolding receive(1)
      by (cases rule: recv_success_cases [where SS = SS and name = name and zone = zone
        and vs = vs and apps = apps'])
         (use w in \<open>simp_all add: launch_ready_weight [OF sub]\<close>)
  qed
qed

lemma run_steps_weight:
  "(run_step SS name zone apps results ^^ n) st st' \<Longrightarrow> n + weight apps st' \<le> weight apps st"
proof (induction n arbitrary: st')
  case 0
  then show ?case by simp
next
  case (Suc n)
  then obtain u where "(run_step SS name zone apps results ^^ n) st u"
    and "run_step SS name zone apps results u st'" by auto
  with Suc.IH [of u] run_step_weight [of SS name zone apps results u st'] show ?case by simp
qed

section \<open>Progress\<close>

text \<open>Dependencies that can be satisfied: each names an application of the stack, and
  none leads back.\<close>

definition well_founded_deps :: "(string \<Rightarrow> nat) \<Rightarrow> Application list \<Rightarrow> bool" where
  "well_founded_deps rank apps \<longleftrightarrow>
     list_all (\<lambda>a. list_all (\<lambda>d. d \<in> ID ` set apps \<and> rank d < rank (ID a)) (Dependencies a)) apps"

lemma waiting_progress:
  assumes "run_inv apps st" and "outcome st = None" and "apps \<noteq> []"
    and "well_founded_deps rank apps"
  shows "inflight st \<noteq> [] \<or> statuses st \<noteq> []"
proof (rule ccontr)
  assume "\<not> ?thesis"
  then have empty: "inflight st = []" "statuses st = []" by simp_all
  let ?r = "map_of (runningApps st)"
  have W: "waiting_inv apps st" and P: "places_inv apps st"
    using assms(1,2) by (auto simp: run_inv_def)
  have cases: "?r x = None \<or> ?r x = Some ApplicationStatusRunning" for x
    using W P empty by (cases "?r x"; cases "the (?r x)") (auto simp: waiting_inv_def places_inv_def)
  have none: "?r (ID a) \<noteq> None" if "a \<in> set apps" for a
    using that
  proof (induction "rank (ID a)" arbitrary: a rule: less_induct)
    case less
    show ?case
    proof
      assume "?r (ID a) = None"
      with W less.prems obtain d where d: "d \<in> set (Dependencies a)"
        "?r d \<noteq> Some ApplicationStatusRunning" by (auto simp: waiting_inv_def)
      then have "?r d = None" using cases by blast
      moreover from assms(4) less.prems d(1) obtain b where "b \<in> set apps" "d = ID b"
        "rank d < rank (ID a)" unfolding well_founded_deps_def list_all_iff by blast
      ultimately show False using less.hyps [of b] by auto
    qed
  qed
  then have "allApplicationsRunning apps (runningApps st)"
    using cases unfolding allApplicationsRunning_def list_all_iff by blast
  with W empty assms(3) show False by (simp add: waiting_inv_def)
qed

lemma some_step:
  assumes "inflight st \<noteq> [] \<or> statuses st \<noteq> []" and "outcome st = None" and "apps \<noteq> []"
    and "\<forall>a \<in> set (inflight st). \<exists>e. (a, e) \<in> results"
  shows "\<exists>st'. run_step SS name zone apps results st st'"
proof (cases "statuses st = []")
  case True
  with assms(1) obtain a where "a = inflight st ! 0" "0 < length (inflight st)" by simp
  with assms(4) obtain e where "(inflight st ! 0, e) \<in> results" by fastforce
  with True assms(3) \<open>0 < length (inflight st)\<close> show ?thesis
    using finish [of 0 st e results apps SS name zone] by auto
next
  case False
  show ?thesis using receive [OF assms(2) False refl] by blast
qed

text \<open>A storage on which every save of a run succeeds.\<close>

definition saves :: "'s StateStorage \<Rightarrow> string \<Rightarrow> string \<Rightarrow> ('s \<Rightarrow> bool) \<Rightarrow> bool" where
  "saves SS name zone P \<longleftrightarrow>
     (\<forall>s a x. P s \<longrightarrow> (\<exists>s'. SaveApplicationStatus SS name zone a x s = (Ok (), s') \<and> P s')) \<and>
     (\<forall>s v. P s \<longrightarrow> (\<exists>s'. SaveStackVariables SS name zone v s = (Ok (), s') \<and> P s'))"

definition no_failure :: "('s \<Rightarrow> bool) \<Rightarrow> 's run_state \<Rightarrow> bool" where
  "no_failure P st \<longleftrightarrow>
     P (storage st) \<and> snd ` set (statuses st) \<subseteq> {None} \<and> outcome st \<in> {None, Some (Ok ())}"

lemma no_failure_step:
  assumes "run_step SS name zone apps (UNIV \<times> {None}) st st'" and "saves SS name zone P"
    and "no_failure P st"
  shows "no_failure P st'"
  using assms(1)
proof (cases rule: run_step.cases)
  case (finish i err)
  with assms(3) show ?thesis by (auto simp: no_failure_def finish_step_def)
next
  case (receive apps' vs)
  with assms(3) obtain a rest where q: "statuses st = (a, None) # rest"
    by (cases "statuses st") (auto simp: no_failure_def)
  from assms(3) have "P (storage st)" by (simp add: no_failure_def)
  with assms(2) obtain s1 where s1: "P s1"
    "SaveApplicationStatus SS name zone (ID a) ApplicationStatusRunning (storage st) = (Ok (), s1)"
    unfolding saves_def by blast
  with assms(2) obtain s2 where s2: "P s2" "SaveStackVariables SS name zone vs s1 = (Ok (), s2)"
    unfolding saves_def by blast
  show ?thesis
    using assms(3) s1 s2 receive(2)
    by (auto simp: receive(1) recv_step_def q Let_def no_failure_def launch_ready_def
        split: prod.split)
qed

lemma no_failure_steps:
  "(run_step SS name zone apps (UNIV \<times> {None}))\<^sup>*\<^sup>* st st' \<Longrightarrow> saves SS name zone P \<Longrightarrow>
     no_failure P st \<Longrightarrow> no_failure P st'"
  by (induction rule: rtranclp_induct) (auto intro: no_failure_step)

section \<open>Whole deployments\<close>

text \<open>The states right before the loop, over all range orders.\<close>

definition starts ::
    "regexp \<Rightarrow> (string \<Rightarrow> bool) \<Rightarrow> string list \<Rightarrow> string \<Rightarrow> string \<Rightarrow> Stack \<Rightarrow> 's \<Rightarrow> 's run_state \<Rightarrow> bool" where
  "starts rx runners skips name zone s store st \<longleftrightarrow>
     (\<exists>info ord apps' vs vs'. (\<forall>n xs. mset (ord n xs) = mset xs) \<and> mset apps' = mset (stack_apps s) \<and>
        Stack_Run rx runners info ord apps' skips name zone s vs store = Returns (vs', st))"

text \<open>The states of a deployment, over all interleavings and results.\<close>

definition deploys ::
    "'s StateStorage \<Rightarrow> regexp \<Rightarrow> (string \<Rightarrow> bool) \<Rightarrow> string list \<Rightarrow> string \<Rightarrow> string \<Rightarrow> Stack
     \<Rightarrow> ApplicationRunStatus set \<Rightarrow> 's \<Rightarrow> 's run_state \<Rightarrow> bool" where
  "deploys SS rx runners skips name zone s results store st \<longleftrightarrow>
     (\<exists>st0. starts rx runners skips name zone s store st0 \<and>
        (run_step SS name zone (stack_apps s) results)\<^sup>*\<^sup>* st0 st)"

lemma starts_deploys:
  "starts rx runners skips name zone s store st \<Longrightarrow>
     deploys SS rx runners skips name zone s results store st"
  unfolding deploys_def by blast

lemma deploys_inv:
  "deploys SS rx runners skips name zone s results store st \<Longrightarrow> run_inv (stack_apps s) st"
  unfolding deploys_def starts_def
  by (blast intro: Stack_Run_inv run_steps_inv)

text \<open>The channel of the start state: within its capacity, and successes only; no event
  of the start is a confirmation.\<close>

definition skip_bounds :: "nat \<Rightarrow> skip_state \<Rightarrow> bool" where
  "skip_bounds cap st = (case st of (r, q, ev) \<Rightarrow>
     length q \<le> cap \<and> snd ` set q \<subseteq> {None} \<and> (\<forall>x. Confirmed x \<notin> set ev))"

lemma skip_matching_bounds:
  "skip_matching f cap as st = Returns st' \<Longrightarrow> skip_bounds cap st \<Longrightarrow> skip_bounds cap st'"
  by (induction f cap as st rule: skip_matching.induct)
     (auto simp: skip_bounds_def split: if_splits)

lemma markSkippedApps_bounds:
  "markSkippedApps rx ord n cap apps ps ([], [], []) = Returns st' \<Longrightarrow> skip_bounds cap st'"
  by (erule markSkippedApps_preserves [where P = "skip_bounds cap"])
     (simp add: skip_bounds_def, erule (1) skip_matching_bounds)

lemma validated_apps:
  assumes "Stack_Validate rx runners s = Ok ()"
  shows "mlen (Applications s) = length (stack_apps s)"
proof -
  have "length es = length (List.map_filter snd es)"
    if "\<forall>(n, p) \<in> set es. p \<noteq> None" for es :: "(string \<times> Application option) list"
    using that by (induction es) (auto simp: List.map_filter_simps)
  moreover have "\<forall>(n, p) \<in> set (entries (Applications s)). p \<noteq> None"
    using assms unfolding Stack_Validate_def validate_loop_iff by fastforce
  ultimately show ?thesis by (simp add: mlen_def stack_apps_def)
qed

lemma Stack_Run_Returns:
  assumes "Stack_Run rx runners info ord apps' skips name zone s vs store = Returns (vs', st)"
  obtains running q ev where "Stack_Validate rx runners s = Ok ()"
    "markSkippedApps rx ord 0 (mlen (Applications s)) (stack_apps s) skips ([], [], []) =
      Returns (running, q, ev)"
    "st = launch_ready apps' \<lparr>runningApps = running, inflight = [], statuses = q,
      storage = store, history = ev, outcome = None\<rparr>"
  using assms
  by (cases "Stack_Validate rx runners s")
     (auto simp: Stack_Run_def split: result.splits blocking.splits)

lemma starts_state:
  assumes "starts rx runners skips name zone s store st"
  shows "storage st = store" and "outcome st = None" and "snd ` set (statuses st) \<subseteq> {None}"
    and "weight (stack_apps s) st \<le> 3 * length (stack_apps s)"
proof -
  from assms obtain running q ev apps' ord where
    m: "markSkippedApps rx ord 0 (mlen (Applications s)) (stack_apps s) skips ([], [], []) =
      Returns (running, q, ev)"
    and st: "st = launch_ready apps' \<lparr>runningApps = running, inflight = [], statuses = q,
      storage = store, history = ev, outcome = None\<rparr>"
    and a: "mset apps' = mset (stack_apps s)" and v: "Stack_Validate rx runners s = Ok ()"
    unfolding starts_def by (blast elim: Stack_Run_Returns)
  show "storage st = store" "outcome st = None"
    by (simp_all add: st launch_ready_def split: prod.split)
  show "snd ` set (statuses st) \<subseteq> {None}"
    using markSkippedApps_bounds [OF m] by (simp add: skip_bounds_def st launch_ready_def split: prod.split)
  have "weight (stack_apps s) st \<le> 2 * card (ID ` set (stack_apps s)) + length q"
    unfolding st launch_ready_weight [OF equalityD1 [OF mset_eq_setD [OF a]]]
    by (simp add: weight_def card_mono Diff_subset)
  moreover have "card (ID ` set (stack_apps s)) \<le> length (stack_apps s)"
    by (metis card_length list.set_map length_map)
  moreover have "length q \<le> length (stack_apps s)"
    using markSkippedApps_bounds [OF m] validated_apps [OF v] by (simp add: skip_bounds_def)
  ultimately show "weight (stack_apps s) st \<le> 3 * length (stack_apps s)" by linarith
qed

lemma starts_history:
  assumes "starts rx runners skips name zone s store st"
  shows "Confirmed x \<notin> set (history st)"
proof -
  from assms obtain running q ev apps' ord where
    m: "markSkippedApps rx ord 0 (mlen (Applications s)) (stack_apps s) skips ([], [], []) =
      Returns (running, q, ev)"
    and st: "st = launch_ready apps' \<lparr>runningApps = running, inflight = [], statuses = q,
      storage = store, history = ev, outcome = None\<rparr>"
    unfolding starts_def by (blast elim: Stack_Run_Returns)
  from markSkippedApps_bounds [OF m] show ?thesis
    by (auto simp: skip_bounds_def st launch_ready_def split: prod.split)
qed

section \<open>A sample deployment\<close>

definition sample_application :: "string \<Rightarrow> string list \<Rightarrow> Application" where
  "sample_application i deps = empty_application
     \<lparr>Type := ''t'', ID := i, Cpu := Fin 1, Mem := Fin 1, Dependencies := deps\<rparr>"

definition sample_stack :: Stack where
  "sample_stack = empty_stack\<lparr>Name := ''s'', Applications := Some
     [(''kafka'', Some (sample_application ''kafka'' [''zk''])),
      (''zk'', Some (sample_application ''zk'' []))]\<rparr>"

definition sample_store :: state_map where
  "sample_store = snd (mem_SaveStackStatus ''s'' ''z'' StackStatusStaging NewInMemoryStateStorage)"

definition sample_start :: "'s \<Rightarrow> 's run_state" where
  "sample_start store = launch_ready (stack_apps sample_stack)
     \<lparr>runningApps = [], inflight = [], statuses = [], storage = store, history = [],
      outcome = None\<rparr>"

definition sample_turn :: "'s StateStorage \<Rightarrow> 's run_state \<Rightarrow> 's run_state" where
  "sample_turn SS st = recv_step SS ''s'' ''z'' NewVariables (stack_apps sample_stack)
     (finish_step 0 None st)"

text \<open>The states after the first and after the second application is up, in memory.\<close>

definition sample_half :: "state_map run_state" where
  "sample_half = sample_turn InMemoryStateStorage (sample_start sample_store)"

definition sample_end :: "state_map run_state" where
  "sample_end = sample_turn InMemoryStateStorage sample_half"

text \<open>A deployment without skip patterns starts from the empty map of states.\<close>

lemma starts_plain:
  assumes "Stack_Validate rx runners s = Ok ()"
  shows "starts rx runners [] name zone s store (launch_ready (stack_apps s)
    \<lparr>runningApps = [], inflight = [], statuses = [], storage = store, history = [], outcome = None\<rparr>)"
  unfolding starts_def
proof (intro exI conjI allI)
  show "mset xs = mset xs" for n :: nat and xs :: "Application list" ..
  show "mset (stack_apps s) = mset (stack_apps s)" ..
  show "Stack_Run rx runners (Ok []) (\<lambda>n xs. xs) (stack_apps s) [] name zone s NewVariables store =
    Returns (set_run_variables [] zone name NewVariables, launch_ready (stack_apps s)
      \<lparr>runningApps = [], inflight = [], statuses = [], storage = store, history = [],
       outcome = None\<rparr>)"
    by (simp add: Stack_Run_def assms)
qed

lemma sample_starts:
  "starts literal_regexp (\<lambda>_. False) [] ''s'' ''z'' sample_stack store (sample_start store)"
  unfolding sample_start_def
  by (rule starts_plain)
     (simp add: Stack_Validate_def sample_stack_def sample_application_def empty_stack_def
        empty_application_def Application_Validate_def ParseConstraints_def)

lemma turn_steps:
  assumes "inflight st \<noteq> []" and "length (statuses st) < 2" and "outcome st = None"
  shows "(run_step SS ''s'' ''z'' (stack_apps sample_stack) (UNIV \<times> {None}))\<^sup>*\<^sup>* st (sample_turn SS st)"
proof -
  let ?step = "run_step SS ''s'' ''z'' (stack_apps sample_stack) (UNIV \<times> {None})"
  have "length (stack_apps sample_stack) = 2" by (simp add: stack_apps_def sample_stack_def
    List.map_filter_simps)
  then have "?step st (finish_step 0 None st)" using assms by (intro finish) auto
  moreover have "?step (finish_step 0 None st) (sample_turn SS st)"
    unfolding sample_turn_def by (rule receive) (use assms in \<open>auto simp: finish_step_def\<close>)
  ultimately show ?thesis by (meson rtranclp.rtrancl_into_rtrancl r_into_rtranclp)
qed

lemma start_facts:
  "inflight (sample_start store) \<noteq> []" "statuses (sample_start store) = []"
  "outcome (sample_start store) = None"
  by code_simp+

lemma sample_facts:
  "inflight sample_half \<noteq> []" "statuses sample_half = []" "outcome sample_half = None"
  "history sample_half = [Launched ''zk'', Confirmed ''zk'', Launched ''kafka'']"
  "inflight sample_end = []" "statuses sample_end = []" "outcome sample_end = Some (Ok ())"
  by code_simp+

lemma two_turns:
  assumes "inflight (sample_turn SS (sample_start store)) \<noteq> []"
    and "statuses (sample_turn SS (sample_start store)) = []"
    and "outcome (sample_turn SS (sample_start store)) = None"
  shows "deploys SS literal_regexp (\<lambda>_. False) [] ''s'' ''z'' sample_stack (UNIV \<times> {None}) store
      (sample_turn SS (sample_start store))"
    and "deploys SS literal_regexp (\<lambda>_. False) [] ''s'' ''z'' sample_stack (UNIV \<times> {None}) store
      (sample_turn SS (sample_turn SS (sample_start store)))"
proof -
  have 1: "(run_step SS ''s'' ''z'' (stack_apps sample_stack) (UNIV \<times> {None}))\<^sup>*\<^sup>*
      (sample_start store) (sample_turn SS (sample_start store))"
    by (rule turn_steps) (simp_all add: start_facts)
  have 2: "(run_step SS ''s'' ''z'' (stack_apps sample_stack) (UNIV \<times> {None}))\<^sup>*\<^sup>*
      (sample_turn SS (sample_start store)) (sample_turn SS (sample_turn SS (sample_start store)))"
    by (rule turn_steps) (simp_all add: assms)
  show "deploys SS literal_regexp (\<lambda>_. False) [] ''s'' ''z'' sample_stack (UNIV \<times> {None}) store
      (sample_turn SS (sample_start store))"
    unfolding deploys_def by (intro exI conjI) (rule sample_starts, rule 1)
  show "deploys SS literal_regexp (\<lambda>_. False) [] ''s'' ''z'' sample_stack (UNIV \<times> {None}) store
      (sample_turn SS (sample_turn SS (sample_start store)))"
    unfolding deploys_def by (intro exI conjI) (rule sample_starts, rule rtranclp_trans [OF 1 2])
qed

lemma sample_deploys:
  "deploys InMemoryStateStorage literal_regexp (\<lambda>_. False) [] ''s'' ''z'' sample_stack (UNIV \<times> {None})
     sample_store sample_half"
  "deploys InMemoryStateStorage literal_regexp (\<lambda>_. False) [] ''s'' ''z'' sample_stack (UNIV \<times> {None})
     sample_store sample_end"
  using two_turns [of InMemoryStateStorage sample_store] sample_facts(1-3)
  unfolding sample_end_def sample_half_def by blast+

section \<open>Properties\<close>

text \<open>C1: Dependency order. In every deployment, whatever the range orders, the
  interleaving of the goroutines and the results of the applications, an application is
  launched only after each of its dependencies was skipped on request or confirmed to
  run.\<close>
theorem dependency_order:
  assumes "deploys SS rx runners skips name zone s results store st"
    and "i < length (history st)" and "history st ! i = Launched x"
  shows "\<exists>a \<in> set (stack_apps s). ID a = x \<and>
    (\<forall>d \<in> set (Dependencies a). \<exists>j < i. history st ! j = Skipped d \<or> history st ! j = Confirmed d)"
  using deploys_inv [OF assms(1)] assms(2,3)
  by (simp add: run_inv_def history_inv_def ordered_def confirmed_before_def)

theorem dependency_order_witness:
  "\<exists>a j. a \<in> set (stack_apps sample_stack) \<and> ID a = ''kafka'' \<and> j < 2 \<and>
     (history sample_half ! j = Skipped ''zk'' \<or> history sample_half ! j = Confirmed ''zk'')"
proof -
  have "\<exists>a \<in> set (stack_apps sample_stack). ID a = ''kafka'' \<and>
      (\<forall>d \<in> set (Dependencies a). \<exists>j < 2. history sample_half ! j = Skipped d \<or>
        history sample_half ! j = Confirmed d)"
    by (rule dependency_order [OF sample_deploys(1)]) (simp_all add: sample_facts)
  moreover have "''zk'' \<in> set (Dependencies a)"
    if "a \<in> set (stack_apps sample_stack)" "ID a = ''kafka''" for a
    using that by (auto simp: stack_apps_def sample_stack_def sample_application_def
        empty_application_def)
  ultimately show ?thesis by metis
qed

text \<open>C2: No application is launched twice, and a skipped one is never launched.\<close>
theorem launched_once:
  assumes "deploys SS rx runners skips name zone s results store st"
  shows "distinct (launches (history st)) \<and>
    (\<forall>x. Skipped x \<in> set (history st) \<longrightarrow> Launched x \<notin> set (history st))"
proof -
  have "x \<in> set (launches h)" if "Launched x \<in> set h" for x h
    using that by (force simp: launches_def List.map_filter_def)
  with deploys_inv [OF assms] show ?thesis
    unfolding run_inv_def history_inv_def by blast
qed

theorem launched_once_witness: "distinct (launches (history sample_half))"
  using launched_once [OF sample_deploys(1)] by blast

text \<open>C6: A deployment always comes to rest: it makes at most three steps per application
  (finish, receive, and the receipt of a skip mark), whatever the dependencies and the
  results are.\<close>
theorem deployment_bounded:
  assumes "starts rx runners skips name zone s store st0"
    and "(run_step SS name zone (stack_apps s) results ^^ n) st0 st"
  shows "n \<le> 3 * length (stack_apps s)"
  using run_steps_weight [OF assms(2)] starts_state(4) [OF assms(1)] by linarith

theorem deployment_bounded_witness: "1 \<le> 3 * length (stack_apps sample_stack)"
proof (rule deployment_bounded [OF sample_starts])
  have "length (stack_apps sample_stack) = 2"
    by (simp add: stack_apps_def sample_stack_def List.map_filter_simps)
  then show "(run_step InMemoryStateStorage ''s'' ''z'' (stack_apps sample_stack) UNIV ^^ 1)
      (sample_start sample_store) (finish_step 0 None (sample_start sample_store))"
    unfolding relpowp_1 using start_facts [of sample_store] by (intro finish) auto
qed

text \<open>C7: Completion. If the dependencies of a non-empty stack name its applications and
  have no cycle, every application succeeds and the states can be saved, then a
  deployment that has come to rest has returned success.\<close>
theorem deployment_completes:
  assumes "deploys SS rx runners skips name zone s (UNIV \<times> {None}) store st"
    and "stack_apps s \<noteq> []" and "well_founded_deps rank (stack_apps s)"
    and "saves SS name zone P" and "P store"
    and "\<nexists>st'. run_step SS name zone (stack_apps s) (UNIV \<times> {None}) st st'"
  shows "outcome st = Some (Ok ())"
proof (rule ccontr)
  assume "outcome st \<noteq> Some (Ok ())"
  from assms(1) obtain st0 where st0: "starts rx runners skips name zone s store st0"
    and steps: "(run_step SS name zone (stack_apps s) (UNIV \<times> {None}))\<^sup>*\<^sup>* st0 st"
    by (auto simp: deploys_def)
  have "no_failure P st0" using starts_state [OF st0] assms(5) by (simp add: no_failure_def)
  with no_failure_steps [OF steps assms(4)] \<open>outcome st \<noteq> _\<close> have o: "outcome st = None"
    by (auto simp: no_failure_def)
  have "\<exists>st'. run_step SS name zone (stack_apps s) (UNIV \<times> {None}) st st'"
    by (rule some_step [OF waiting_progress [OF deploys_inv [OF assms(1)] o assms(2,3)] o assms(2)])
       auto
  with assms(6) show False by blast
qed

lemma mem_saves:
  "saves InMemoryStateStorage name zone (\<lambda>m. find_state m name zone \<noteq> None)"
  by (auto simp: saves_def InMemoryStateStorage_def mem_SaveApplicationStatus_def
      mem_SaveStackVariables_def find_put_state split: option.splits)

theorem deployment_completes_witness:
  "outcome sample_end = Some (Ok ())"
proof (rule deployment_completes [OF sample_deploys(2) _ _ mem_saves])
  show "stack_apps sample_stack \<noteq> []"
    by (simp add: stack_apps_def sample_stack_def List.map_filter_simps)
  show "well_founded_deps (\<lambda>x. if x = ''zk'' then 0 else 1) (stack_apps sample_stack)"
    by (simp add: well_founded_deps_def stack_apps_def sample_stack_def sample_application_def
        empty_application_def List.map_filter_simps)
  show "find_state sample_store ''s'' ''z'' \<noteq> None" by code_simp
  show "\<nexists>st'. run_step InMemoryStateStorage ''s'' ''z'' (stack_apps sample_stack) (UNIV \<times> {None})
      sample_end st'"
    by (auto simp: sample_facts elim: run_stepE)
qed

section \<open>Success\<close>

text \<open>Confirmed applications are recorded as running, on every storage with the
  contract of \<open>state_storage\<close>.\<close>

context state_storage
begin

lemma confirmed_recorded_step:
  assumes "run_step SS name zone apps results st st'"
    and "outcome st = None \<or> outcome st = Some (Ok ()) \<Longrightarrow>
      \<forall>x. Confirmed x \<in> set (history st) \<longrightarrow>
        recorded (storage st) (name, zone) x = Some ApplicationStatusRunning"
    and "outcome st' = None \<or> outcome st' = Some (Ok ())"
  shows "\<forall>x. Confirmed x \<in> set (history st') \<longrightarrow>
    recorded (storage st') (name, zone) x = Some ApplicationStatusRunning"
  using assms(1)
proof (cases rule: run_step.cases)
  case (finish i err)
  with assms(2,3) show ?thesis by (simp add: finish_step_def)
next
  case (receive apps' vs)
  then obtain a err rest where q: "statuses st = (a, err) # rest" by (cases "statuses st") auto
  with assms(3) receive(1) have "err = None" by (cases err) (simp_all add: recv_step_def)
  with q have q: "statuses st = (a, None) # rest" by simp
  note old = assms(2) [OF disjI1 [OF receive(2)]]
  from q show ?thesis
  proof (cases rule: recv_success_cases [where SS = SS and name = name and zone = zone
      and vs = vs and apps = apps'])
    case (failed s r)
    with assms(3) receive(1) show ?thesis by simp
  next
    case (finished s1 s2)
    with saved_status [OF finished(1,2)] old receive(1) show ?thesis by auto
  next
    case (launching s1 s2)
    with saved_status [OF launching(1,2)] old receive(1) show ?thesis
      by (auto simp: launch_ready_def split: prod.splits)
  qed
qed

lemma confirmed_recorded:
  assumes "deploys SS rx runners skips name zone s results store st"
    and "outcome st = Some (Ok ())" and "Confirmed x \<in> set (history st)"
  shows "recorded (storage st) (name, zone) x = Some ApplicationStatusRunning"
proof -
  from assms(1) obtain st0 where st0: "starts rx runners skips name zone s store st0"
    and steps: "(run_step SS name zone (stack_apps s) results)\<^sup>*\<^sup>* st0 st"
    by (auto simp: deploys_def)
  from steps have "outcome st = None \<or> outcome st = Some (Ok ()) \<longrightarrow>
      (\<forall>x. Confirmed x \<in> set (history st) \<longrightarrow>
        recorded (storage st) (name, zone) x = Some ApplicationStatusRunning)"
  proof (induction rule: rtranclp_induct)
    case base
    then show ?case using starts_history [OF st0] by simp
  next
    case (step y z)
    then show ?case using confirmed_recorded_step by blast
  qed
  with assms show ?thesis by blast
qed

lemma success_meaning:
  assumes "deploys SS rx runners skips name zone s results store st"
    and "outcome st = Some (Ok ())"
  shows "inflight st = [] \<and>
    (\<forall>a \<in> set (stack_apps s). Skipped (ID a) \<in> set (history st) \<or>
       Confirmed (ID a) \<in> set (history st) \<and>
       recorded (storage st) (name, zone) (ID a) = Some ApplicationStatusRunning)"
proof -
  have inv: "run_inv (stack_apps s) st" by (rule deploys_inv [OF assms(1)])
  with assms(2) have all: "map_of (runningApps st) (ID a) = Some ApplicationStatusRunning"
    if "a \<in> set (stack_apps s)" for a
    using that by (auto simp: run_inv_def allApplicationsRunning_def list_all_iff)
  have "inflight st = []"
  proof (rule ccontr)
    assume "inflight st \<noteq> []"
    then obtain b where "b \<in> set (inflight st)" by (cases "inflight st") auto
    with inv all show False by (fastforce simp: run_inv_def places_inv_def)
  qed
  moreover have "Skipped (ID a) \<in> set (history st) \<or> Confirmed (ID a) \<in> set (history st)"
    if "a \<in> set (stack_apps s)" for a
  proof -
    have "confirmed_before (history st) (length (history st)) (ID a)"
      using inv all [OF that] by (simp add: run_inv_def history_inv_def)
    then show ?thesis unfolding confirmed_before_def by (metis nth_mem)
  qed
  ultimately show ?thesis using confirmed_recorded [OF assms] by blast
qed

end

text \<open>C3: Success means that everything runs. When a deployment with the in-memory storage
  has returned success, no goroutine is left that could send on the closed channel, and
  every application of the stack was skipped on request or confirmed to run and is
  recorded as running.\<close>
theorem success_all_running:
  assumes "deploys InMemoryStateStorage rx runners skips name zone s results store st"
    and "outcome st = Some (Ok ())"
  shows "inflight st = [] \<and>
    (\<forall>a \<in> set (stack_apps s). Skipped (ID a) \<in> set (history st) \<or>
       Confirmed (ID a) \<in> set (history st) \<and>
       mem_recorded (storage st) (name, zone) (ID a) = Some ApplicationStatusRunning)"
  by (rule mem.success_meaning [OF assms])

lemma sample_zk: "sample_application ''zk'' [] \<in> set (stack_apps sample_stack)"
  by (simp add: stack_apps_def sample_stack_def)

lemma sample_zk_ID: "ID (sample_application x ds) = x"
  by (simp add: sample_application_def)

theorem success_all_running_witness:
  "mem_recorded (storage sample_end) (''s'', ''z'') ''zk'' = Some ApplicationStatusRunning"
proof -
  have "Skipped ''zk'' \<notin> set (history sample_end)" by code_simp
  then show ?thesis
    using bspec [OF conjunct2 [OF success_all_running [OF sample_deploys(2) sample_facts(7)]]
        sample_zk] by (simp add: sample_zk_ID)
qed

text \<open>The same holds with the Cassandra storage, for every database whose inserts
  replace the row of their primary key: after a successful deployment the table of
  application states has a running row for every application that was not skipped.\<close>
theorem success_all_running_cassandra:
  assumes "cql_upserts S rows"
    and "deploys (CassandraStateStorage S) rx runners skips name zone s results store st"
    and "outcome st = Some (Ok ())"
  shows "inflight st = [] \<and>
    (\<forall>a \<in> set (stack_apps s). Skipped (ID a) \<in> set (history st) \<or>
       Confirmed (ID a) \<in> set (history st) \<and>
       application_rows (rows (storage st)) (name, zone) (ID a) = Some ApplicationStatusRunning)"
  by (rule state_storage.success_meaning [OF cassandra_state_storage [OF assms(1)] assms(2,3)])

definition sample_cassandra :: "state_tables run_state" where
  "sample_cassandra = sample_turn (CassandraStateStorage table_session)
     (sample_turn (CassandraStateStorage table_session)
       (sample_start \<lparr>status_table = [], application_table = [], variable_table = []\<rparr>))"

theorem success_all_running_cassandra_witness:
  "application_rows (table_rows (storage sample_cassandra)) (''s'', ''z'') ''zk'' =
     Some ApplicationStatusRunning"
proof -
  let ?C = "CassandraStateStorage table_session"
  let ?s = "sample_start \<lparr>status_table = [], application_table = [], variable_table = []\<rparr>"
  have "inflight (sample_turn ?C ?s) \<noteq> []" "statuses (sample_turn ?C ?s) = []"
    "outcome (sample_turn ?C ?s) = None" by code_simp+
  note d = two_turns(2) [OF this, folded sample_cassandra_def]
  have o: "outcome sample_cassandra = Some (Ok ())" by code_simp
  have "Skipped ''zk'' \<notin> set (history sample_cassandra)" by code_simp
  then show ?thesis
    using bspec [OF conjunct2 [OF success_all_running_cassandra [OF table_session_laws(1) d o]]
        sample_zk] by (simp add: sample_zk_ID)
qed

section \<open>Deployments that never return\<close>

text \<open>IDs whose applications wait for each other or for something the stack does not have.\<close>

definition unsatisfiable :: "string set \<Rightarrow> Application list \<Rightarrow> bool" where
  "unsatisfiable X apps \<longleftrightarrow>
     (\<exists>a \<in> set apps. ID a \<in> X) \<and>
     (\<forall>a \<in> set apps. ID a \<in> X \<longrightarrow> (\<exists>d \<in> set (Dependencies a). d \<in> X \<or> d \<notin> ID ` set apps))"

definition untouched :: "string set \<Rightarrow> Application list \<Rightarrow> 's run_state \<Rightarrow> bool" where
  "untouched X apps st \<longleftrightarrow>
     (\<forall>x. x \<in> X \<or> x \<notin> ID ` set apps \<longrightarrow> map_of (runningApps st) x = None)"

lemma untouched_launch:
  assumes "unsatisfiable X apps" and "untouched X apps st" and "set apps' \<subseteq> set apps"
  shows "untouched X apps (launch_ready apps' st)"
proof -
  obtain running ls where r: "runApplications apps' (runningApps st) = (running, ls)" by fastforce
  have "ID a \<notin> X" if a: "a \<in> set ls" for a
  proof
    assume "ID a \<in> X"
    with assms(1,3) runApplications_launched [OF r a] obtain d where "d \<in> set (Dependencies a)"
      "d \<in> X \<or> d \<notin> ID ` set apps" unfolding unsatisfiable_def by blast
    with runApplications_launched [OF r a] assms(2) show False by (fastforce simp: untouched_def)
  qed
  moreover have "ID a \<in> ID ` set apps" if "a \<in> set ls" for a
    using runApplications_launched [OF r that] assms(3) by blast
  ultimately show ?thesis
    using assms(2) by (auto simp: untouched_def launch_ready_def r runApplications_map [OF r])
qed

lemma untouched_step:
  assumes "run_step SS name zone apps results st st'" and "run_inv apps st"
    and "unsatisfiable X apps" and "untouched X apps st"
  shows "untouched X apps st'"
  using assms(1)
proof (cases rule: run_step.cases)
  case (finish i err)
  with assms(4) show ?thesis by (simp add: untouched_def finish_step_def)
next
  case (receive apps' vs)
  then obtain a err rest where q: "statuses st = (a, err) # rest" by (cases "statuses st") auto
  show ?thesis
  proof (cases err)
    case (Some e)
    with assms(4) q receive(1) show ?thesis by (simp add: recv_step_def untouched_def)
  next
    case None
    let ?st1 = "st\<lparr>statuses := rest,
      runningApps := AList.update (ID a) ApplicationStatusRunning (runningApps st),
      history := history st @ [Confirmed (ID a)]\<rparr>"
    have "map_of (runningApps st) (ID a) \<noteq> None"
      using assms(2) q by (simp add: run_inv_def places_inv_def)
    then have u: "untouched X apps ?st1" using assms(4) by (auto simp: untouched_def)
    have l: "untouched X apps (launch_ready apps' (?st1\<lparr>storage := s2\<rparr>))" for s2
      by (rule untouched_launch [OF assms(3)])
         (use u mset_eq_setD [OF receive(4)] in \<open>auto simp: untouched_def\<close>)
    from q None have "statuses st = (a, None) # rest" by simp
    then show ?thesis
      unfolding receive(1)
      by (cases rule: recv_success_cases [where SS = SS and name = name and zone = zone
          and vs = vs and apps = apps'])
         (use u l in \<open>simp_all add: untouched_def\<close>)
  qed
qed

lemma untouched_steps:
  assumes "(run_step SS name zone apps results)\<^sup>*\<^sup>* st st'" and "run_inv apps st"
    and "unsatisfiable X apps" and "untouched X apps st"
  shows "untouched X apps st'"
  using assms(1)
proof (induction rule: rtranclp_induct)
  case base
  show ?case by (rule assms(4))
next
  case (step y z)
  then show ?case using untouched_step run_steps_inv [OF step(1) assms(2)] assms(3) by blast
qed

lemma starts_untouched:
  assumes "starts rx runners [] name zone s store st" and "unsatisfiable X (stack_apps s)"
  shows "untouched X (stack_apps s) st"
proof -
  from assms(1) obtain running q ev apps' ord where
    m: "markSkippedApps rx ord 0 (mlen (Applications s)) (stack_apps s) [] ([], [], []) =
      Returns (running, q, ev)"
    and st: "st = launch_ready apps' \<lparr>runningApps = running, inflight = [], statuses = q,
      storage = store, history = ev, outcome = None\<rparr>"
    and a: "mset apps' = mset (stack_apps s)"
    unfolding starts_def by (blast elim: Stack_Run_Returns)
  show ?thesis
    unfolding st
    by (rule untouched_launch [OF assms(2)])
       (use m mset_eq_setD [OF a] in \<open>simp_all add: untouched_def\<close>)
qed

text \<open>C24: Dependencies that cannot be satisfied are not detected and hang the deployment. If
  some applications wait for each other, or for an ID that the stack does not have, then
  without any failure the deployment never returns, neither with success nor with an
  error, and none of these applications is ever started.\<close>
theorem cyclic_dependencies_hang:
  assumes "deploys SS rx runners [] name zone s (UNIV \<times> {None}) store st"
    and "unsatisfiable X (stack_apps s)" and "saves SS name zone P" and "P store"
  shows "outcome st = None \<and> (\<forall>x \<in> X. Launched x \<notin> set (history st))"
proof -
  from assms(1) obtain st0 where st0: "starts rx runners [] name zone s store st0"
    and steps: "(run_step SS name zone (stack_apps s) (UNIV \<times> {None}))\<^sup>*\<^sup>* st0 st"
    by (auto simp: deploys_def)
  have inv0: "run_inv (stack_apps s) st0"
    using st0 deploys_inv [of SS] unfolding deploys_def by blast
  have u: "untouched X (stack_apps s) st"
    by (rule untouched_steps [OF steps inv0 assms(2) starts_untouched [OF st0 assms(2)]])
  have inv: "run_inv (stack_apps s) st" by (rule deploys_inv [OF assms(1)])
  have "no_failure P st0" using starts_state [OF st0] assms(4) by (simp add: no_failure_def)
  with no_failure_steps [OF steps assms(3)] have "outcome st \<in> {None, Some (Ok ())}"
    by (simp add: no_failure_def)
  moreover have "outcome st \<noteq> Some (Ok ())"
    using u assms(2) inv
    by (fastforce simp: run_inv_def allApplicationsRunning_def list_all_iff untouched_def
        unsatisfiable_def)
  moreover have "Launched x \<notin> set (history st)" if "x \<in> X" for x
  proof
    assume "Launched x \<in> set (history st)"
    then have "x \<in> set (launches (history st))"
      by (force simp: launches_def List.map_filter_def)
    with inv u that show False by (auto simp: run_inv_def history_inv_def untouched_def)
  qed
  ultimately show ?thesis by blast
qed

text \<open>Two applications that depend on each other.\<close>

definition cyclic_stack :: Stack where
  "cyclic_stack = empty_stack\<lparr>Applications := Some
     [(''a'', Some (sample_application ''a'' [''b''])), (''b'', Some (sample_application ''b'' [''a'']))]\<rparr>"

lemma cyclic_valid: "Stack_Validate literal_regexp (\<lambda>_. False) cyclic_stack = Ok ()"
  by (simp add: Stack_Validate_def cyclic_stack_def sample_application_def empty_stack_def
      empty_application_def Application_Validate_def ParseConstraints_def)

theorem cyclic_dependencies_hang_witness:
  "\<exists>st. deploys InMemoryStateStorage literal_regexp (\<lambda>_. False) [] ''s'' ''z'' cyclic_stack
     (UNIV \<times> {None}) sample_store st \<and> outcome st = None \<and> Launched ''a'' \<notin> set (history st)"
proof -
  note d = starts_deploys [OF starts_plain [OF cyclic_valid, of "''s''" "''z''" sample_store],
      of InMemoryStateStorage "UNIV \<times> {None}"]
  have "unsatisfiable {''a'', ''b''} (stack_apps cyclic_stack)"
    by (auto simp: unsatisfiable_def stack_apps_def cyclic_stack_def sample_application_def
        empty_application_def List.map_filter_simps)
  moreover have "find_state sample_store ''s'' ''z'' \<noteq> None" by code_simp
  ultimately have "outcome (launch_ready (stack_apps cyclic_stack) \<lparr>runningApps = [], inflight = [],
      statuses = [], storage = sample_store, history = [], outcome = None\<rparr>) = None \<and>
    (\<forall>x \<in> {''a'', ''b''}. Launched x \<notin> set (history (launch_ready (stack_apps cyclic_stack)
      \<lparr>runningApps = [], inflight = [], statuses = [], storage = sample_store, history = [],
       outcome = None\<rparr>)))"
    by (rule cyclic_dependencies_hang [OF d _ mem_saves])
  then show ?thesis by (intro exI conjI) (rule d, simp_all)
qed

text \<open>The deployment of a stack without applications never returns: the loop waits for a
  result, no goroutine exists that could send one, and the channel is never closed.\<close>
theorem empty_stack_hangs:
  assumes "deploys SS rx runners skips name zone s results store st" and "stack_apps s = []"
  shows "outcome st = None \<and> (\<nexists>st'. run_step SS name zone (stack_apps s) results st st')"
proof -
  have stuck: "\<nexists>st'. run_step SS name zone (stack_apps s) results u st'"
    if "run_inv (stack_apps s) u" for u
    using that assms(2) by (auto simp: run_inv_def places_inv_def elim!: run_stepE)
  from assms(1) obtain st0 where st0: "starts rx runners skips name zone s store st0"
    and steps: "(run_step SS name zone (stack_apps s) results)\<^sup>*\<^sup>* st0 st"
    by (auto simp: deploys_def)
  have "run_inv (stack_apps s) st0"
    using st0 deploys_inv [of SS] unfolding deploys_def by blast
  with steps stuck have "st = st0" by (metis converse_rtranclpE)
  with starts_state(2) [OF st0] stuck [OF deploys_inv [OF assms(1)]] show ?thesis by blast
qed

theorem empty_stack_hangs_witness:
  "\<exists>st. deploys InMemoryStateStorage literal_regexp (\<lambda>_. False) [] ''s'' ''z'' empty_stack UNIV sample_store st
     \<and> outcome st = None"
proof -
  have "Stack_Validate literal_regexp (\<lambda>_. False) empty_stack = Ok ()"
    by (simp add: Stack_Validate_def empty_stack_def)
  note d = starts_deploys [OF starts_plain [OF this, of "''s''" "''z''" sample_store],
      of InMemoryStateStorage UNIV]
  have e: "stack_apps empty_stack = []"
    by (simp add: stack_apps_def empty_stack_def List.map_filter_simps)
  show ?thesis
    by (intro exI conjI) (rule d, rule conjunct1 [OF empty_stack_hangs [OF d e]])
qed

text \<open>The total number of matches of the skip patterns.\<close>

definition skip_matches :: "regexp \<Rightarrow> Application list \<Rightarrow> string list \<Rightarrow> nat" where
  "skip_matches rx apps ps =
     sum_list (map (\<lambda>p. length (filter (\<lambda>a. MatchString rx p (ID a)) apps)) ps)"

lemma skip_matching_blocks:
  "skip_matching f cap as (r, q, ev) = Blocks \<longleftrightarrow>
     cap < length q + length (filter (\<lambda>a. f (ID a)) as) \<and> filter (\<lambda>a. f (ID a)) as \<noteq> []"
  "skip_matching f cap as (r, q, ev) = Returns (r', q', ev') \<Longrightarrow>
     length q' = length q + length (filter (\<lambda>a. f (ID a)) as)"
  "skip_matching f cap as st \<noteq> Fails e" "skip_matching f cap as st \<noteq> Panics e"
proof -
  show "skip_matching f cap as (r, q, ev) = Blocks \<longleftrightarrow>
     cap < length q + length (filter (\<lambda>a. f (ID a)) as) \<and> filter (\<lambda>a. f (ID a)) as \<noteq> []"
    by (induction as arbitrary: r q ev) auto
  show "skip_matching f cap as (r, q, ev) = Returns (r', q', ev') \<Longrightarrow>
     length q' = length q + length (filter (\<lambda>a. f (ID a)) as)"
    by (induction as arbitrary: r q ev) (auto split: if_splits)
  show "skip_matching f cap as st \<noteq> Fails e" "skip_matching f cap as st \<noteq> Panics e"
    by (induction f cap as st rule: skip_matching.induct) auto
qed

lemma markSkippedApps_blocks:
  assumes "\<forall>p \<in> set ps. Compile rx p = None" and "\<And>n xs. mset (ord n xs) = mset xs"
    and "length q \<le> cap"
  shows "markSkippedApps rx ord n cap apps ps (r, q, ev) = Blocks \<longleftrightarrow>
    cap < length q + skip_matches rx apps ps"
  using assms(1,3)
proof (induction ps arbitrary: n r q ev)
  case Nil
  then show ?case by (simp add: skip_matches_def)
next
  case (Cons p ps)
  let ?f = "MatchString rx p" and ?as = "ord n apps"
  have len: "length (filter (\<lambda>a. ?f (ID a)) ?as) = length (filter (\<lambda>a. ?f (ID a)) apps)"
    using assms(2) [of n apps] by (metis mset_filter size_mset)
  show ?case
  proof (cases "skip_matching ?f cap ?as (r, q, ev)")
    case (Returns st')
    obtain r' q' ev' where st': "st' = (r', q', ev')" by (cases st')
    with Returns have "length q' = length q + length (filter (\<lambda>a. ?f (ID a)) apps)"
      using skip_matching_blocks(2) len by metis
    moreover from Returns skip_matching_blocks(1) [of ?f cap ?as r q ev] Cons.prems(2)
    have "length q' \<le> cap" using calculation len by (cases "filter (\<lambda>a. ?f (ID a)) ?as") auto
    ultimately show ?thesis
      using Cons.IH [of q' "Suc n" r' ev'] Cons.prems(1) Returns st'
      by (simp add: skip_matches_def add.assoc)
  next
    case Blocks
    with skip_matching_blocks(1) [of ?f cap ?as r q ev] len show ?thesis
      using Cons.prems(1) by (simp add: skip_matches_def)
  qed (use skip_matching_blocks(3,4) in auto)
qed

text \<open>C25: Skip patterns can block the deployment for ever: with patterns that compile,
  \<open>Run\<close> of a valid stack hangs before it starts anything exactly when the patterns have
  more matches in total than the stack has applications (an application matched by two
  patterns counts twice), since the marks are sent to a bounded channel that is not
  read yet.\<close>
theorem overlapping_skips_block:
  assumes "Stack_Validate rx runners s = Ok ()" and "\<forall>p \<in> set skips. Compile rx p = None"
    and "\<And>n xs. mset (ord n xs) = mset xs"
  shows "Stack_Run rx runners (Ok leader) ord apps' skips name zone s vs store = Blocks \<longleftrightarrow>
    length (stack_apps s) < skip_matches rx (stack_apps s) skips"
proof -
  have "markSkippedApps rx ord 0 (mlen (Applications s)) (stack_apps s) skips ([], [], []) = Blocks
      \<longleftrightarrow> length (stack_apps s) < skip_matches rx (stack_apps s) skips"
    using markSkippedApps_blocks [OF assms(2,3), of "[]"] validated_apps [OF assms(1)] by simp
  then show ?thesis by (auto simp: Stack_Run_def assms(1) split: blocking.splits)
qed

theorem overlapping_skips_block_witness:
  "Stack_Run literal_regexp (\<lambda>_. False) (Ok ''m'') (\<lambda>n xs. xs) (stack_apps sample_stack)
     [''k'', ''ka'', ''kafka''] ''s'' ''z'' sample_stack NewVariables sample_store = Blocks"
proof -
  have v: "Stack_Validate literal_regexp (\<lambda>_. False) sample_stack = Ok ()"
    by (simp add: Stack_Validate_def sample_stack_def sample_application_def empty_stack_def
        empty_application_def Application_Validate_def ParseConstraints_def)
  have "length (stack_apps sample_stack) <
      skip_matches literal_regexp (stack_apps sample_stack) [''k'', ''ka'', ''kafka'']"
    by code_simp
  then show ?thesis
    by (subst overlapping_skips_block [OF v]) (simp_all add: literal_regexp_def)
qed

end
