(* ===== verification/Storage.thy ===== *)
theory Storage
  imports StackOrder
begin

text \<open>
  The storage of stacks in Cassandra (src/framework/storage.go, \<open>CassandraStorage\<close>): the
  tree of stacks given by their parents, the merged stack of a name, layers, and removal.
  The CQL session and the YAML codec are parameters; the mutex makes \<open>StoreStack\<close> and
  \<open>RemoveStack\<close> atomic.
\<close>

section \<open>Session\<close>

text \<open>One field per statement: a row is the name, the parent and the text of the
  applications. A select delivers the rows that \<open>Scan\<close> yields: the iterators of
  \<open>GetAll\<close> and \<open>remove\<close> are never closed, so that an error in them ends the rows.\<close>

record 'c stack_session =
  create_keyspace :: "'c \<Rightarrow> unit result \<times> 'c"
  create_table :: "'c \<Rightarrow> unit result \<times> 'c"
  create_index :: "'c \<Rightarrow> unit result \<times> 'c"
  select_all :: "'c \<Rightarrow> (string \<times> string \<times> string) list"
  select_stack :: "string \<Rightarrow> 'c \<Rightarrow> (string \<times> string \<times> string) result"
  select_children :: "string \<Rightarrow> 'c \<Rightarrow> string list"
  select_count :: "string \<Rightarrow> 'c \<Rightarrow> int result"
  insert_stack :: "string \<Rightarrow> string \<Rightarrow> string \<Rightarrow> 'c \<Rightarrow> unit result \<times> 'c"
  delete_stack :: "string \<Rightarrow> 'c \<Rightarrow> unit result \<times> 'c"

type_synonym app_map = "(string, Application option) gomap"

record yaml_codec =
  encode_apps :: "app_map \<Rightarrow> string result"
  decode_apps :: "string \<Rightarrow> app_map result"

section \<open>Reading\<close>

definition unable :: "string \<Rightarrow> error \<Rightarrow> error" where
  "unable name e = ''Unable get stack '' @ name @ '' from Cassandra: '' @ e"

fun read_stacks :: "yaml_codec \<Rightarrow> (string \<times> string \<times> string) list \<Rightarrow> Stack list result" where
  "read_stacks Y [] = Ok []"
| "read_stacks Y ((name, parent, apps) # rows) =
     (case decode_apps Y apps of
        Err e \<Rightarrow> Err (unable name e)
      | Panic e \<Rightarrow> Panic e
      | Ok m \<Rightarrow> map_result (\<lambda>ss. empty_stack\<lparr>Name := name, From := parent, Applications := m\<rparr> # ss)
                  (read_stacks Y rows))"

definition cas_GetAll :: "yaml_codec \<Rightarrow> 'c stack_session \<Rightarrow> 'c \<Rightarrow> Stack list result" where
  "cas_GetAll Y S c = read_stacks Y (select_all S c)"

text \<open>The recursion follows the parents; \<open>fuel\<close> bounds its depth.\<close>

fun cas_GetStack ::
    "yaml_codec \<Rightarrow> 'c stack_session \<Rightarrow> nat \<Rightarrow> string \<Rightarrow> 'c \<Rightarrow> Stack result option" where
  "cas_GetStack Y S 0 name c = None"
| "cas_GetStack Y S (Suc fuel) name c =
     (case select_stack S name c of
        Err e \<Rightarrow> Some (Err e)
      | Panic e \<Rightarrow> Some (Panic e)
      | Ok (nm, parent, apps) \<Rightarrow>
          (case decode_apps Y apps of
             Err e \<Rightarrow> Some (Err (unable name e))
           | Panic e \<Rightarrow> Some (Panic e)
           | Ok m \<Rightarrow>
               (let stack = empty_stack\<lparr>Name := nm, Applications := m\<rparr>
                in if parent \<noteq> []
                   then (case cas_GetStack Y S fuel parent c of
                           Some (Ok parentStack) \<Rightarrow> Some (Merge parentStack stack)
                         | r \<Rightarrow> r)
                   else Some (Ok stack))))"

definition cas_GetLayer ::
    "yaml_codec \<Rightarrow> 'c stack_session \<Rightarrow> nat \<Rightarrow> string \<Rightarrow> 'c \<Rightarrow> Layer_t result option" where
  "cas_GetLayer Y S fuel name c =
     map_option (\<lambda>r. and_then r (\<lambda>stack.
         case NewLayer stack of
           Some l \<Rightarrow> Ok l
         | None \<Rightarrow> Err (''Can'' @ [CHR 0x27] @ ''t create layer '' @ name @ '' with level '' @
                      Itoa (Layer stack))))
       (cas_GetStack Y S fuel name c)"

text \<open>The two merges of the datacenter with the cluster and with the zone.\<close>

definition merge_layers :: "Layer_t \<Rightarrow> Layer_t \<Rightarrow> Layer_t \<Rightarrow> Stack result" where
  "merge_layers datacenter cluster zone =
     and_then (Layer_Merge datacenter cluster) (\<lambda>d.
       map_result LayerStack_of (Layer_Merge d zone))"

definition cas_GetLayersStack ::
    "yaml_codec \<Rightarrow> 'c stack_session \<Rightarrow> nat \<Rightarrow> string \<Rightarrow> 'c \<Rightarrow> Stack result option" where
  "cas_GetLayersStack Y S fuel name c =
     (case cas_GetLayer Y S fuel name c of
        None \<Rightarrow> None
      | Some (Err e) \<Rightarrow> Some (Err e)
      | Some (Panic e) \<Rightarrow> Some (Panic e)
      | Some (Ok zone) \<Rightarrow>
          if From (LayerStack_of zone) = [] then Some (Ok (LayerStack_of zone))
          else (case cas_GetLayer Y S fuel (From (LayerStack_of zone)) c of
                  None \<Rightarrow> None
                | Some (Err e) \<Rightarrow> Some (Err e)
                | Some (Panic e) \<Rightarrow> Some (Panic e)
                | Some (Ok cluster) \<Rightarrow>
                    if From (LayerStack_of cluster) = [] then Some (Ok (LayerStack_of cluster))
                    else (case cas_GetLayer Y S fuel (From (LayerStack_of cluster)) c of
                            None \<Rightarrow> None
                          | Some (Err e) \<Rightarrow> Some (Err e)
                          | Some (Panic e) \<Rightarrow> Some (Panic e)
                          | Some (Ok datacenter) \<Rightarrow> Some (merge_layers datacenter cluster zone))))"

section \<open>Writing\<close>

definition cas_exists :: "'c stack_session \<Rightarrow> string \<Rightarrow> 'c \<Rightarrow> bool result" where
  "cas_exists S name c = map_result (\<lambda>count. count > 0) (select_count S name c)"

text \<open>A failed count of the parent reads as a missing parent.\<close>

definition cas_StoreStack ::
    "yaml_codec \<Rightarrow> 'c stack_session \<Rightarrow> Stack \<Rightarrow> 'c \<Rightarrow> unit result \<times> 'c" where
  "cas_StoreStack Y S stack c =
     (case cas_exists S (Name stack) c of
        Err e \<Rightarrow> (Err e, c)
      | Panic e \<Rightarrow> (Panic e, c)
      | Ok True \<Rightarrow> (Err (''Stack '' @ Name stack @ '' already exists''), c)
      | Ok False \<Rightarrow>
          if From stack \<noteq> [] \<and> cas_exists S (From stack) c \<noteq> Ok True
          then (Err (''Parent stack '' @ From stack @ '' does not exist''), c)
          else (case encode_apps Y (Applications stack) of
                  Err e \<Rightarrow> (Err e, c)
                | Panic e \<Rightarrow> (Panic e, c)
                | Ok apps \<Rightarrow> insert_stack S (Name stack) (From stack) apps c))"

definition depending :: "string \<Rightarrow> string list \<Rightarrow> error" where
  "depending stack children =
     ''There are stacks depending on '' @ stack @
     ''. Either remove them first or force deletion. Dependant stacks:'' @ [CHR 0x0A] @
     Join children [CHR 0x0A]"

fun cas_remove ::
    "'c stack_session \<Rightarrow> nat \<Rightarrow> string \<Rightarrow> bool \<Rightarrow> 'c \<Rightarrow> (unit result \<times> 'c) option"
  and remove_children ::
    "'c stack_session \<Rightarrow> nat \<Rightarrow> string list \<Rightarrow> 'c \<Rightarrow> (unit result \<times> 'c) option" where
  "cas_remove S 0 stack force c = None"
| "cas_remove S (Suc fuel) stack force c =
     (if force
      then (case remove_children S fuel (select_children S stack c) c of
              Some (Ok _, c') \<Rightarrow> Some (delete_stack S stack c')
            | r \<Rightarrow> r)
      else if select_children S stack c \<noteq> []
      then Some (Err (depending stack (select_children S stack c)), c)
      else Some (delete_stack S stack c))"
| "remove_children S fuel [] c = Some (Ok (), c)"
| "remove_children S fuel (name # names) c =
     (case cas_remove S fuel name True c of
        Some (Ok _, c') \<Rightarrow> remove_children S fuel names c'
      | r \<Rightarrow> r)"

definition cas_RemoveStack ::
    "'c stack_session \<Rightarrow> nat \<Rightarrow> string \<Rightarrow> bool \<Rightarrow> 'c \<Rightarrow> (unit result \<times> 'c) option" where
  "cas_RemoveStack S fuel stack force c =
     (case cas_exists S stack c of
        Err e \<Rightarrow> Some (Err e, c)
      | Panic e \<Rightarrow> Some (Panic e, c)
      | Ok False \<Rightarrow> Some (Err (''Stack '' @ stack @ '' does not exist''), c)
      | Ok True \<Rightarrow> cas_remove S fuel stack force c)"

definition cas_Init :: "'c stack_session \<Rightarrow> 'c \<Rightarrow> unit result \<times> 'c" where
  "cas_Init S c =
     (case create_keyspace S c of
        (Ok _, c1) \<Rightarrow>
          (case create_table S c1 of
             (Ok _, c2) \<Rightarrow> create_index S c2
           | (r, c2) \<Rightarrow> (r, c2))
      | (r, c1) \<Rightarrow> (r, c1))"

text \<open>\<open>connect\<close> is \<open>NewCassandraStorage\<close>, the creation of a session; the loop tries
  \<open>retries\<close> times to connect and to initialise the keyspace.\<close>

fun NewCassandraStorageRetryBackoff ::
    "('c \<Rightarrow> ('c stack_session) result \<times> 'c) \<Rightarrow> nat \<Rightarrow> 'c stack_session option result \<Rightarrow> 'c
     \<Rightarrow> 'c stack_session option result \<times> 'c" where
  "NewCassandraStorageRetryBackoff connect 0 last_result c = (last_result, c)"
| "NewCassandraStorageRetryBackoff connect (Suc retries) last_result c =
     (case connect c of
        (Panic e, c1) \<Rightarrow> (Panic e, c1)
      | (Err e, c1) \<Rightarrow> NewCassandraStorageRetryBackoff connect retries (Err e) c1
      | (Ok S, c1) \<Rightarrow>
          (case cas_Init S c1 of
             (Ok _, c2) \<Rightarrow> (Ok (Some S), c2)
           | (Err e, c2) \<Rightarrow> NewCassandraStorageRetryBackoff connect retries (Err e) c2
           | (Panic e, c2) \<Rightarrow> (Panic e, c2)))"

section \<open>The table\<close>

type_synonym stack_rows = "string \<Rightarrow> (string \<times> string) option"

text \<open>The behaviour of CQL the storage relies on, with the table as a map from names to
  parents and application texts: reads are answered in full, an insert replaces the row
  of its key, a delete removes it.\<close>

definition cql_reads :: "'c stack_session \<Rightarrow> ('c \<Rightarrow> stack_rows) \<Rightarrow> bool" where
  "cql_reads S rows \<longleftrightarrow>
     (\<forall>n c. case rows c n of
        None \<Rightarrow> \<not> is_ok (select_stack S n c) \<and> select_count S n c = Ok 0
      | Some (p, a) \<Rightarrow> select_stack S n c = Ok (n, p, a) \<and> select_count S n c = Ok 1) \<and>
     (\<forall>p c n. n \<in> set (select_children S p c) \<longleftrightarrow> (\<exists>a. rows c n = Some (p, a)))"

definition cql_writes :: "'c stack_session \<Rightarrow> ('c \<Rightarrow> stack_rows) \<Rightarrow> bool" where
  "cql_writes S rows \<longleftrightarrow>
     (\<forall>n p a c c'. insert_stack S n p a c = (Ok (), c') \<longrightarrow> rows c' = (rows c)(n \<mapsto> (p, a))) \<and>
     (\<forall>n c c'. delete_stack S n c = (Ok (), c') \<longrightarrow> rows c' = (rows c)(n := None))"

text \<open>The edges from parents to children.\<close>

definition child_of :: "stack_rows \<Rightarrow> (string \<times> string) set" where
  "child_of m = {(p, n). p \<noteq> [] \<and> (\<exists>a. m n = Some (p, a))}"

text \<open>The invariant of the table: finitely many stacks, every parent is there, and no
  stack is its own ancestor.\<close>

definition forest :: "stack_rows \<Rightarrow> bool" where
  "forest m \<longleftrightarrow> finite (dom m) \<and>
     (\<forall>n p a. m n = Some (p, a) \<longrightarrow> p = [] \<or> m p \<noteq> None) \<and> acyclic (child_of m)"

text \<open>The stacks from the root down to a name.\<close>

inductive chain :: "stack_rows \<Rightarrow> string \<Rightarrow> string list \<Rightarrow> bool" for m where
  chain_root: "m n = Some ([], a) \<Longrightarrow> chain m n [n]"
| chain_step: "m n = Some (p, a) \<Longrightarrow> p \<noteq> [] \<Longrightarrow> chain m p ch \<Longrightarrow> chain m n (ch @ [n])"

definition stack_at :: "yaml_codec \<Rightarrow> stack_rows \<Rightarrow> string \<Rightarrow> Stack" where
  "stack_at Y m n =
     (case m n of
        Some (p, a) \<Rightarrow>
          (case decode_apps Y a of
             Ok apps \<Rightarrow> empty_stack\<lparr>Name := n, Applications := apps\<rparr>
           | _ \<Rightarrow> empty_stack)
      | None \<Rightarrow> empty_stack)"

definition decodes :: "yaml_codec \<Rightarrow> stack_rows \<Rightarrow> bool" where
  "decodes Y m \<longleftrightarrow>
     (\<forall>n p a. m n = Some (p, a) \<longrightarrow>
        (\<exists>apps. decode_apps Y a = Ok (Some apps) \<and> stack_ok (empty_stack\<lparr>Applications := Some apps\<rparr>)))"

section \<open>Chains\<close>

lemma finite_child_of: "finite (dom m) \<Longrightarrow> finite (child_of m)"
proof (rule finite_subset)
  show "child_of m \<subseteq> (\<lambda>n. (fst (the (m n)), n)) ` dom m"
    by (force simp: child_of_def image_iff)
qed auto

lemma forest_wf: "forest m \<Longrightarrow> wf (child_of m)"
  unfolding forest_def by (blast intro: finite_acyclic_wf finite_child_of)

lemma chain_exists:
  assumes "forest m" and "m n \<noteq> None"
  shows "\<exists>ch. chain m n ch"
  using forest_wf [OF assms(1)] assms(2)
proof (induction n rule: wf_induct_rule)
  case (less n)
  then obtain p a where r: "m n = Some (p, a)" by auto
  show ?case
  proof (cases "p = []")
    case True
    with r show ?thesis by (blast intro: chain_root)
  next
    case False
    with r assms(1) have "m p \<noteq> None" unfolding forest_def by blast
    moreover from r False have "(p, n) \<in> child_of m" by (simp add: child_of_def)
    ultimately obtain ch where "chain m p ch" using less.IH by blast
    with r False show ?thesis by (blast intro: chain_step)
  qed
qed

lemma chain_members:
  assumes "chain m n ch"
  shows "ch \<noteq> []" and "last ch = n" and "set ch \<subseteq> dom m"
    and "x \<in> set ch \<Longrightarrow> (x, n) \<in> (child_of m)\<^sup>*"
proof -
  have "ch \<noteq> [] \<and> last ch = n \<and> set ch \<subseteq> dom m \<and> (\<forall>x \<in> set ch. (x, n) \<in> (child_of m)\<^sup>*)"
    using assms
  proof (induction rule: chain.induct)
    case (chain_step n p a ch)
    then have "(p, n) \<in> child_of m" by (simp add: child_of_def)
    with chain_step show ?case by (auto intro: rtrancl_into_rtrancl)
  qed auto
  then show "ch \<noteq> []" "last ch = n" "set ch \<subseteq> dom m"
    "x \<in> set ch \<Longrightarrow> (x, n) \<in> (child_of m)\<^sup>*" by auto
qed

lemma chain_distinct:
  assumes "chain m n ch" and "acyclic (child_of m)"
  shows "distinct ch"
  using assms(1)
proof (induction rule: chain.induct)
  case (chain_root n a)
  then show ?case by simp
next
  case (chain_step n p a ch)
  have "n \<notin> set ch"
  proof
    assume "n \<in> set ch"
    then have "(n, p) \<in> (child_of m)\<^sup>*" by (rule chain_members(4) [OF chain_step(3)])
    moreover have "(p, n) \<in> child_of m" using chain_step(1,2) by (simp add: child_of_def)
    ultimately show False using assms(2) by (meson acyclic_def rtrancl_into_trancl1)
  qed
  with chain_step show ?case by simp
qed

lemma chain_length:
  assumes "chain m n ch" and "forest m"
  shows "length ch \<le> card (dom m)"
proof -
  have "distinct ch" using chain_distinct [OF assms(1)] assms(2) by (simp add: forest_def)
  then have "length ch = card (set ch)" by (simp add: distinct_card)
  also have "\<dots> \<le> card (dom m)"
    using chain_members(3) [OF assms(1)] assms(2) by (intro card_mono) (simp_all add: forest_def)
  finally show ?thesis .
qed

lemma merge_all_snoc: "merge_all s (cs @ [c]) = and_then (merge_all s cs) (\<lambda>t. Merge t c)"
  by (induction cs arbitrary: s) (auto simp: and_then_assoc, metis and_then.elims and_then.simps)

lemma reads_row:
  assumes "cql_reads S rows" and "rows c n = Some (p, a)"
  shows "select_stack S n c = Ok (n, p, a)" and "select_count S n c = Ok 1"
  using conjunct1 [OF assms(1) [unfolded cql_reads_def], rule_format, of n c] assms(2) by simp_all

lemma reads_none:
  assumes "cql_reads S rows" and "rows c n = None"
  shows "\<not> is_ok (select_stack S n c)" and "select_count S n c = Ok 0"
  using conjunct1 [OF assms(1) [unfolded cql_reads_def], rule_format, of n c] assms(2) by simp_all

lemma reads_children:
  assumes "cql_reads S rows"
  shows "n \<in> set (select_children S p c) \<longleftrightarrow> (\<exists>a. rows c n = Some (p, a))"
  using assms unfolding cql_reads_def by blast

lemma exists_iff: "cql_reads S rows \<Longrightarrow> cas_exists S n c = Ok (rows c n \<noteq> None)"
  by (cases "rows c n") (auto simp: cas_exists_def reads_row reads_none)

lemma GetStack_row:
  assumes "cql_reads S rows" and "rows c n = Some (p, a)" and "decode_apps Y a = Ok apps"
  shows "cas_GetStack Y S (Suc fuel) n c =
    (if p = [] then Some (Ok (stack_at Y (rows c) n))
     else map_option (\<lambda>r. and_then r (\<lambda>t. Merge t (stack_at Y (rows c) n)))
            (cas_GetStack Y S fuel p c))"
  by (simp add: reads_row [OF assms(1,2)] assms(2,3) stack_at_def Let_def
      split: option.split result.split)

lemma GetStack_chain:
  assumes "cql_reads S rows" and "decodes Y (rows c)" and "chain (rows c) n ch"
    and "length ch \<le> fuel"
  shows "cas_GetStack Y S fuel n c =
    Some (merge_all (stack_at Y (rows c) (hd ch)) (map (stack_at Y (rows c)) (tl ch)))"
  using assms(3,4)
proof (induction arbitrary: fuel rule: chain.induct)
  case (chain_root n a)
  then obtain f where f: "fuel = Suc f" by (cases fuel) auto
  from assms(2) chain_root obtain apps where "decode_apps Y a = Ok apps"
    unfolding decodes_def by blast
  from GetStack_row [OF assms(1) chain_root(1) this] show ?case by (simp add: f)
next
  case (chain_step n p a ch)
  then obtain f where f: "fuel = Suc f" "length ch \<le> f" by (cases fuel) auto
  from assms(2) chain_step(1) obtain apps where "decode_apps Y a = Ok apps"
    unfolding decodes_def by blast
  note row = GetStack_row [OF assms(1) chain_step(1) this, of f]
  from chain_members(1) [OF chain_step(3)] show ?case
    using row chain_step(2) chain_step.IH [OF f(2)] by (simp add: f(1) merge_all_snoc)
qed

lemma stack_at_ok:
  assumes "decodes Y m" and "m n \<noteq> None"
  shows "stack_ok (stack_at Y m n) \<and> Applications (stack_at Y m n) \<noteq> None \<and>
    Name (stack_at Y m n) = n"
proof -
  from assms(2) obtain p a where r: "m n = Some (p, a)" by auto
  with assms(1) obtain apps where "decode_apps Y a = Ok (Some apps)"
    and "stack_ok (empty_stack\<lparr>Applications := Some apps\<rparr>)" unfolding decodes_def by blast
  then show ?thesis by (simp add: stack_at_def r stack_ok_def)
qed

lemma cas_merge_root:
  assumes "cas_GetStack Y S fuel n c = Some (Ok s)"
  shows "From s = [] \<and> Layer s = 0"
  using assms
proof (induction fuel arbitrary: n s)
  case 0
  then show ?case by simp
next
  case (Suc fuel)
  then show ?case
    by (auto simp: Let_def empty_stack_def Merge_def map_result_Ok_iff split: result.splits if_splits
        option.splits)
qed

section \<open>Properties of reading\<close>

text \<open>C32: Reading a stack from Cassandra terminates and gives the inherited stack: for every
  name in a well-formed table the ancestors form a finite chain of at most as many
  stacks as the table has, and with at least that depth of recursion \<open>GetStack\<close> returns
  the merge of the chain from its root to the name.\<close>
theorem cassandra_GetStack_chain:
  assumes "cql_reads S rows" and "forest (rows c)" and "decodes Y (rows c)"
    and "rows c n \<noteq> None" and "card (dom (rows c)) \<le> fuel"
  shows "\<exists>ch s. chain (rows c) n ch \<and> length ch \<le> card (dom (rows c)) \<and>
    cas_GetStack Y S fuel n c = Some (Ok s) \<and>
    merge_all (stack_at Y (rows c) (hd ch)) (map (stack_at Y (rows c)) (tl ch)) = Ok s \<and> Name s = n"
proof -
  from chain_exists [OF assms(2,4)] obtain ch where ch: "chain (rows c) n ch" ..
  note len = chain_length [OF ch assms(2)]
  let ?at = "stack_at Y (rows c)"
  from chain_members(1,3) [OF ch] have dom: "\<forall>x \<in> set ch. rows c x \<noteq> None"
    and ne: "ch \<noteq> []" by auto
  then have ok: "stack_ok (?at x) \<and> Applications (?at x) \<noteq> None \<and> Name (?at x) = x"
    if "x \<in> set ch" for x
    using stack_at_ok [OF assms(3)] that by blast
  have root: "hd ch \<in> set ch" using ne by simp
  have rest: "list_all stack_ok (map ?at (tl ch))"
    using ok ne by (auto simp: list_all_iff dest: list.set_sel(2))
  obtain s where s: "merge_all (?at (hd ch)) (map ?at (tl ch)) = Ok s"
    using merge_all_total [OF _ rest] ok [OF root] by blast
  have "Name s = Name (last (?at (hd ch) # map ?at (tl ch)))"
    using merge_all_Ok [OF s _ rest] ok [OF root] by blast
  also have "?at (hd ch) # map ?at (tl ch) = map ?at ch" using ne by (cases ch) auto
  also have "Name (last (map ?at ch)) = n"
    using ne chain_members(2) [OF ch] ok [OF last_in_set [OF ne]] by (simp add: last_map)
  finally have "Name s = n" .
  with ch len s GetStack_chain [OF assms(1,3) ch, of fuel] assms(5) show ?thesis by auto
qed

text \<open>With Cassandra a layer is just a stack: the table does not store the level and
  \<open>GetStack\<close> clears the parent, so every name is a zone without a parent and
  \<open>GetLayersStack\<close> returns the merged stack of the name itself.\<close>
theorem cassandra_layers_are_stacks:
  "cas_GetLayersStack Y S fuel name c = cas_GetStack Y S fuel name c"
proof (cases "cas_GetStack Y S fuel name c")
  case None
  then show ?thesis by (simp add: cas_GetLayersStack_def cas_GetLayer_def)
next
  case (Some r)
  show ?thesis
  proof (cases r)
    case (Ok s)
    with Some cas_merge_root [of Y S fuel name c s] have "From s = []" "Layer s = LayerZone"
      by (simp_all add: LayerZone_def)
    with Some Ok show ?thesis
      by (simp add: cas_GetLayersStack_def cas_GetLayer_def NewLayer_def NewZone_def)
  qed (use Some in \<open>simp_all add: cas_GetLayersStack_def cas_GetLayer_def\<close>)
qed

section \<open>Storing\<close>

lemma child_of_insert:
  assumes "m n = None"
  shows "child_of (m(n \<mapsto> (p, a))) = (if p = [] then child_of m else insert (p, n) (child_of m))"
  using assms by (auto simp: child_of_def split: if_splits)

lemma no_children:
  assumes "forest m" and "m n = None" and "(n, x) \<in> (child_of m)\<^sup>*"
  shows "x = n"
proof (rule ccontr)
  assume "x \<noteq> n"
  with assms(3) obtain y where "(n, y) \<in> child_of m" by (auto elim: converse_rtranclE)
  with assms(1,2) show False unfolding child_of_def forest_def by blast
qed

lemma forest_insert:
  assumes "forest m" and "m n = None" and "p = [] \<or> m p \<noteq> None"
  shows "forest (m(n \<mapsto> (p, a)))"
proof -
  have "acyclic (child_of (m(n \<mapsto> (p, a))))"
  proof (cases "p = []")
    case True
    with assms show ?thesis by (simp add: child_of_insert forest_def)
  next
    case False
    have "(n, p) \<notin> (child_of m)\<^sup>*"
      using no_children [OF assms(1,2), of p] assms(2,3) False by blast
    with assms False show ?thesis by (simp add: child_of_insert forest_def)
  qed
  moreover have "\<forall>k q b. (m(n \<mapsto> (p, a))) k = Some (q, b) \<longrightarrow> q = [] \<or> (m(n \<mapsto> (p, a))) q \<noteq> None"
    using assms unfolding forest_def by (metis fun_upd_apply option.distinct(1) option.inject prod.inject)
  ultimately show ?thesis using assms(1) by (simp add: forest_def)
qed

text \<open>C31: Storing keeps the table a forest: a stack is stored only under a new name and
  below an existing parent, every other request is refused and changes nothing, so that
  each parent exists and no stack becomes its own ancestor.\<close>
theorem cassandra_StoreStack_forest:
  assumes "cql_reads S rows" and "cql_writes S rows" and "forest (rows c)"
    and "cas_StoreStack Y S stack c = (r, c')"
  shows "(r = Ok () \<longrightarrow> rows c (Name stack) = None \<and> forest (rows c') \<and>
      (\<exists>a. encode_apps Y (Applications stack) = Ok a \<and>
           rows c' = (rows c)(Name stack \<mapsto> (From stack, a)))) \<and>
    (rows c (Name stack) \<noteq> None \<or> From stack \<noteq> [] \<and> rows c (From stack) = None \<longrightarrow>
      (\<exists>e. r = Err e) \<and> c' = c)"
proof (cases "rows c (Name stack) \<noteq> None \<or> From stack \<noteq> [] \<and> rows c (From stack) = None")
  case True
  with assms(4) show ?thesis
    by (auto simp: cas_StoreStack_def exists_iff [OF assms(1)] split: if_splits bool.splits)
next
  case False
  have "\<exists>a. encode_apps Y (Applications stack) = Ok a \<and>
      rows c' = (rows c)(Name stack \<mapsto> (From stack, a))" if "r = Ok ()"
  proof -
    from assms(4) False that obtain a where "encode_apps Y (Applications stack) = Ok a"
      and "insert_stack S (Name stack) (From stack) a c = (Ok (), c')"
      by (auto simp: cas_StoreStack_def exists_iff [OF assms(1)] split: result.splits if_splits)
    with assms(2) show ?thesis unfolding cql_writes_def by blast
  qed
  with False forest_insert [OF assms(3), of "Name stack" "From stack"] show ?thesis by metis
qed

section \<open>Removing\<close>

text \<open>Partial results: the rows after a removal are rows from before.\<close>

definition shrinks :: "stack_rows \<Rightarrow> stack_rows \<Rightarrow> bool" where
  "shrinks m m' \<longleftrightarrow> (\<forall>n. m' n = None \<or> m' n = m n)"

definition parents_exist :: "stack_rows \<Rightarrow> bool" where
  "parents_exist m \<longleftrightarrow> (\<forall>n p a. m n = Some (p, a) \<longrightarrow> p = [] \<or> m p \<noteq> None)"

lemma shrinks_refl [simp]: "shrinks m m"
  by (simp add: shrinks_def)

lemma shrinks_trans: "shrinks m m' \<Longrightarrow> shrinks m' m'' \<Longrightarrow> shrinks m m''"
  unfolding shrinks_def by metis

lemma shrinks_child_of: "shrinks m m' \<Longrightarrow> child_of m' \<subseteq> child_of m"
  unfolding shrinks_def child_of_def by auto (metis option.distinct(1))

text \<open>What a removal that returned success has done: nothing but descendants is gone, the
  stack is, and no row lost its parent.\<close>

definition removed :: "stack_rows \<Rightarrow> string \<Rightarrow> stack_rows \<Rightarrow> bool" where
  "removed m n m' \<longleftrightarrow> shrinks m m' \<and> m' n = None \<and> parents_exist m' \<and>
     (\<forall>x. m' x \<noteq> m x \<longrightarrow> (n, x) \<in> (child_of m)\<^sup>*)"

lemma shrinks_rtrancl: "shrinks m m' \<Longrightarrow> (x, y) \<in> (child_of m')\<^sup>* \<Longrightarrow> (x, y) \<in> (child_of m)\<^sup>*"
  using rtrancl_mono [OF shrinks_child_of] by blast

lemma shrinks_None: "shrinks m m' \<Longrightarrow> m n = None \<Longrightarrow> m' n = None"
  unfolding shrinks_def by metis

text \<open>Removing the stack itself, once its children are gone.\<close>

lemma delete_removed:
  assumes "shrinks m m1" and "parents_exist m1" and "\<forall>k a. m k = Some (n, a) \<longrightarrow> m1 k = None"
    and "\<forall>x. m1 x \<noteq> m x \<longrightarrow> (n, x) \<in> (child_of m)\<^sup>*"
  shows "removed m n (m1(n := None))"
proof -
  have "parents_exist (m1(n := None))"
    unfolding parents_exist_def
  proof (intro allI impI)
    fix k p a assume k: "(m1(n := None)) k = Some (p, a)"
    then have m1: "m1 k = Some (p, a)" by (auto split: if_splits)
    with assms(1,3) have "p \<noteq> n" unfolding shrinks_def by (metis option.distinct(1))
    with m1 assms(2) show "p = [] \<or> (m1(n := None)) p \<noteq> None" by (auto simp: parents_exist_def)
  qed
  with assms show ?thesis by (auto simp: removed_def shrinks_def)
qed

lemma children_removed:
  assumes "cql_reads S rows" and "n \<noteq> []"
    and "\<forall>k \<in> set (select_children S n c). m1 k = None"
    and "\<forall>x. m1 x \<noteq> rows c x \<longrightarrow> (\<exists>k \<in> set (select_children S n c). (k, x) \<in> (child_of (rows c))\<^sup>*)"
  shows "\<forall>k a. rows c k = Some (n, a) \<longrightarrow> m1 k = None"
    and "\<forall>x. m1 x \<noteq> rows c x \<longrightarrow> (n, x) \<in> (child_of (rows c))\<^sup>*"
proof -
  note kids = reads_children [OF assms(1), of _ n c]
  show "\<forall>k a. rows c k = Some (n, a) \<longrightarrow> m1 k = None" using assms(3) kids by blast
  have "(n, k) \<in> child_of (rows c)" if "k \<in> set (select_children S n c)" for k
    using that kids assms(2) by (auto simp: child_of_def)
  with assms(4) show "\<forall>x. m1 x \<noteq> rows c x \<longrightarrow> (n, x) \<in> (child_of (rows c))\<^sup>*"
    by (meson converse_rtrancl_into_rtrancl)
qed

text \<open>Removing one stack and then the rest of a list.\<close>

lemma removed_then:
  assumes "removed m n m1" and "shrinks m1 m'" and "\<forall>k \<in> set ns. m' k = None"
    and "\<forall>x. m' x \<noteq> m1 x \<longrightarrow> (\<exists>k \<in> set ns. (k, x) \<in> (child_of m1)\<^sup>*)"
  shows "shrinks m m' \<and> (\<forall>k \<in> set (n # ns). m' k = None) \<and>
    (\<forall>x. m' x \<noteq> m x \<longrightarrow> (\<exists>k \<in> set (n # ns). (k, x) \<in> (child_of m)\<^sup>*))"
proof -
  from assms(1) have s: "shrinks m m1" by (simp add: removed_def)
  have "\<exists>k \<in> set (n # ns). (k, x) \<in> (child_of m)\<^sup>*" if "m' x \<noteq> m x" for x
  proof (cases "m' x = m1 x")
    case True
    with that assms(1) show ?thesis by (simp add: removed_def)
  next
    case False
    with assms(4) shrinks_rtrancl [OF s] show ?thesis by (metis list.set_intros(2))
  qed
  moreover have "m' n = None" using assms(1,2) by (simp add: removed_def shrinks_None)
  ultimately show ?thesis using assms(2,3) s shrinks_trans by auto
qed

lemma cas_remove_Ok:
  assumes laws: "cql_reads S rows" "cql_writes S rows"
  shows "cas_remove S fuel n force c = Some (Ok (), c') \<Longrightarrow> n \<noteq> [] \<Longrightarrow> rows c [] = None \<Longrightarrow>
      parents_exist (rows c) \<Longrightarrow> removed (rows c) n (rows c')"
    and "remove_children S fuel ns c = Some (Ok (), c') \<Longrightarrow> [] \<notin> set ns \<Longrightarrow> rows c [] = None \<Longrightarrow>
      parents_exist (rows c) \<Longrightarrow>
      shrinks (rows c) (rows c') \<and> parents_exist (rows c') \<and> (\<forall>n \<in> set ns. rows c' n = None) \<and>
      (\<forall>x. rows c' x \<noteq> rows c x \<longrightarrow> (\<exists>n \<in> set ns. (n, x) \<in> (child_of (rows c))\<^sup>*))"
  using laws
proof (induction S fuel n force c and S fuel ns c arbitrary: c' and c'
    rule: cas_remove_remove_children.induct)
  case (2 S fuel n force c)
  note kids = reads_children [OF \<open>cql_reads S rows\<close>, of _ n c]
  obtain c1 where d: "delete_stack S n c1 = (Ok (), c')"
    and c1: "shrinks (rows c) (rows c1)" "parents_exist (rows c1)"
      "\<forall>k \<in> set (select_children S n c). rows c1 k = None"
      "\<forall>x. rows c1 x \<noteq> rows c x \<longrightarrow>
        (\<exists>k \<in> set (select_children S n c). (k, x) \<in> (child_of (rows c))\<^sup>*)"
  proof (cases force)
    case True
    with 2(2) obtain c1 where r: "remove_children S fuel (select_children S n c) c = Some (Ok (), c1)"
      and d: "delete_stack S n c1 = (Ok (), c')"
      by (auto split: option.splits prod.splits result.splits)
    from kids \<open>rows c [] = None\<close> have "[] \<notin> set (select_children S n c)" by auto
    from 2(1) [OF True r this \<open>rows c [] = None\<close> \<open>parents_exist (rows c)\<close>] 2(6,7)
    show thesis by (intro that [OF d]) simp_all
  next
    case False
    with 2(2) have "select_children S n c = []" "delete_stack S n c = (Ok (), c')"
      by (auto split: if_splits)
    then show thesis using that [of c] \<open>parents_exist (rows c)\<close> by simp
  qed
  have "rows c' = (rows c1)(n := None)" using d \<open>cql_writes S rows\<close> unfolding cql_writes_def by blast
  with delete_removed [OF c1(1,2) children_removed [OF \<open>cql_reads S rows\<close> \<open>n \<noteq> []\<close> c1(3,4)]]
  show ?case by (simp only:)
next
  case (4 S fuel n ns c)
  from 4(3) obtain c1 where r: "cas_remove S fuel n True c = Some (Ok (), c1)"
    and rest: "remove_children S fuel ns c1 = Some (Ok (), c')"
    by (auto split: option.splits prod.splits result.splits)
  from 4(1) [OF r] 4(4-8) have n: "removed (rows c) n (rows c1)" by auto
  then have "rows c1 [] = None" using \<open>rows c [] = None\<close> by (auto simp: removed_def shrinks_None)
  with 4(2) [OF r refl refl rest] n 4(4-8) have IH: "shrinks (rows c1) (rows c')"
    "parents_exist (rows c')" "\<forall>n \<in> set ns. rows c' n = None"
    "\<forall>x. rows c' x \<noteq> rows c1 x \<longrightarrow> (\<exists>n \<in> set ns. (n, x) \<in> (child_of (rows c1))\<^sup>*)"
    by (auto simp: removed_def)
  from removed_then [OF n IH(1,3,4)] IH(2) show ?case by simp
qed simp_all

text \<open>The recursion ends: the children of a stack have fewer descendants.\<close>

definition descendants :: "stack_rows \<Rightarrow> string \<Rightarrow> string set" where
  "descendants m n = {x. (n, x) \<in> (child_of m)\<^sup>*}"

lemma finite_descendants: "finite (dom m) \<Longrightarrow> finite (descendants m n)"
proof (rule finite_subset)
  show "descendants m n \<subseteq> insert n (dom m)"
    by (auto simp: descendants_def child_of_def elim: rtranclE)
qed auto

lemma card_descendants: "forest m \<Longrightarrow> m n \<noteq> None \<Longrightarrow> card (descendants m n) \<le> card (dom m)"
  by (intro card_mono) (auto simp: forest_def descendants_def child_of_def elim: rtranclE)

lemma descendants_child:
  assumes "acyclic (child_of m)" and "finite (dom m)" and "(n, k) \<in> child_of m"
  shows "card (descendants m k) < card (descendants m n)"
proof (rule psubset_card_mono)
  show "finite (descendants m n)" by (rule finite_descendants [OF assms(2)])
  have "n \<notin> descendants m k"
    using assms(1,3) by (auto simp: descendants_def acyclic_def) (meson rtrancl_into_trancl2)
  moreover have "descendants m k \<subseteq> descendants m n"
    using assms(3) by (auto simp: descendants_def intro: converse_rtrancl_into_rtrancl)
  moreover have "n \<in> descendants m n" by (simp add: descendants_def)
  ultimately show "descendants m k \<subset> descendants m n" by blast
qed

lemma descendants_shrink:
  assumes "shrinks m m'" and "finite (dom m)"
  shows "card (descendants m' k) \<le> card (descendants m k)"
  by (intro card_mono finite_descendants assms(2))
     (use shrinks_rtrancl [OF assms(1)] in \<open>auto simp: descendants_def\<close>)

lemma removed_forest:
  assumes "forest m" and "removed m n m'"
  shows "forest m'"
proof -
  from assms(2) have s: "shrinks m m'" by (simp add: removed_def)
  then have "dom m' \<subseteq> dom m" unfolding shrinks_def dom_def by (metis (mono_tags, lifting) Collect_mono)
  moreover have "acyclic (child_of m')"
    using acyclic_subset [OF _ shrinks_child_of [OF s]] assms(1) by (simp add: forest_def)
  ultimately show ?thesis
    using assms by (auto simp: forest_def removed_def parents_exist_def intro: finite_subset)
qed

text \<open>A removal that kept the parents has removed exactly the descendants.\<close>

lemma removed_exact:
  assumes "removed m n m'"
  shows "m' x = (if (n, x) \<in> (child_of m)\<^sup>* then None else m x)"
proof (cases "(n, x) \<in> (child_of m)\<^sup>*")
  case True
  then have "m' x = None"
  proof (induction rule: rtrancl_induct)
    case base
    with assms show ?case by (simp add: removed_def)
  next
    case (step p x)
    show ?case
    proof (rule ccontr)
      assume "m' x \<noteq> None"
      with assms have "m' x = m x" unfolding removed_def shrinks_def by metis
      with step(2) obtain a where "m' x = Some (p, a)" "p \<noteq> []" by (auto simp: child_of_def)
      with assms step.IH show False unfolding removed_def parents_exist_def by blast
    qed
  qed
  with True show ?thesis by simp
next
  case False
  with assms show ?thesis unfolding removed_def by metis
qed

lemma children_descendants:
  assumes "cql_reads S rows" and "forest (rows c)" and "n \<noteq> []"
    and "card (descendants (rows c) n) \<le> Suc fuel" and "k \<in> set (select_children S n c)"
  shows "card (descendants (rows c) k) \<le> fuel"
proof -
  from assms(3,5) have "(n, k) \<in> child_of (rows c)"
    using reads_children [OF assms(1), of k n c] by (auto simp: child_of_def)
  from descendants_child [OF _ _ this] assms(2,4) show ?thesis by (simp add: forest_def)
qed

lemma removed_descendants:
  assumes "forest m" and "removed m n m'"
  shows "card (descendants m' k) \<le> card (descendants m k)"
  using descendants_shrink [of m m' k] assms by (simp add: forest_def removed_def)

lemma cas_remove_total:
  assumes laws: "cql_reads S rows" "cql_writes S rows"
  shows "n \<noteq> [] \<Longrightarrow> rows c [] = None \<Longrightarrow> forest (rows c) \<Longrightarrow>
      card (descendants (rows c) n) \<le> fuel \<Longrightarrow> cas_remove S fuel n force c \<noteq> None"
    and "[] \<notin> set ns \<Longrightarrow> rows c [] = None \<Longrightarrow> forest (rows c) \<Longrightarrow>
      \<forall>k \<in> set ns. card (descendants (rows c) k) \<le> fuel \<Longrightarrow> remove_children S fuel ns c \<noteq> None"
  using laws
proof (induction S fuel n force c and S fuel ns c rule: cas_remove_remove_children.induct)
  case (1 S n force c)
  have "n \<in> descendants (rows c) n" by (simp add: descendants_def)
  moreover have "finite (descendants (rows c) n)"
    using 1(3) by (simp add: finite_descendants forest_def)
  ultimately have "card (descendants (rows c) n) \<noteq> 0" by auto
  with 1(4) show ?case by simp
next
  case (2 S fuel n force c)
  have "[] \<notin> set (select_children S n c)"
    using reads_children [OF 2(6), of "[]" n c] \<open>rows c [] = None\<close> by auto
  then have "remove_children S fuel (select_children S n c) c \<noteq> None" if force
    using 2(1) [OF that] children_descendants [OF 2(6,4,2,5)] 2(3,4,6,7) by blast
  then show ?case by (cases force) (auto split: option.split prod.split result.split)
next
  case (4 S fuel n ns c)
  have "cas_remove S fuel n True c \<noteq> None" by (rule 4(1)) (use 4(3-8) in auto)
  then obtain r c1 where r: "cas_remove S fuel n True c = Some (r, c1)" by auto
  show ?case
  proof (cases "r = Ok ()")
    case True
    with r have r: "cas_remove S fuel n True c = Some (Ok (), c1)" by simp
    have "parents_exist (rows c)" using 4(5) by (simp add: forest_def parents_exist_def)
    with cas_remove_Ok(1) [OF 4(7,8) r] 4(3,4) have n: "removed (rows c) n (rows c1)" by auto
    then have "rows c1 [] = None" using 4(4) by (auto simp: removed_def shrinks_None)
    moreover have "\<forall>k \<in> set ns. card (descendants (rows c1) k) \<le> fuel"
      using removed_descendants [OF 4(5) n] 4(6) by (meson le_trans list.set_intros(2))
    ultimately have "remove_children S fuel ns c1 \<noteq> None"
      using 4(2) [OF r refl refl] removed_forest [OF 4(5) n] 4(3,7,8) by simp
    with r show ?thesis by simp
  next
    case False
    with r show ?thesis by (cases r) auto
  qed
qed simp

text \<open>C30: Forced removal terminates and removes a stack with all its descendants and
  nothing else, and the table stays a forest; with a depth of recursion of the size of
  the table it always returns.\<close>
theorem cassandra_RemoveStack_forced:
  assumes "cql_reads S rows" and "cql_writes S rows" and "forest (rows c)"
    and "rows c [] = None" and "card (dom (rows c)) \<le> fuel"
  shows "\<exists>r c'. cas_RemoveStack S fuel n True c = Some (r, c') \<and>
    (rows c n = None \<longrightarrow> r = Err (''Stack '' @ n @ '' does not exist'') \<and> c' = c) \<and>
    (r = Ok () \<longrightarrow> forest (rows c') \<and>
      (\<forall>x. rows c' x = (if (n, x) \<in> (child_of (rows c))\<^sup>* then None else rows c x)))"
proof (cases "rows c n = None")
  case True
  then show ?thesis by (simp add: cas_RemoveStack_def exists_iff [OF assms(1)])
next
  case False
  with assms(4) have "n \<noteq> []" by auto
  have "card (descendants (rows c) n) \<le> card (dom (rows c))"
    by (rule card_descendants [OF assms(3) False])
  with assms(5) have "cas_remove S fuel n True c \<noteq> None"
    by (intro cas_remove_total(1) [OF assms(1,2) \<open>n \<noteq> []\<close> assms(4,3)]) simp
  then obtain r c' where r: "cas_remove S fuel n True c = Some (r, c')" by auto
  have "forest (rows c') \<and> (\<forall>x. rows c' x = (if (n, x) \<in> (child_of (rows c))\<^sup>* then None else rows c x))"
    if "r = Ok ()"
  proof -
    have "removed (rows c) n (rows c')"
      using cas_remove_Ok(1) [OF assms(1,2)] r that \<open>n \<noteq> []\<close> assms(3,4)
      by (auto simp: forest_def parents_exist_def)
    with removed_forest [OF assms(3)] removed_exact show ?thesis by blast
  qed
  with r False show ?thesis by (auto simp: cas_RemoveStack_def exists_iff [OF assms(1)])
qed

text \<open>Removal without force refuses to remove a stack that others extend and then
  changes nothing; otherwise it deletes just that stack.\<close>
theorem cassandra_RemoveStack_unforced:
  assumes "cql_reads S rows" and "rows c n \<noteq> None"
  shows "cas_RemoveStack S (Suc fuel) n False c =
    Some (if \<exists>k a. rows c k = Some (n, a)
          then (Err (depending n (select_children S n c)), c)
          else delete_stack S n c)"
proof -
  have "select_children S n c \<noteq> [] \<longleftrightarrow> (\<exists>k a. rows c k = Some (n, a))"
    using reads_children [OF assms(1), of _ n c] by (metis list.set_sel(1) empty_iff list.set(1))
  with assms show ?thesis by (simp add: cas_RemoveStack_def exists_iff)
qed

section \<open>A table as an association list\<close>

definition list_session :: "((string \<times> string \<times> string) list) stack_session" where
  "list_session =
     \<lparr>create_keyspace = (\<lambda>c. (Ok (), c)), create_table = (\<lambda>c. (Ok (), c)),
      create_index = (\<lambda>c. (Ok (), c)),
      select_all = (\<lambda>c. AList.clearjunk c),
      select_stack = (\<lambda>n c. case map_of c n of
          None \<Rightarrow> Err ''not found'' | Some (p, a) \<Rightarrow> Ok (n, p, a)),
      select_children = (\<lambda>p c. map fst (filter (\<lambda>(n, q, a). q = p) (AList.clearjunk c))),
      select_count = (\<lambda>n c. Ok (case map_of c n of None \<Rightarrow> 0 | Some _ \<Rightarrow> 1)),
      insert_stack = (\<lambda>n p a c. (Ok (), AList.update n (p, a) c)),
      delete_stack = (\<lambda>n c. (Ok (), AList.delete n c))\<rparr>"

definition sample_codec :: yaml_codec where
  "sample_codec = \<lparr>encode_apps = (\<lambda>m. Ok ''k''),
     decode_apps = (\<lambda>a. Ok (Some [(a, Some empty_application)]))\<rparr>"

lemma list_session_laws: "cql_reads list_session map_of" "cql_writes list_session map_of"
proof -
  have "(n, p, a) \<in> set (AList.clearjunk c) \<longleftrightarrow> map_of c n = Some (p, a)" for n p a
    and c :: "(string \<times> string \<times> string) list"
    by (metis distinct_clearjunk map_of_clearjunk map_of_eq_Some_iff)
  then show "cql_reads list_session map_of"
    by (auto simp: cql_reads_def list_session_def image_iff split: option.split)
  show "cql_writes list_session map_of" by (auto simp: cql_writes_def list_session_def)
qed

lemma decodes_sample: "decodes sample_codec m"
  by (simp add: decodes_def sample_codec_def stack_ok_def)

definition sample_rows :: "(string \<times> string \<times> string) list" where
  "sample_rows = [(''dev'', ''base'', ''k''), (''base'', [], ''k'')]"

lemma sample_forest: "forest (map_of sample_rows)"
proof -
  have "forest (map_of [])" by (simp add: forest_def child_of_def acyclic_def)
  then have "forest ((map_of [])(''base'' \<mapsto> ([], ''k'')))" by (rule forest_insert) simp_all
  then have "forest (((map_of [])(''base'' \<mapsto> ([], ''k'')))(''dev'' \<mapsto> (''base'', ''k'')))"
    by (rule forest_insert) simp_all
  then show ?thesis by (simp add: sample_rows_def)
qed

lemma sample_dom: "card (dom (map_of sample_rows)) \<le> 2"
  unfolding dom_map_of_conv_image_fst by (simp add: sample_rows_def)

lemma sample_lookup:
  "map_of sample_rows ''dev'' \<noteq> None" "map_of sample_rows ''base'' \<noteq> None"
  "map_of sample_rows [] = None"
  by code_simp+

theorem cassandra_GetStack_chain_witness:
  "\<exists>ch s. chain (map_of sample_rows) ''dev'' ch \<and>
     cas_GetStack sample_codec list_session 2 ''dev'' sample_rows = Some (Ok s) \<and> Name s = ''dev''"
  using cassandra_GetStack_chain [OF list_session_laws(1) sample_forest decodes_sample
      sample_lookup(1) sample_dom]
  by (elim exE conjE) (intro exI conjI)

theorem cassandra_StoreStack_forest_witness:
  "forest (map_of (snd (cas_StoreStack sample_codec list_session
     (empty_stack\<lparr>Name := ''prod'', From := ''dev''\<rparr>) sample_rows)))"
proof -
  let ?s = "empty_stack\<lparr>Name := ''prod'', From := ''dev''\<rparr>"
  have "fst (cas_StoreStack sample_codec list_session ?s sample_rows) = Ok ()" by code_simp
  then have "cas_StoreStack sample_codec list_session ?s sample_rows =
      (Ok (), snd (cas_StoreStack sample_codec list_session ?s sample_rows))" by (metis prod.collapse)
  from cassandra_StoreStack_forest [OF list_session_laws sample_forest this] show ?thesis by blast
qed

theorem cassandra_RemoveStack_forced_witness:
  "\<exists>r c'. cas_RemoveStack list_session 2 ''base'' True sample_rows = Some (r, c') \<and> r = Ok () \<and>
     map_of c' ''dev'' = None"
proof -
  have "map_option fst (cas_RemoveStack list_session 2 ''base'' True sample_rows) = Some (Ok ())"
    by code_simp
  moreover have "(''base'', ''dev'') \<in> (child_of (map_of sample_rows))\<^sup>*"
    by (rule r_into_rtrancl) (simp add: child_of_def sample_rows_def)
  moreover obtain r c' where "cas_RemoveStack list_session 2 ''base'' True sample_rows = Some (r, c')"
    and "r = Ok () \<longrightarrow> forest (map_of c') \<and> (\<forall>x. map_of c' x =
      (if (''base'', x) \<in> (child_of (map_of sample_rows))\<^sup>* then None else map_of sample_rows x))"
    using cassandra_RemoveStack_forced [OF list_session_laws sample_forest sample_lookup(3) sample_dom,
        of "''base''"] by (elim exE conjE)
  ultimately show ?thesis by simp
qed

theorem cassandra_RemoveStack_unforced_witness:
  "cas_RemoveStack list_session 1 ''base'' False sample_rows =
     Some (Err (depending ''base'' (select_children list_session ''base'' sample_rows)), sample_rows)"
proof -
  have child: "\<exists>k a. map_of sample_rows k = Some (''base'', a)"
    by (rule exI [of _ "''dev''"], rule exI [of _ "''k''"]) (simp add: sample_rows_def)
  show ?thesis
    unfolding One_nat_def cassandra_RemoveStack_unforced [OF list_session_laws(1) sample_lookup(2)]
    by (simp only: child if_True)
qed

end
