(* ===== verification/MemStorage.thy ===== *)
theory MemStorage
  imports Storage
begin

text \<open>
  The in-memory storage of stacks (src/framework/storage.go, \<open>InMemoryStorage\<close>), which
  development mode uses.  It hands out pointers to the stored stacks, so the model keeps
  the applications in a memory of their own: a stored stack is a cell whose application
  map holds addresses, and a merge writes into the memory.  The pointer to a stored stack
  is its key.
\<close>

section \<open>Data\<close>

type_synonym addr = nat

record StackCell =
  sNamespace :: string
  sName :: string
  sFrom :: string
  sApplications :: "(string, addr option) gomap"
  sLayer :: int

record InMemoryStorage =
  stacks :: "(string \<times> StackCell) list"
  memory :: "addr \<Rightarrow> Application"

definition NewInMemoryStorage :: "(addr \<Rightarrow> Application) \<Rightarrow> InMemoryStorage" where
  "NewInMemoryStorage h = \<lparr>stacks = [], memory = h\<rparr>"

text \<open>What a cell means in a memory.\<close>

definition app_values :: "(addr \<Rightarrow> Application) \<Rightarrow> (string, addr option) gomap \<Rightarrow> app_map" where
  "app_values h m = map_option (map (\<lambda>(k, a). (k, map_option h a))) m"

definition stack_value :: "(addr \<Rightarrow> Application) \<Rightarrow> StackCell \<Rightarrow> Stack" where
  "stack_value h s = \<lparr>Namespace = sNamespace s, Name = sName s, From = sFrom s,
     Applications = app_values h (sApplications s), Layer = sLayer s\<rparr>"

section \<open>Operations\<close>

definition mem_GetAll :: "InMemoryStorage \<Rightarrow> string list result" where
  "mem_GetAll st = Ok (map fst (stacks st))"

text \<open>The stack itself: its parents are not merged.\<close>

definition mem_GetStack :: "string \<Rightarrow> InMemoryStorage \<Rightarrow> string result" where
  "mem_GetStack name st =
     (if map_of (stacks st) name = None then Err ''Stack does not exist'' else Ok name)"

definition mem_StoreStack :: "StackCell \<Rightarrow> InMemoryStorage \<Rightarrow> unit result \<times> InMemoryStorage" where
  "mem_StoreStack stack st =
     (if map_of (stacks st) (sName stack) \<noteq> None then (Err ''Stack already exists'', st)
      else (Ok (), st\<lparr>stacks := AList.update (sName stack) stack (stacks st)\<rparr>))"

definition drop_stack :: "string \<Rightarrow> InMemoryStorage \<Rightarrow> InMemoryStorage" where
  "drop_stack name st = st\<lparr>stacks := AList.delete name (stacks st)\<rparr>"

text \<open>\<open>ord name\<close> is the order in which the range statement of \<open>remove(name)\<close> visits the
  keys; an entry that was deleted before it is reached is not visited. \<open>fuel\<close> bounds
  the depth of the recursion.\<close>

definition mem_children ::
    "(string \<Rightarrow> string list \<Rightarrow> string list) \<Rightarrow> string \<Rightarrow> InMemoryStorage \<Rightarrow> string list" where
  "mem_children ord name st =
     filter (\<lambda>k. case map_of (stacks st) k of Some s \<Rightarrow> sFrom s = name | None \<Rightarrow> False)
       (ord name (map fst (stacks st)))"

definition name_at :: "InMemoryStorage \<Rightarrow> string \<Rightarrow> string" where
  "name_at st k = (case map_of (stacks st) k of Some s \<Rightarrow> sName s | None \<Rightarrow> [])"

fun mem_remove ::
    "(string \<Rightarrow> string list \<Rightarrow> string list) \<Rightarrow> nat \<Rightarrow> string \<Rightarrow> bool \<Rightarrow> InMemoryStorage
     \<Rightarrow> (unit result \<times> InMemoryStorage) option"
  and mem_remove_range ::
    "(string \<Rightarrow> string list \<Rightarrow> string list) \<Rightarrow> nat \<Rightarrow> string \<Rightarrow> string list \<Rightarrow> InMemoryStorage
     \<Rightarrow> (unit result \<times> InMemoryStorage) option" where
  "mem_remove ord 0 name force st = None"
| "mem_remove ord (Suc fuel) name force st =
     (if force
      then (case mem_remove_range ord fuel name (ord name (map fst (stacks st))) st of
              Some (Ok _, st') \<Rightarrow> Some (Ok (), drop_stack name st')
            | r \<Rightarrow> r)
      else if mem_children ord name st \<noteq> []
      then Some (Err (depending name (map (name_at st) (mem_children ord name st))), st)
      else Some (Ok (), drop_stack name st))"
| "mem_remove_range ord fuel name [] st = Some (Ok (), st)"
| "mem_remove_range ord fuel name (k # ks) st =
     (case map_of (stacks st) k of
        None \<Rightarrow> mem_remove_range ord fuel name ks st
      | Some s \<Rightarrow>
          if sFrom s = name
          then (case mem_remove ord fuel (sName s) True st of
                  Some (Ok _, st') \<Rightarrow> mem_remove_range ord fuel name ks st'
                | r \<Rightarrow> r)
          else mem_remove_range ord fuel name ks st)"

definition mem_RemoveStack ::
    "(string \<Rightarrow> string list \<Rightarrow> string list) \<Rightarrow> nat \<Rightarrow> string \<Rightarrow> bool \<Rightarrow> InMemoryStorage
     \<Rightarrow> (unit result \<times> InMemoryStorage) option" where
  "mem_RemoveStack ord fuel name force st =
     (if map_of (stacks st) name = None then Some (Err ''Stack does not exist'', st)
      else mem_remove ord fuel name force st)"

text \<open>The merge of a stack into a stored stack writes into the memory at the addresses
  both have, and shares the addresses of the other applications of the child.\<close>

fun heap_merge_loop ::
    "(string \<times> addr option) list \<Rightarrow> (string, addr option) gomap \<Rightarrow> (addr \<Rightarrow> Application)
     \<Rightarrow> unit result \<times> (string, addr option) gomap \<times> (addr \<Rightarrow> Application)" where
  "heap_merge_loop [] apps h = (Ok (), apps, h)"
| "heap_merge_loop ((name, childApp) # es) apps h =
     (case mget apps name of
        None \<Rightarrow>
          (case mput name childApp apps of
             Ok apps' \<Rightarrow> heap_merge_loop es apps' h
           | Err e \<Rightarrow> (Err e, apps, h)
           | Panic e \<Rightarrow> (Panic e, apps, h))
      | Some own \<Rightarrow>
          (case (childApp, own) of
             (Some c, Some a) \<Rightarrow> heap_merge_loop es apps (h(a := merge_application (h c) (h a)))
           | _ \<Rightarrow> (Panic nil_dereference, apps, h)))"

definition heap_Merge ::
    "string \<Rightarrow> StackCell \<Rightarrow> StackCell \<Rightarrow> InMemoryStorage \<Rightarrow> unit result \<times> InMemoryStorage" where
  "heap_Merge key s child st =
     (case heap_merge_loop (entries (sApplications child)) (sApplications s) (memory st) of
        (r, apps, h) \<Rightarrow>
          (r, \<lparr>stacks = AList.update key (s\<lparr>sName := sName child, sApplications := apps\<rparr>) (stacks st),
               memory = h\<rparr>))"

text \<open>A layer is a level with the pointer to a stored stack.\<close>

definition mem_GetLayer :: "string \<Rightarrow> InMemoryStorage \<Rightarrow> (int \<times> string) result" where
  "mem_GetLayer name st =
     (case map_of (stacks st) name of
        None \<Rightarrow> Err ''Stack does not exist''
      | Some s \<Rightarrow>
          if sLayer s \<in> {LayerZone, LayerCluster, LayerDataCenter} then Ok (sLayer s, name)
          else Err (''Can'' @ [CHR 0x27] @ ''t create layer '' @ name @ '' with level '' @
                    Itoa (sLayer s)))"

definition mem_Layer_Merge ::
    "int \<times> string \<Rightarrow> int \<times> string \<Rightarrow> InMemoryStorage \<Rightarrow> unit result \<times> InMemoryStorage" where
  "mem_Layer_Merge l other st =
     (if fst l < fst other
      then (Err (''Can'' @ [CHR 0x27] @ ''t merge layer level '' @ Itoa (fst l) @
                 '' with level '' @ Itoa (fst other)), st)
      else (case (map_of (stacks st) (snd l), map_of (stacks st) (snd other)) of
              (Some s, Some child) \<Rightarrow> heap_Merge (snd l) s child st
            | _ \<Rightarrow> (Panic nil_dereference, st)))"

text \<open>The result is the pointer to the stack that is returned.\<close>

definition from_of :: "string \<Rightarrow> InMemoryStorage \<Rightarrow> string" where
  "from_of k st = (case map_of (stacks st) k of Some s \<Rightarrow> sFrom s | None \<Rightarrow> [])"

definition mem_GetLayersStack :: "string \<Rightarrow> InMemoryStorage \<Rightarrow> string result \<times> InMemoryStorage" where
  "mem_GetLayersStack name st =
     (case mem_GetLayer name st of
        Err e \<Rightarrow> (Err e, st)
      | Panic e \<Rightarrow> (Panic e, st)
      | Ok zone \<Rightarrow>
          if from_of (snd zone) st = [] then (Ok (snd zone), st)
          else (case mem_GetLayer (from_of (snd zone) st) st of
                  Err e \<Rightarrow> (Err e, st)
                | Panic e \<Rightarrow> (Panic e, st)
                | Ok cluster \<Rightarrow>
                    if from_of (snd cluster) st = [] then (Ok (snd cluster), st)
                    else (case mem_GetLayer (from_of (snd cluster) st) st of
                            Err e \<Rightarrow> (Err e, st)
                          | Panic e \<Rightarrow> (Panic e, st)
                          | Ok datacenter \<Rightarrow>
                              (case mem_Layer_Merge datacenter cluster st of
                                 (Err e, st1) \<Rightarrow> (Err e, st1)
                               | (Panic e, st1) \<Rightarrow> (Panic e, st1)
                               | (Ok _, st1) \<Rightarrow>
                                   (case mem_Layer_Merge datacenter zone st1 of
                                      (Err e, st2) \<Rightarrow> (Err e, st2)
                                    | (Panic e, st2) \<Rightarrow> (Panic e, st2)
                                    | (Ok _, st2) \<Rightarrow> (Ok (snd datacenter), st2))))))"

section \<open>Removal refines the removal in Cassandra\<close>

text \<open>The parents as a table, and the storage as the statements that \<open>remove\<close> needs.\<close>

definition rows_of :: "InMemoryStorage \<Rightarrow> stack_rows" where
  "rows_of st k = map_option (\<lambda>s. (sFrom s, [])) (map_of (stacks st) k)"

definition mem_session ::
    "(string \<Rightarrow> string list \<Rightarrow> string list) \<Rightarrow> InMemoryStorage stack_session" where
  "mem_session ord =
     \<lparr>create_keyspace = (\<lambda>st. (Ok (), st)), create_table = (\<lambda>st. (Ok (), st)),
      create_index = (\<lambda>st. (Ok (), st)), select_all = (\<lambda>st. []),
      select_stack = (\<lambda>n st. case rows_of st n of
          None \<Rightarrow> Err ''Stack does not exist'' | Some (p, a) \<Rightarrow> Ok (n, p, a)),
      select_children = mem_children ord,
      select_count = (\<lambda>n st. Ok (if rows_of st n = None then 0 else 1)),
      insert_stack = (\<lambda>n p a st. (Err ''not a statement of remove'', st)),
      delete_stack = (\<lambda>n st. (Ok (), drop_stack n st))\<rparr>"

text \<open>Every stack is stored under its name.\<close>

definition names_ok :: "InMemoryStorage \<Rightarrow> bool" where
  "names_ok st \<longleftrightarrow> (\<forall>k s. map_of (stacks st) k = Some s \<longrightarrow> sName s = k)"

definition visits_all :: "(string \<Rightarrow> string list \<Rightarrow> string list) \<Rightarrow> bool" where
  "visits_all ord \<longleftrightarrow> (\<forall>n ks. mset (ord n ks) = mset ks)"

lemma map_of_drop [simp]: "map_of (stacks (drop_stack n st)) = (map_of (stacks st))(n := None)"
  by (simp add: drop_stack_def)

lemma memory_drop [simp]: "memory (drop_stack n st) = memory st"
  by (simp add: drop_stack_def)

lemma drop_le: "map_of (stacks (drop_stack n st)) \<subseteq>\<^sub>m map_of (stacks st)"
  by (simp add: map_le_def)

lemma rows_of_drop [simp]: "rows_of (drop_stack n st) = (rows_of st)(n := None)"
  by (simp add: rows_of_def fun_eq_iff)

lemma names_ok_drop: "names_ok st \<Longrightarrow> names_ok (drop_stack n st)"
  by (simp add: names_ok_def)

lemma rows_of_None [simp]: "rows_of st k = None \<longleftrightarrow> map_of (stacks st) k = None"
  by (simp add: rows_of_def)

lemma set_mem_children:
  assumes "visits_all ord"
  shows "k \<in> set (mem_children ord n st) \<longleftrightarrow> (\<exists>s. map_of (stacks st) k = Some s \<and> sFrom s = n)"
proof -
  from assms have "set (ord n (map fst (stacks st))) = set (map fst (stacks st))"
    unfolding visits_all_def by (metis set_mset_mset)
  moreover have "map_of (stacks st) k = Some s \<Longrightarrow> k \<in> set (map fst (stacks st))" for s
    by (metis domI dom_map_of_conv_image_fst list.set_map)
  ultimately show ?thesis by (auto simp: mem_children_def split: option.splits)
qed

lemma mem_session_laws:
  assumes "visits_all ord"
  shows "cql_reads (mem_session ord) rows_of" and "cql_writes (mem_session ord) rows_of"
proof -
  show "cql_reads (mem_session ord) rows_of"
    by (auto simp: cql_reads_def mem_session_def set_mem_children [OF assms] rows_of_def
        split: option.split)
  show "cql_writes (mem_session ord) rows_of"
    by (auto simp: cql_writes_def mem_session_def)
qed

text \<open>Removal only removes: what is left has its old cell, and the memory is untouched.\<close>

definition below :: "InMemoryStorage \<Rightarrow> InMemoryStorage \<Rightarrow> bool" where
  "below st' st \<longleftrightarrow> map_of (stacks st') \<subseteq>\<^sub>m map_of (stacks st) \<and> memory st' = memory st \<and>
     (distinct (map fst (stacks st)) \<longrightarrow> distinct (map fst (stacks st')))"

lemma below_refl: "below st st"
  by (simp add: below_def)

lemma below_trans: "below a b \<Longrightarrow> below b c \<Longrightarrow> below a c"
  by (auto simp: below_def intro: map_le_trans)

lemma below_drop: "below st' st \<Longrightarrow> below (drop_stack n st') st"
  by (rule below_trans) (simp_all add: below_def drop_stack_def map_le_def)

lemma mem_remove_below:
  "mem_remove ord fuel n force st = Some (r, st') \<Longrightarrow> below st' st"
  "mem_remove_range ord fuel n ks st = Some (r, st') \<Longrightarrow> below st' st"
proof (induction ord fuel n force st and ord fuel n ks st arbitrary: r st' and r st'
    rule: mem_remove_mem_remove_range.induct)
  case (2 ord fuel n force st)
  then show ?case
    by (auto split: if_splits option.splits prod.splits result.splits
        intro: below_drop below_refl)
next
  case (4 ord fuel n k ks st)
  show ?case
  proof (cases "\<exists>s. map_of (stacks st) k = Some s \<and> sFrom s = n")
    case True
    then obtain s where s: "map_of (stacks st) k = Some s" "sFrom s = n" by blast
    with 4(5) obtain q st1 where q: "mem_remove ord fuel (sName s) True st = Some (q, st1)"
      by (auto split: option.splits)
    have b: "below st1 st" by (rule 4(2) [OF s q])
    show ?thesis
    proof (cases q)
      case (Ok u)
      with q 4(5) s have "mem_remove_range ord fuel n ks st1 = Some (r, st')" by simp
      from 4(3) [OF s q refl Ok this] b show ?thesis by (rule below_trans)
    qed (use q 4(5) s b in auto)
  next
    case False
    with 4(5) have r: "mem_remove_range ord fuel n ks st = Some (r, st')"
      by (auto split: option.splits)
    show ?thesis
    proof (cases "map_of (stacks st) k")
      case None
      from 4(1) [OF None r] show ?thesis .
    next
      case (Some s)
      with False have "sFrom s \<noteq> n" by simp
      from 4(4) [OF Some this r] show ?thesis .
    qed
  qed
qed (auto intro: below_refl)

lemma below_lookup: "below st' st \<Longrightarrow> map_of (stacks st') k = Some s \<Longrightarrow> map_of (stacks st) k = Some s"
  unfolding below_def map_le_def by (metis domI)

lemma names_ok_le: "names_ok st \<Longrightarrow> below st' st \<Longrightarrow> names_ok st'"
  by (auto simp: names_ok_def below_def map_le_def dom_def)

text \<open>Siblings do not touch one another.\<close>

lemma sibling_stays:
  assumes "acyclic (child_of m)" and "removed m k m'"
    and "m k = Some (n, a)" and "n \<noteq> []" and "m x = Some (n, b)" and "x \<noteq> k"
  shows "m' x = m x"
proof -
  have "(k, x) \<notin> (child_of m)\<^sup>*"
  proof
    assume "(k, x) \<in> (child_of m)\<^sup>*"
    then show False
    proof (cases rule: rtranclE)
      case base
      with assms(6) show False by simp
    next
      case (step p)
      then have "p = n" using assms(5) by (auto simp: child_of_def)
      with step have "(k, n) \<in> (child_of m)\<^sup>*" by simp
      moreover have "(n, k) \<in> child_of m" using assms(3,4) by (simp add: child_of_def)
      ultimately have "(n, n) \<in> (child_of m)\<^sup>+" by (rule rtrancl_into_trancl2 [rotated])
      with assms(1) show False by (simp add: acyclic_def)
    qed
  qed
  with removed_exact [OF assms(2)] show ?thesis by simp
qed

definition child_at :: "InMemoryStorage \<Rightarrow> string \<Rightarrow> string \<Rightarrow> bool" where
  "child_at st n k = (case map_of (stacks st) k of Some s \<Rightarrow> sFrom s = n | None \<Rightarrow> False)"

lemma child_at_rows: "child_at st n k \<longleftrightarrow> rows_of st k = Some (n, [])"
  by (auto simp: child_at_def rows_of_def split: option.split)

lemma mem_children_filter:
  "mem_children ord n st = filter (child_at st n) (ord n (map fst (stacks st)))"
  by (simp add: mem_children_def child_at_def [abs_def])

lemma siblings_left:
  assumes "forest (rows_of st)" and "removed (rows_of st) k (rows_of st')"
    and "child_at st n k" and "n \<noteq> []" and "k \<notin> set ks"
  shows "filter (child_at st' n) ks = filter (child_at st n) ks"
proof (rule filter_cong [OF refl])
  fix x assume "x \<in> set ks"
  with assms(5) have "x \<noteq> k" by auto
  have s: "shrinks (rows_of st) (rows_of st')" using assms(2) by (simp add: removed_def)
  show "child_at st' n x = child_at st n x"
  proof (cases "child_at st n x")
    case True
    with sibling_stays [OF _ assms(2) _ assms(4) _ \<open>x \<noteq> k\<close>] assms(1,3) show ?thesis
      by (simp add: child_at_rows forest_def)
  next
    case False
    with s show ?thesis unfolding child_at_rows shrinks_def by (metis option.distinct(1))
  qed
qed

lemma distinct_visits:
  assumes "visits_all ord" and "distinct ks"
  shows "distinct (ord n ks)"
proof -
  have "mset (ord n ks) = mset ks" using assms(1) by (simp add: visits_all_def)
  with assms(2) show ?thesis using mset_eq_imp_distinct_iff by blast
qed

lemma mem_children_names:
  assumes "visits_all ord" and "names_ok st"
  shows "map (name_at st) (mem_children ord n st) = mem_children ord n st"
  using assms(2) set_mem_children [OF assms(1)]
  by (intro map_idI) (auto simp: name_at_def names_ok_def)

text \<open>The states of a removal that are met on the way: what the lemmas on the recursion
  need of a state, and that a removed child leaves it.\<close>

definition removal_ok :: "InMemoryStorage \<Rightarrow> bool" where
  "removal_ok st \<longleftrightarrow> names_ok st \<and> forest (rows_of st) \<and> rows_of st [] = None \<and>
     distinct (map fst (stacks st))"

lemma removal_ok_step:
  assumes "visits_all ord" and "removal_ok st" and "k \<noteq> []"
    and "cas_remove (mem_session ord) fuel k True st = Some (Ok (), st')" and "below st' st"
  shows "removed (rows_of st) k (rows_of st')" and "removal_ok st'"
proof -
  show rm: "removed (rows_of st) k (rows_of st')"
    using cas_remove_Ok(1) [OF mem_session_laws [OF assms(1)] assms(4,3)] assms(2)
    by (auto simp: removal_ok_def forest_def parents_exist_def)
  have "rows_of st' [] = None"
    using below_lookup [OF assms(5), of "[]"] assms(2) unfolding removal_ok_def
    by (metis option.exhaust option.distinct(1) rows_of_None)
  with assms(2,5) names_ok_le [of st st'] removed_forest [OF _ rm] show "removal_ok st'"
    by (simp add: removal_ok_def below_def)
qed

lemma mem_remove_cas:
  shows "visits_all ord \<Longrightarrow> removal_ok st \<Longrightarrow> n \<noteq> [] \<Longrightarrow>
      mem_remove ord fuel n force st = cas_remove (mem_session ord) fuel n force st"
    and "visits_all ord \<Longrightarrow> removal_ok st \<Longrightarrow> n \<noteq> [] \<Longrightarrow> distinct ks \<Longrightarrow>
      mem_remove_range ord fuel n ks st =
        remove_children (mem_session ord) fuel (filter (child_at st n) ks) st"
proof (induction ord fuel n force st and ord fuel n ks st
    rule: mem_remove_mem_remove_range.induct)
  case (2 ord fuel n force st)
  have sess: "select_children (mem_session ord) n st = mem_children ord n st"
    "delete_stack (mem_session ord) n = (\<lambda>st. (Ok (), drop_stack n st))"
    by (simp_all add: mem_session_def)
  from 2(3) have "names_ok st" "distinct (map fst (stacks st))" by (simp_all add: removal_ok_def)
  then show ?case
    using 2 mem_children_names [OF 2(2), of st n] distinct_visits [OF 2(2), of "map fst (stacks st)" n]
    by (cases force) (auto simp: sess mem_children_filter split: option.splits prod.splits result.splits)
next
  case (4 ord fuel n k ks st)
  from 4(8) have ks: "distinct ks" "k \<notin> set ks" by simp_all
  show ?case
  proof (cases "child_at st n k")
    case False
    show ?thesis
    proof (cases "map_of (stacks st) k")
      case None
      from 4(1) [OF None 4(5-7) ks(1)] None False show ?thesis by simp
    next
      case (Some s)
      with False have "sFrom s \<noteq> n" by (simp add: child_at_def)
      from 4(4) [OF Some this 4(5-7) ks(1)] Some False this show ?thesis by simp
    qed
  next
    case True
    then obtain s where s: "map_of (stacks st) k = Some s" "sFrom s = n"
      by (auto simp: child_at_def split: option.splits)
    with 4(6) have nm: "sName s = k" and "k \<noteq> []" by (auto simp: names_ok_def removal_ok_def)
    have IH: "mem_remove ord fuel k True st = cas_remove (mem_session ord) fuel k True st"
      using 4(2) [OF s] 4(5,6) nm \<open>k \<noteq> []\<close> by simp
    have "mem_remove_range ord fuel n ks st' =
        remove_children (mem_session ord) fuel (filter (child_at st n) ks) st'"
      if r: "mem_remove ord fuel k True st = Some (Ok (), st')" for st'
    proof -
      note st' = removal_ok_step [OF 4(5,6) \<open>k \<noteq> []\<close> r [unfolded IH] mem_remove_below(1) [OF r]]
      have "mem_remove_range ord fuel n ks st' =
          remove_children (mem_session ord) fuel (filter (child_at st' n) ks) st'"
        using 4(3) [OF s, of "(Ok (), st')" "Ok ()" st' "()"] 4(5,7) ks st'(2) r nm by simp
      then show ?thesis using siblings_left [OF _ st'(1) True 4(7) ks(2)] 4(6)
        by (simp add: removal_ok_def)
    qed
    with s nm True IH show ?thesis
      by (auto split: option.split prod.split result.split)
  qed
qed simp_all

text \<open>A forced removal never fails.\<close>

lemma mem_remove_forced_Ok:
  "mem_remove ord fuel n force st = Some (r, st') \<Longrightarrow> force \<Longrightarrow> r = Ok ()"
  "mem_remove_range ord fuel n ks st = Some (r, st') \<Longrightarrow> r = Ok ()"
proof (induction ord fuel n force st and ord fuel n ks st arbitrary: r st' and r st'
    rule: mem_remove_mem_remove_range.induct)
  case (2 ord fuel n force st)
  then show ?case by (auto split: option.splits prod.splits result.splits)
next
  case (4 ord fuel n k ks st)
  show ?case
  proof (cases "\<exists>s. map_of (stacks st) k = Some s \<and> sFrom s = n")
    case True
    then obtain s where s: "map_of (stacks st) k = Some s" "sFrom s = n" by blast
    with 4(5) obtain q st1 where q: "mem_remove ord fuel (sName s) True st = Some (q, st1)"
      by (auto split: option.splits)
    have "q = Ok ()" by (rule 4(2) [OF s q]) simp
    with q 4(5) s have "mem_remove_range ord fuel n ks st1 = Some (r, st')" by simp
    from 4(3) [OF s q refl \<open>q = Ok ()\<close> this] show ?thesis .
  next
    case False
    with 4(5) have r: "mem_remove_range ord fuel n ks st = Some (r, st')"
      by (auto split: option.splits)
    then show ?thesis using 4(1,4) False by (cases "map_of (stacks st) k") auto
  qed
qed auto

text \<open>C33: Forced removal from the in-memory storage, whatever the order of its range
  statements, removes a stack and all its descendants and nothing else, and leaves every
  application as it was, as long as the stacks form a forest and each is stored under its
  name.\<close>
theorem mem_RemoveStack_forced:
  assumes "visits_all ord" and "names_ok st" and "forest (rows_of st)"
    and "map_of (stacks st) [] = None" and "distinct (map fst (stacks st))"
    and "map_of (stacks st) n \<noteq> None" and "length (stacks st) \<le> fuel"
  shows "\<exists>st'. mem_RemoveStack ord fuel n True st = Some (Ok (), st') \<and> memory st' = memory st \<and>
    (\<forall>x. map_of (stacks st') x =
       (if (n, x) \<in> (child_of (rows_of st))\<^sup>* then None else map_of (stacks st) x))"
proof -
  let ?S = "mem_session ord"
  note laws = mem_session_laws [OF assms(1)]
  have nil: "rows_of st [] = None" using assms(4) by simp
  from assms(4,6) have "n \<noteq> []" by auto
  have dm: "dom (rows_of st) = fst ` set (stacks st)"
    unfolding dom_map_of_conv_image_fst [symmetric] by (auto simp: rows_of_def dom_def)
  have "card (descendants (rows_of st) n) \<le> card (dom (rows_of st))"
    using assms(6) by (intro card_descendants [OF assms(3)]) simp
  also have "\<dots> \<le> fuel" using assms(7) card_length [of "map fst (stacks st)"] by (simp add: dm)
  finally have "cas_remove ?S fuel n True st \<noteq> None"
    by (intro cas_remove_total(1) [OF laws \<open>n \<noteq> []\<close> nil assms(3)])
  moreover have eq: "mem_remove ord fuel n True st = cas_remove ?S fuel n True st"
    by (rule mem_remove_cas(1)) (use assms nil \<open>n \<noteq> []\<close> in \<open>auto simp: removal_ok_def\<close>)
  ultimately obtain r st' where r: "mem_remove ord fuel n True st = Some (r, st')" by auto
  have ok: "r = Ok ()" by (rule mem_remove_forced_Ok(1) [OF r]) simp
  have rm: "removed (rows_of st) n (rows_of st')"
    using cas_remove_Ok(1) [OF laws] eq r ok \<open>n \<noteq> []\<close> assms(3) nil
    by (auto simp: forest_def parents_exist_def)
  have b: "below st' st" by (rule mem_remove_below(1) [OF r])
  have "map_of (stacks st') x =
       (if (n, x) \<in> (child_of (rows_of st))\<^sup>* then None else map_of (stacks st) x)" for x
  proof (cases "map_of (stacks st') x")
    case None
    then show ?thesis using removed_exact [OF rm, of x] rows_of_None by metis
  next
    case (Some s)
    then have "map_of (stacks st) x = Some s" using b by (auto simp: below_def map_le_def dom_def)
    moreover have "rows_of st' x \<noteq> None" using Some by simp
    ultimately show ?thesis using removed_exact [OF rm, of x] Some by (auto split: if_splits)
  qed
  with r ok assms(6) b show ?thesis by (simp add: mem_RemoveStack_def below_def)
qed

section \<open>A stack that is its own parent\<close>

text \<open>Removing other stacks leaves it in place.\<close>

lemma mem_remove_keeps_self:
  "mem_remove ord fuel m force st = Some (r, st') \<Longrightarrow> names_ok st \<Longrightarrow> m \<noteq> n \<Longrightarrow>
     map_of (stacks st) n = Some s \<Longrightarrow> sFrom s = n \<Longrightarrow> map_of (stacks st') n = Some s"
  "mem_remove_range ord fuel m ks st = Some (r, st') \<Longrightarrow> names_ok st \<Longrightarrow> m \<noteq> n \<Longrightarrow>
     map_of (stacks st) n = Some s \<Longrightarrow> sFrom s = n \<Longrightarrow> map_of (stacks st') n = Some s"
proof (induction ord fuel m force st and ord fuel m ks st arbitrary: r st' and r st'
    rule: mem_remove_mem_remove_range.induct)
  case (2 ord fuel m force st)
  then show ?case by (auto split: if_splits option.splits prod.splits result.splits)
next
  case (4 ord fuel m k ks st)
  show ?case
  proof (cases "\<exists>t. map_of (stacks st) k = Some t \<and> sFrom t = m")
    case True
    then obtain t where t: "map_of (stacks st) k = Some t" "sFrom t = m" by blast
    with 4(5) obtain q st1 where q: "mem_remove ord fuel (sName t) True st = Some (q, st1)"
      by (auto split: option.splits)
    have "q = Ok ()" by (rule mem_remove_forced_Ok(1) [OF q]) simp
    with q 4(5) t have rest: "mem_remove_range ord fuel m ks st1 = Some (r, st')" by simp
    have "sName t \<noteq> n" using t 4(6-9) by (auto simp: names_ok_def)
    from 4(2) [OF t q 4(6) this 4(8,9)] have "map_of (stacks st1) n = Some s" .
    from 4(3) [OF t q refl \<open>q = Ok ()\<close> rest _ 4(7) this 4(9)]
      names_ok_le [OF 4(6) mem_remove_below(1) [OF q]] show ?thesis by simp
  next
    case False
    with 4(5) have r: "mem_remove_range ord fuel m ks st = Some (r, st')"
      by (auto split: option.splits)
    then show ?thesis using 4(1,4) 4(6-9) False by (cases "map_of (stacks st) k") auto
  qed
qed auto

lemma self_range_diverges:
  assumes IH: "\<And>st. names_ok st \<Longrightarrow> map_of (stacks st) n = Some s \<Longrightarrow> mem_remove ord fuel n True st = None"
  shows "names_ok st \<Longrightarrow> map_of (stacks st) n = Some s \<Longrightarrow> sFrom s = n \<Longrightarrow> n \<in> set ks \<Longrightarrow>
    mem_remove_range ord fuel n ks st = None"
proof (induction ks arbitrary: st)
  case (Cons k ks)
  have nm: "sName s = n" using Cons.prems by (simp add: names_ok_def)
  show ?case
  proof (cases "k = n")
    case True
    with IH [OF Cons.prems(1,2)] Cons.prems nm show ?thesis by simp
  next
    case False
    with Cons.prems have n: "n \<in> set ks" by simp
    note rest = Cons.IH [OF _ _ Cons.prems(3) n]
    show ?thesis
    proof (cases "map_of (stacks st) k")
      case None
      with rest [OF Cons.prems(1,2)] show ?thesis by simp
    next
      case (Some t)
      with Cons.prems(1) False have k: "sName t = k" "sName t \<noteq> n" by (auto simp: names_ok_def)
      show ?thesis
      proof (cases "sFrom t = n \<and> mem_remove ord fuel (sName t) True st \<noteq> None")
        case True
        then obtain q st1 where q: "mem_remove ord fuel (sName t) True st = Some (q, st1)" by auto
        have "q = Ok ()" by (rule mem_remove_forced_Ok(1) [OF q]) simp
        moreover have "map_of (stacks st1) n = Some s"
          by (rule mem_remove_keeps_self(1) [OF q Cons.prems(1) k(2) Cons.prems(2,3)])
        moreover have "names_ok st1" by (rule names_ok_le [OF Cons.prems(1) mem_remove_below(1) [OF q]])
        ultimately show ?thesis using rest [of st1] Some True q by simp
      next
        case False
        with Some rest [OF Cons.prems(1,2)] show ?thesis
          by (cases "mem_remove ord fuel (sName t) True st") auto
      qed
    qed
  qed
qed simp

lemma self_parent_diverges:
  assumes "visits_all ord" and "sFrom s = n"
  shows "names_ok st \<Longrightarrow> map_of (stacks st) n = Some s \<Longrightarrow> mem_remove ord fuel n True st = None"
proof (induction fuel arbitrary: st)
  case (Suc fuel)
  have "n \<in> fst ` set (stacks st)"
    using Suc.prems(2) unfolding dom_map_of_conv_image_fst [symmetric] by blast
  moreover have "set (ord n (map fst (stacks st))) = set (map fst (stacks st))"
    using assms(1) unfolding visits_all_def by (metis set_mset_mset)
  ultimately have "n \<in> set (ord n (map fst (stacks st)))" by simp
  from self_range_diverges [OF Suc.IH Suc.prems(1,2) assms(2) this] show ?case by simp
qed simp

text \<open>The in-memory storage takes a stack whose parent is itself, which every stack
  without a name and a parent is, and then its forced removal recurses without end,
  whatever else is stored and whatever the visiting order.\<close>
theorem mem_self_parent_diverges:
  assumes "visits_all ord" and "names_ok st" and "map_of (stacks st) (sName s) = None"
    and "sFrom s = sName s"
  shows "\<exists>st'. mem_StoreStack s st = (Ok (), st') \<and>
    mem_RemoveStack ord fuel (sName s) True st' = None"
proof -
  let ?st = "st\<lparr>stacks := AList.update (sName s) s (stacks st)\<rparr>"
  have "mem_StoreStack s st = (Ok (), ?st)" using assms(3) by (simp add: mem_StoreStack_def)
  moreover have "names_ok ?st" using assms(2) by (simp add: names_ok_def)
  then have "mem_remove ord fuel (sName s) True ?st = None"
    by (rule self_parent_diverges [OF assms(1,4)]) simp
  then have "mem_RemoveStack ord fuel (sName s) True ?st = None"
    by (simp add: mem_RemoveStack_def)
  ultimately show ?thesis by blast
qed

section \<open>Layers\<close>

definition addrs :: "(string \<times> addr option) list \<Rightarrow> addr list" where
  "addrs es = List.map_filter snd es"

lemma addrs_simps [simp]:
  "addrs [] = []" "addrs ((k, None) # es) = addrs es" "addrs ((k, Some a) # es) = a # addrs es"
  by (simp_all add: addrs_def List.map_filter_def)

lemma set_addrs: "a \<in> set (addrs es) \<longleftrightarrow> (\<exists>k. (k, Some a) \<in> set es)"
  by (force simp: addrs_def List.map_filter_def)

definition val_entries :: "(addr \<Rightarrow> Application) \<Rightarrow> (string \<times> addr option) list
    \<Rightarrow> (string \<times> Application option) list" where
  "val_entries h es = map (\<lambda>(k, a). (k, map_option h a)) es"

lemma app_values_alt: "app_values h m = map_option (val_entries h) m"
  by (simp add: app_values_def val_entries_def [abs_def])

lemma val_entries_simps [simp]:
  "val_entries h [] = []" "val_entries h ((k, a) # es) = (k, map_option h a) # val_entries h es"
  by (simp_all add: val_entries_def)

lemma map_of_val_entries [simp]: "map_of (val_entries h es) k = map_option (map_option h) (map_of es k)"
  by (induction es) auto

lemma val_entries_update:
  "val_entries h (AList.update k a es) = AList.update k (map_option h a) (val_entries h es)"
  by (induction es) auto

lemma val_entries_frame:
  "(\<And>a. a \<in> set (addrs es) \<Longrightarrow> h' a = h a) \<Longrightarrow> val_entries h' es = val_entries h es"
  by (auto simp: val_entries_def set_addrs intro!: option.map_cong0)

lemma val_entries_write:
  assumes "distinct (map fst es)" and "distinct (addrs es)" and "map_of es k = Some (Some a)"
  shows "val_entries (h(a := v)) es = AList.update k (Some v) (val_entries h es)"
  using assms
proof (induction es)
  case (Cons e es)
  obtain k' a' where e: "e = (k', a')" by (cases e)
  show ?case
  proof (cases "k' = k")
    case True
    with Cons.prems e have a: "a' = Some a" and fr: "a \<notin> set (addrs es)" by auto
    have "val_entries (h(a := v)) es = val_entries h es"
      by (rule val_entries_frame) (use fr in auto)
    with True e a show ?thesis
      by (simp only: val_entries_simps option.map fun_upd_same AList.update.simps fst_conv if_True refl)
  next
    case False
    with Cons.prems e have m: "map_of es k = Some (Some a)" by simp
    then have "a \<in> set (addrs es)" by (auto simp: set_addrs dest: map_of_SomeD)
    with Cons.prems e have "a' \<noteq> Some a" by auto
    then have "map_option (h(a := v)) a' = map_option h a'" by (cases a') auto
    moreover have "distinct (addrs es)" using Cons.prems(2) e by (cases a') auto
    ultimately show ?thesis using Cons.IH Cons.prems(1) m e False
      by (simp only: val_entries_simps AList.update.simps list.map distinct.simps fst_conv if_False)
  qed
qed simp

lemma addrs_update_new:
  "map_of es k = None \<Longrightarrow> addrs (AList.update k a es) = addrs es @ addrs [(k, a)]"
proof (induction es)
  case (Cons e es)
  then show ?case by (cases e; cases "snd e") (auto split: if_splits)
qed (cases a; simp)

text \<open>The loop on addresses computes the merge of the values, and writes only to the
  addresses of the two stacks.\<close>

definition merges_to where
  "merges_to es apps h r apps' h' \<longleftrightarrow>
     map_result (\<lambda>_. app_values h' apps') r = merge_loop (val_entries h es) (app_values h apps) \<and>
     (\<forall>a. a \<notin> set (addrs es @ addrs (entries apps)) \<longrightarrow> h' a = h a) \<and>
     distinct (addrs (entries apps')) \<and> map_ok apps' \<and>
     set (addrs (entries apps')) \<subseteq> set (addrs es @ addrs (entries apps))"

lemma merges_to_new:
  assumes "mget apps name = None" and "mput name childApp apps = Ok apps1"
    and "merges_to es apps1 h r apps' h'"
  shows "merges_to ((name, childApp) # es) apps h r apps' h'"
proof (cases apps)
  case None
  with assms(2) show ?thesis by (simp add: mput_def)
next
  case (Some l)
  with assms(2) have "apps1 = Some (AList.update name childApp l)" by (simp add: mput_def)
  moreover have "addrs (AList.update name childApp l) = addrs l @ addrs [(name, childApp)]"
    using assms(1) Some by (simp add: addrs_update_new)
  ultimately show ?thesis
    using assms(1,3) Some
    by (cases childApp)
       (auto simp: merges_to_def merge_entry_def app_values_alt mput_def val_entries_update)
qed

lemma merges_to_shared:
  assumes "mget apps name = Some (Some a)" and "map_ok apps"
    and "distinct (addrs ((name, Some c) # es) @ addrs (entries apps))"
    and "merges_to es apps (h(a := merge_application (h c) (h a))) r apps' h'"
  shows "merges_to ((name, Some c) # es) apps h r apps' h'"
proof -
  let ?h = "h(a := merge_application (h c) (h a))"
  obtain l where l: "apps = Some l" using assms(1) by (cases apps) auto
  have a: "a \<in> set (addrs l)" using assms(1) l by (auto simp: set_addrs dest: map_of_SomeD)
  with assms(3) l have "a \<notin> set (addrs es)" "a \<noteq> c" by auto
  then have "val_entries ?h es = val_entries h es" by (intro val_entries_frame) auto
  moreover have "val_entries ?h l =
      AList.update name (Some (merge_application (h c) (h a))) (val_entries h l)"
    by (rule val_entries_write) (use assms(1-3) l in auto)
  ultimately show ?thesis
    using assms(1,4) a l by (auto simp: merges_to_def merge_entry_def app_values_alt mput_def)
qed

lemma heap_merge_loop_values:
  assumes "heap_merge_loop es apps h = (r, apps', h')"
    and "distinct (addrs es @ addrs (entries apps))"
    and "distinct (map fst es)" and "map_ok apps"
  shows "merges_to es apps h r apps' h'"
  using assms
proof (induction es apps h rule: heap_merge_loop.induct)
  case (1 apps h)
  then show ?case by (auto simp: merges_to_def)
next
  case (2 name childApp es apps h)
  show ?case
  proof (cases "mget apps name")
    case None
    show ?thesis
    proof (cases apps)
      case None
      with 2(3) show ?thesis by (auto simp: merges_to_def mput_def merge_entry_def app_values_alt)
    next
      case (Some l)
      then have put: "mput name childApp apps = Ok (Some (AList.update name childApp l))"
        by (simp add: mput_def)
      have "merges_to es (Some (AList.update name childApp l)) h r apps' h'"
        by (rule 2(1) [OF None put])
           (use 2(3-6) None Some put in \<open>cases childApp; auto simp: addrs_update_new\<close>)+
      then show ?thesis by (rule merges_to_new [OF None put])
    qed
  next
    case (Some p)
    show ?thesis
    proof (cases "\<exists>c a. childApp = Some c \<and> p = Some a")
      case False
      with Some 2(3-6) show ?thesis
        by (cases apps; cases childApp; cases p)
           (auto simp: merges_to_def merge_entry_def app_values_alt)
    next
      case True
      then obtain c a where ca: "childApp = Some c" "p = Some a" by blast
      have "merges_to es apps (h(a := merge_application (h c) (h a))) r apps' h'"
        by (rule 2(2) [OF Some refl ca]) (use 2(3-6) Some ca in \<open>simp_all add: fun_upd_def\<close>)
      with 2(4,6) Some ca show ?thesis by (simp add: merges_to_shared)
    qed
  qed
qed

text \<open>Stacks that were decoded one by one share no application.\<close>

definition cell_addrs :: "StackCell \<Rightarrow> addr list" where
  "cell_addrs s = addrs (entries (sApplications s))"

definition separated :: "InMemoryStorage \<Rightarrow> bool" where
  "separated st \<longleftrightarrow>
     (\<forall>k s. map_of (stacks st) k = Some s \<longrightarrow> map_ok (sApplications s) \<and> distinct (cell_addrs s)) \<and>
     (\<forall>k s k' s'. map_of (stacks st) k = Some s \<longrightarrow> map_of (stacks st) k' = Some s' \<longrightarrow> k \<noteq> k' \<longrightarrow>
        set (cell_addrs s) \<inter> set (cell_addrs s') = {})"

lemma entries_app_values [simp]: "entries (app_values h m) = val_entries h (entries m)"
  by (cases m) (simp_all add: app_values_alt)

lemma heap_Merge_value:
  assumes "Merge (stack_value (memory st) s) (stack_value (memory st) child) = Ok v"
    and "map_ok (sApplications s)" and "map_ok (sApplications child)"
    and "distinct (cell_addrs child @ cell_addrs s)"
  obtains s' h where
    "heap_Merge key s child st = (Ok (), \<lparr>stacks = AList.update key s' (stacks st), memory = h\<rparr>)"
    "stack_value h s' = v" "map_ok (sApplications s')" "distinct (cell_addrs s')"
    "set (cell_addrs s') \<subseteq> set (cell_addrs child @ cell_addrs s)"
    "\<And>a. a \<notin> set (cell_addrs child @ cell_addrs s) \<Longrightarrow> h a = memory st a"
proof -
  obtain r apps h where run:
    "heap_merge_loop (entries (sApplications child)) (sApplications s) (memory st) = (r, apps, h)"
    using prod_cases3 by blast
  from heap_merge_loop_values [OF run] assms(2-4)
  have inv: "map_result (\<lambda>_. app_values h apps) r =
      merge_loop (val_entries (memory st) (entries (sApplications child)))
        (app_values (memory st) (sApplications s))"
    "\<forall>a. a \<notin> set (cell_addrs child @ cell_addrs s) \<longrightarrow> h a = memory st a"
    "distinct (addrs (entries apps))" "map_ok apps"
    "set (addrs (entries apps)) \<subseteq> set (cell_addrs child @ cell_addrs s)"
    by (simp_all add: cell_addrs_def map_ok_def merges_to_def)
  have val: "map_result (\<lambda>apps. (stack_value (memory st) s)\<lparr>Name := sName child, Applications := apps\<rparr>)
      (map_result (\<lambda>_. app_values h apps) r) = Ok v"
    using assms(1) unfolding inv(1) by (simp add: Merge_def stack_value_def)
  then have "is_ok r" by (cases r) simp_all
  then have "r = Ok ()" by (cases r) simp_all
  with val have
    v: "v = (stack_value (memory st) s)\<lparr>Name := sName child, Applications := app_values h apps\<rparr>" by simp
  show thesis
  proof (rule that)
    show "heap_Merge key s child st =
      (Ok (), \<lparr>stacks = AList.update key (s\<lparr>sName := sName child, sApplications := apps\<rparr>) (stacks st),
        memory = h\<rparr>)" using run \<open>r = Ok ()\<close> by (simp add: heap_Merge_def)
  qed (use inv v in \<open>simp_all add: stack_value_def cell_addrs_def\<close>)
qed

lemma stack_value_frame:
  "(\<And>a. a \<in> set (cell_addrs s) \<Longrightarrow> h' a = h a) \<Longrightarrow> stack_value h' s = stack_value h s"
  using val_entries_frame [of "entries (sApplications s)" h' h]
  by (cases "sApplications s") (simp_all add: stack_value_def app_values_alt cell_addrs_def)

text \<open>C34: For a zone under a cluster under a datacenter, the in-memory storage returns
  the merge of the three stacks, but it builds it in place: afterwards the stored
  datacenter is the merged stack, with the settings and the name of that zone; the
  other stored stacks keep their cells.\<close>
theorem mem_GetLayersStack_in_place:
  assumes "separated st"
    and z: "map_of (stacks st) z = Some zs" "sLayer zs = LayerZone" "sFrom zs = c" "c \<noteq> []"
    and c: "map_of (stacks st) c = Some cs" "sLayer cs = LayerCluster" "sFrom cs = d" "d \<noteq> []"
    and d: "map_of (stacks st) d = Some ds" "sLayer ds = LayerDataCenter"
    and merged: "merge_layers (NewDataCenter (stack_value (memory st) ds))
      (NewCluster (stack_value (memory st) cs)) (NewZone (stack_value (memory st) zs)) = Ok v"
  shows "\<exists>st' ds'. mem_GetLayersStack z st = (Ok d, st') \<and> map_of (stacks st') d = Some ds' \<and>
    stack_value (memory st') ds' = v \<and> sName ds' = sName zs \<and>
    (\<forall>k. k \<noteq> d \<longrightarrow> map_of (stacks st') k = map_of (stacks st) k)"
proof -
  let ?v = "stack_value (memory st)"
  have ne: "z \<noteq> c" "c \<noteq> d" "z \<noteq> d"
    using z c d by (auto simp: LayerZone_def LayerCluster_def LayerDataCenter_def)
  have ok: "map_ok (sApplications s) \<and> distinct (cell_addrs s)" if "map_of (stacks st) k = Some s" for k s
    using assms(1) that unfolding separated_def by blast
  have dis: "set (cell_addrs s) \<inter> set (cell_addrs s') = {}"
    if "map_of (stacks st) k = Some s" "map_of (stacks st) k' = Some s'" "k \<noteq> k'" for k k' s s'
    using assms(1) that unfolding separated_def by blast
  from merged obtain v1 where m1: "Merge (?v ds) (?v cs) = Ok v1" and m2: "Merge v1 (?v zs) = Ok v"
    by (auto simp: merge_layers_def Layer_Merge_def NewDataCenter_def NewCluster_def NewZone_def
        LayerDataCenter_def LayerCluster_def LayerZone_def and_then_Ok_iff
        elim!: map_result.elims)
  obtain d1 h1 where r1: "heap_Merge d ds cs st = (Ok (), \<lparr>stacks = AList.update d d1 (stacks st), memory = h1\<rparr>)"
    and d1: "stack_value h1 d1 = v1" "map_ok (sApplications d1)" "distinct (cell_addrs d1)"
      "set (cell_addrs d1) \<subseteq> set (cell_addrs cs @ cell_addrs ds)"
    and f1: "\<And>a. a \<notin> set (cell_addrs cs @ cell_addrs ds) \<Longrightarrow> h1 a = memory st a"
    by (rule heap_Merge_value [OF m1, where key = d]) (use ok [OF d(1)] ok [OF c(1)] dis [OF c(1) d(1) ne(2)] in auto)
  let ?st1 = "\<lparr>stacks = AList.update d d1 (stacks st), memory = h1\<rparr>"
  have zd: "set (cell_addrs zs) \<inter> set (cell_addrs cs @ cell_addrs ds) = {}"
    using dis [OF z(1) c(1) ne(1)] dis [OF z(1) d(1) ne(3)] by auto
  have "stack_value h1 zs = ?v zs" by (rule stack_value_frame) (use f1 zd in blast)
  then have m2': "Merge (stack_value (memory ?st1) d1) (stack_value (memory ?st1) zs) = Ok v"
    using m2 d1(1) by simp
  obtain d2 h2 where r2: "heap_Merge d d1 zs ?st1 =
      (Ok (), \<lparr>stacks = AList.update d d2 (stacks ?st1), memory = h2\<rparr>)"
    and d2: "stack_value h2 d2 = v"
    by (rule heap_Merge_value [OF m2' d1(2), where key = d]) (use ok [OF z(1)] d1(3,4) zd in auto)
  have "sName d2 = Name v" using d2 by (auto simp: stack_value_def)
  also have "\<dots> = sName zs" using m2 by (auto simp: Merge_def stack_value_def elim!: map_result.elims)
  finally have "sName d2 = sName zs" .
  moreover have "mem_GetLayersStack z st = (Ok d, \<lparr>stacks = AList.update d d2 (stacks ?st1), memory = h2\<rparr>)"
    using z c d ne r1 r2
    by (simp add: mem_GetLayersStack_def mem_GetLayer_def from_of_def mem_Layer_Merge_def
        LayerDataCenter_def LayerCluster_def LayerZone_def)
  ultimately show ?thesis using d2 by auto
qed

text \<open>A zone under a cluster that has no datacenter is answered by the cluster alone:
  the settings of the zone are not merged.\<close>
theorem mem_GetLayersStack_drops_zone:
  assumes "map_of (stacks st) z = Some zs" and "sLayer zs = LayerZone" and "sFrom zs = c" and "c \<noteq> []"
    and "map_of (stacks st) c = Some cs" and "sLayer cs = LayerCluster" and "sFrom cs = []"
  shows "mem_GetLayersStack z st = (Ok c, st)"
  using assms by (simp add: mem_GetLayersStack_def mem_GetLayer_def from_of_def)

section \<open>Witnesses\<close>

definition sample_cell :: "string \<Rightarrow> string \<Rightarrow> int \<Rightarrow> addr \<Rightarrow> StackCell" where
  "sample_cell n p l a = \<lparr>sNamespace = [], sName = n, sFrom = p,
     sApplications = Some [(''kafka'', Some a)], sLayer = l\<rparr>"

definition sample_storage :: InMemoryStorage where
  "sample_storage = \<lparr>stacks = [(''z'', sample_cell ''z'' ''c'' 0 2), (''c'', sample_cell ''c'' ''d'' 1 1),
       (''d'', sample_cell ''d'' [] 2 0)],
     memory = (\<lambda>a. empty_application\<lparr>Version := show_nat a\<rparr>)\<rparr>"

lemma sample_stacks:
  "map_of (stacks sample_storage) =
     [''d'' \<mapsto> sample_cell ''d'' [] 2 0, ''c'' \<mapsto> sample_cell ''c'' ''d'' 1 1, ''z'' \<mapsto> sample_cell ''z'' ''c'' 0 2]"
  by (simp add: sample_storage_def)

lemma sample_names_ok: "names_ok sample_storage"
  by (auto simp: names_ok_def sample_stacks sample_cell_def split: if_splits)

lemma sample_separated: "separated sample_storage"
  by (auto simp: separated_def sample_stacks sample_cell_def cell_addrs_def split: if_splits)

lemma sample_storage_forest: "forest (rows_of sample_storage)"
proof -
  have "rows_of sample_storage = [''d'' \<mapsto> ([], []), ''c'' \<mapsto> (''d'', []), ''z'' \<mapsto> (''c'', [])]"
    by (auto simp: rows_of_def sample_stacks sample_cell_def fun_eq_iff)
  moreover have "forest (Map.empty)" by (simp add: forest_def child_of_def acyclic_def)
  then have "forest [''d'' \<mapsto> ([], []), ''c'' \<mapsto> (''d'', []), ''z'' \<mapsto> (''c'', [])]"
    by (intro forest_insert) simp_all
  ultimately show ?thesis by simp
qed

lemma visits_all_id: "visits_all (\<lambda>n ks. ks)"
  by (simp add: visits_all_def)

theorem mem_RemoveStack_forced_witness:
  "\<exists>st'. mem_RemoveStack (\<lambda>n ks. ks) 3 ''c'' True sample_storage = Some (Ok (), st') \<and>
     memory st' = memory sample_storage \<and> map_of (stacks st') ''z'' = None"
proof -
  have "(''c'', ''z'') \<in> (child_of (rows_of sample_storage))\<^sup>*"
    by (rule r_into_rtrancl) (simp add: child_of_def rows_of_def sample_stacks sample_cell_def)
  moreover have "map_of (stacks sample_storage) [] = None" "map_of (stacks sample_storage) ''c'' \<noteq> None"
    "distinct (map fst (stacks sample_storage))" "length (stacks sample_storage) \<le> 3"
    by (simp_all add: sample_stacks) (simp_all add: sample_storage_def)
  ultimately show ?thesis
    using mem_RemoveStack_forced [OF visits_all_id sample_names_ok sample_storage_forest, of "''c''" 3]
    by metis
qed

theorem mem_self_parent_diverges_witness:
  "\<exists>st'. mem_StoreStack (sample_cell [] [] 0 3) sample_storage = (Ok (), st') \<and>
     mem_RemoveStack (\<lambda>n ks. ks) 100 [] True st' = None"
  using mem_self_parent_diverges [OF visits_all_id sample_names_ok, of "sample_cell [] [] 0 3" 100]
  by (simp add: sample_stacks sample_cell_def)

theorem mem_GetLayersStack_in_place_witness:
  "\<exists>st' ds'. mem_GetLayersStack ''z'' sample_storage = (Ok ''d'', st') \<and>
     map_of (stacks st') ''d'' = Some ds' \<and> sName ds' = ''z''"
proof -
  have "is_ok (merge_layers (NewDataCenter (stack_value (memory sample_storage) (sample_cell ''d'' [] 2 0)))
      (NewCluster (stack_value (memory sample_storage) (sample_cell ''c'' ''d'' 1 1)))
      (NewZone (stack_value (memory sample_storage) (sample_cell ''z'' ''c'' 0 2))))"
    by code_simp
  then obtain v where v: "merge_layers
      (NewDataCenter (stack_value (memory sample_storage) (sample_cell ''d'' [] 2 0)))
      (NewCluster (stack_value (memory sample_storage) (sample_cell ''c'' ''d'' 1 1)))
      (NewZone (stack_value (memory sample_storage) (sample_cell ''z'' ''c'' 0 2))) = Ok v"
    by (elim is_ok.elims) simp_all
  have "sName (sample_cell ''z'' ''c'' 0 2) = ''z''" by (simp add: sample_cell_def)
  with mem_GetLayersStack_in_place [OF sample_separated _ _ _ _ _ _ _ _ _ _ v, of "''z''" "''c''" "''d''"]
  show ?thesis
    by (simp add: sample_stacks sample_cell_def LayerZone_def LayerCluster_def LayerDataCenter_def) blast
qed

theorem mem_GetLayersStack_drops_zone_witness:
  "mem_GetLayersStack ''z'' (sample_storage\<lparr>stacks :=
     [(''z'', sample_cell ''z'' ''c'' 0 2), (''c'', sample_cell ''c'' [] 1 1)]\<rparr>) =
   (Ok ''c'', sample_storage\<lparr>stacks :=
     [(''z'', sample_cell ''z'' ''c'' 0 2), (''c'', sample_cell ''c'' [] 1 1)]\<rparr>)"
  by (rule mem_GetLayersStack_drops_zone [of _ _ "sample_cell ''z'' ''c'' 0 2" _ "sample_cell ''c'' [] 1 1"])
     (simp_all add: sample_cell_def LayerZone_def LayerCluster_def)

end
