(* ===== verification/StackExec.thy ===== *)
theory StackExec
  imports StackOrder
begin

text \<open>
  Whole runs of a deployment as a function: \<open>Stack.Run\<close> from the validation to its return,
  for one resolution of everything the program does not decide itself (the range orders, the
  interleaving of the goroutines, the results of the applications, the answer of Marathon).
  The run is one of the runs of the state machine, so that what holds in all of these holds
  for it; every theorem on it is for all resolutions.
\<close>

section \<open>One run\<close>

text \<open>The next thing to happen: a goroutine ends with a result, or the loop receives one.\<close>

datatype run_choice =
  Finishes nat "error option"
| Receives Variables "Application list"

text \<open>The environment of one call of \<open>Run\<close>. The goroutines of the applications also write to
  the scheduler (\<open>RunApplication\<close>) and into the application structs (\<open>resolveVariables\<close>) until
  the call returns: \<open>left_scheduler\<close>, \<open>left_cron\<close> and \<open>left_app\<close> are what they leave, and may be
  any functions.\<close>

record ('d, 'c) run_env =
  run_regexps :: regexp
  run_runners :: "string \<Rightarrow> bool"
  run_info :: "string result"
  skip_order :: "nat \<Rightarrow> Application list \<Rightarrow> Application list"
  first_pass :: "Application list \<Rightarrow> Application list"
  choices :: "run_choice list"
  left_scheduler :: "'d \<Rightarrow> 'd"
  left_cron :: "'c \<Rightarrow> 'c"
  left_app :: "Application \<Rightarrow> Application"

text \<open>A choice that the state does not allow is passed over; once \<open>Run\<close> has returned nothing
  more happens in it.\<close>

definition take_choice ::
    "'s StateStorage \<Rightarrow> string \<Rightarrow> string \<Rightarrow> Application list \<Rightarrow> run_choice \<Rightarrow> 's run_state \<Rightarrow> 's run_state" where
  "take_choice SS name zone apps ch st =
     (case ch of
        Finishes i err \<Rightarrow>
          if i < length (inflight st) \<and> length (statuses st) < length apps
          then finish_step i err st else st
      | Receives vs apps' \<Rightarrow>
          if statuses st \<noteq> [] \<and> mset apps' = mset apps
          then recv_step SS name zone vs apps' st else st)"

fun run_choices ::
    "'s StateStorage \<Rightarrow> string \<Rightarrow> string \<Rightarrow> Application list \<Rightarrow> run_choice list \<Rightarrow> 's run_state
     \<Rightarrow> 's run_state" where
  "run_choices SS name zone apps [] st = st"
| "run_choices SS name zone apps (ch # chs) st =
     (if outcome st \<noteq> None then st
      else run_choices SS name zone apps chs (take_choice SS name zone apps ch st))"

text \<open>The result and the state storage when \<open>Run\<close> returns; \<open>None\<close> if it never does.\<close>

definition execute_stack ::
    "'s StateStorage \<Rightarrow> ('d, 'c) run_env \<Rightarrow> string list \<Rightarrow> string \<Rightarrow> string \<Rightarrow> Stack \<Rightarrow> Variables \<Rightarrow> 's
     \<Rightarrow> (unit result \<times> 's) option" where
  "execute_stack SS env skips name zone s vs store =
     (case Stack_Run (run_regexps env) (run_runners env) (run_info env) (skip_order env)
             (first_pass env (stack_apps s)) skips name zone s vs store of
        Fails e \<Rightarrow> Some (Err e, store)
      | Panics e \<Rightarrow> Some (Panic e, store)
      | Blocks \<Rightarrow> None
      | Returns (vs', st0) \<Rightarrow>
          (let st = run_choices SS name zone (stack_apps s) (choices env) st0
           in map_option (\<lambda>r. (r, storage st)) (outcome st)))"

section \<open>The run is a run of the machine\<close>

lemma take_choice_step:
  "outcome st = None \<Longrightarrow> (run_step SS name zone apps UNIV)\<^sup>*\<^sup>* st (take_choice SS name zone apps ch st)"
  by (auto simp: take_choice_def split: run_choice.split intro!: r_into_rtranclp finish receive)

lemma run_choices_steps:
  "(run_step SS name zone apps UNIV)\<^sup>*\<^sup>* st (run_choices SS name zone apps chs st)"
proof (induction chs arbitrary: st)
  case (Cons ch chs)
  show ?case
  proof (cases "outcome st = None")
    case True
    with rtranclp_trans [OF take_choice_step [OF True] Cons] show ?thesis by simp
  qed simp
qed simp

text \<open>The range orders of an environment are orders.\<close>

definition orders_ok :: "('d, 'c) run_env \<Rightarrow> bool" where
  "orders_ok env \<longleftrightarrow> (\<forall>n xs. mset (skip_order env n xs) = mset xs) \<and> (\<forall>xs. mset (first_pass env xs) = mset xs)"

lemma execute_stack_deploys:
  assumes "execute_stack SS env skips name zone s vs store = Some (Ok (), store')" and "orders_ok env"
  shows "\<exists>st. deploys SS (run_regexps env) (run_runners env) skips name zone s UNIV store st \<and>
    outcome st = Some (Ok ()) \<and> storage st = store'"
proof -
  from assms(1) obtain vs' st0 where r: "Stack_Run (run_regexps env) (run_runners env) (run_info env)
      (skip_order env) (first_pass env (stack_apps s)) skips name zone s vs store = Returns (vs', st0)"
    by (auto simp: execute_stack_def split: blocking.splits)
  with assms(2) have "starts (run_regexps env) (run_runners env) skips name zone s store st0"
    unfolding starts_def orders_ok_def by blast
  with run_choices_steps have "deploys SS (run_regexps env) (run_runners env) skips name zone s UNIV store
      (run_choices SS name zone (stack_apps s) (choices env) st0)" unfolding deploys_def by blast
  with assms(1) r show ?thesis by (auto simp: execute_stack_def Let_def)
qed

section \<open>What a run does to the storage\<close>

lemma recv_step_storage:
  assumes "\<And>a x s. P s \<Longrightarrow> P (snd (SaveApplicationStatus SS name zone a x s))"
    and "\<And>v s. P s \<Longrightarrow> P (snd (SaveStackVariables SS name zone v s))"
    and "P (storage st)"
  shows "P (storage (recv_step SS name zone vs apps st))"
proof (cases "statuses st")
  case Nil
  with assms(3) show ?thesis by (simp add: recv_step_def)
next
  case (Cons q rest)
  obtain a err where q: "q = (a, err)" by (cases q)
  show ?thesis
  proof (cases err)
    case (Some e)
    with Cons q assms(1,3) show ?thesis by (simp add: recv_step_def)
  next
    case None
    obtain r1 s1 where s1: "SaveApplicationStatus SS name zone (ID a) ApplicationStatusRunning (storage st) = (r1, s1)"
      by fastforce
    obtain r2 s2 where s2: "SaveStackVariables SS name zone vs s1 = (r2, s2)" by fastforce
    have "P s1" using assms(1) [OF assms(3)] s1 by (metis snd_conv)
    moreover have "P s2" using assms(2) [OF \<open>P s1\<close>] s2 by (metis snd_conv)
    ultimately show ?thesis
      using Cons q None s1 s2
      by (cases r1; cases r2) (auto simp: recv_step_def launch_ready_def Let_def split: prod.split)
  qed
qed

lemma run_choices_storage:
  assumes "\<And>a x s. P s \<Longrightarrow> P (snd (SaveApplicationStatus SS name zone a x s))"
    and "\<And>v s. P s \<Longrightarrow> P (snd (SaveStackVariables SS name zone v s))"
    and "P (storage st)"
  shows "P (storage (run_choices SS name zone apps chs st))"
  using assms(3)
proof (induction chs arbitrary: st)
  case (Cons ch chs)
  then show ?case
    using recv_step_storage [of P, OF assms(1,2)]
    by (auto simp: take_choice_def finish_step_def split: run_choice.split)
qed simp

lemma Stack_Run_storage:
  "Stack_Run rx runners info ord apps' skips name zone s vs store = Returns (vs', st0) \<Longrightarrow> storage st0 = store"
  by (cases "Stack_Validate rx runners s"; cases info;
      cases "markSkippedApps rx ord 0 (mlen (Applications s)) (stack_apps s) skips ([], [], [])")
     (auto simp: Stack_Run_def launch_ready_def split: prod.splits)

lemma Stack_Run_outcome:
  "Stack_Run rx runners info ord apps' skips name zone s vs store = Returns (vs', st0) \<Longrightarrow> outcome st0 = None"
  by (cases "Stack_Validate rx runners s"; cases info;
      cases "markSkippedApps rx ord 0 (mlen (Applications s)) (stack_apps s) skips ([], [], [])")
     (auto simp: Stack_Run_def launch_ready_def split: prod.splits)

lemma execute_stack_storage:
  assumes "execute_stack SS env skips name zone s vs store = Some (r, store')"
    and "\<And>a x s. P s \<Longrightarrow> P (snd (SaveApplicationStatus SS name zone a x s))"
    and "\<And>v s. P s \<Longrightarrow> P (snd (SaveStackVariables SS name zone v s))"
    and "P store"
  shows "P store'"
  using assms(1,4) Stack_Run_storage run_choices_storage [of P, OF assms(2,3)]
  by (fastforce simp: execute_stack_def Let_def split: blocking.splits)

text \<open>The in-memory storage accepts the status of an application only for a stack whose own
  status was saved before. Without it the first confirmed application ends the run with an
  error, and the storage stays without the stack.\<close>

lemma take_choice_unknown_stack:
  assumes "find_state (storage st) name zone = None" and "outcome st = None"
  shows "find_state (storage (take_choice InMemoryStateStorage name zone apps ch st)) name zone = None"
    and "outcome (take_choice InMemoryStateStorage name zone apps ch st) \<noteq> Some (Ok ())"
  using assms
  by (auto simp: take_choice_def finish_step_def recv_step_def InMemoryStateStorage_def
      mem_SaveApplicationStatus_def Let_def split: run_choice.split list.split option.split)

lemma run_choices_unknown_stack:
  assumes "find_state (storage st) name zone = None" and "outcome st \<noteq> Some (Ok ())"
  shows "find_state (storage (run_choices InMemoryStateStorage name zone apps chs st)) name zone = None \<and>
    outcome (run_choices InMemoryStateStorage name zone apps chs st) \<noteq> Some (Ok ())"
  using assms
proof (induction chs arbitrary: st)
  case (Cons ch chs)
  show ?case
  proof (cases "outcome st = None")
    case True
    with Cons take_choice_unknown_stack [OF Cons.prems(1) True] show ?thesis by simp
  qed (use Cons.prems in simp)
qed simp

lemma execute_unknown_stack:
  assumes "find_state store name zone = None"
    and "execute_stack InMemoryStateStorage env skips name zone s vs store = Some (r, store')"
  shows "find_state store' name zone = None" and "r \<noteq> Ok ()"
proof -
  have "find_state store' name zone = None \<and> r \<noteq> Ok ()"
  proof (cases "Stack_Run (run_regexps env) (run_runners env) (run_info env) (skip_order env)
      (first_pass env (stack_apps s)) skips name zone s vs store")
    case (Returns x)
    obtain vs' st0 where x: "x = (vs', st0)" by (cases x)
    with Returns assms(1) have "find_state (storage st0) name zone = None" and "outcome st0 \<noteq> Some (Ok ())"
      by (auto dest: Stack_Run_storage Stack_Run_outcome)
    from run_choices_unknown_stack [OF this] Returns x assms(2) show ?thesis
      by (auto simp: execute_stack_def Let_def)
  qed (use assms in \<open>auto simp: execute_stack_def\<close>)
  then show "find_state store' name zone = None" and "r \<noteq> Ok ()" by simp_all
qed

section \<open>A sample run\<close>

text \<open>The two applications of the sample stack come up one after the other.\<close>

definition sample_run_env :: "('d, 'c) run_env" where
  "sample_run_env =
     \<lparr>run_regexps = literal_regexp, run_runners = (\<lambda>_. False), run_info = Ok ''master'',
      skip_order = (\<lambda>_ xs. xs), first_pass = (\<lambda>xs. xs),
      choices = [Finishes 0 None, Receives NewVariables (stack_apps sample_stack),
                 Finishes 0 None, Receives NewVariables (stack_apps sample_stack)],
      left_scheduler = (\<lambda>d. d), left_cron = (\<lambda>c. c), left_app = (\<lambda>a. a)\<rparr>"

text \<open>An environment in which Marathon does not answer, so that no run gets past the start.\<close>

definition silent_env :: "('d, 'c) run_env" where
  "silent_env = sample_run_env\<lparr>run_info := Err ''e''\<rparr>"

end
