(* ===== verification/Users.thy ===== *)
theory Users
  imports Prelude "HOL-Library.Word"
begin

text \<open>
  Users, their keys and roles (src/framework/user_storage.go): the Cassandra storage over
  the queries it sends, with the digest of the keys computed by SHA-1, the storage of
  development mode that lets everybody in, and the contract that the server relies on.
\<close>

unbundle bit_operations_syntax

section \<open>SHA-1\<close>

text \<open>\<open>sha1.Sum\<close> of the standard library (FIPS 180-4): padding to blocks of 64 bytes,
  the schedule of 80 words, and the compression of a block.\<close>

definition rotl :: "nat \<Rightarrow> 32 word \<Rightarrow> 32 word" where
  "rotl n w = push_bit n w OR drop_bit (32 - n) w"

definition be_bytes :: "nat \<Rightarrow> int \<Rightarrow> int list" where
  "be_bytes k n = map (\<lambda>i. (n div 256 ^ i) mod 256) (rev [0..<k])"

definition sha1_pad :: "int list \<Rightarrow> int list" where
  "sha1_pad bs =
     (let n = length bs in bs @ [128] @ replicate ((119 - n mod 64) mod 64) 0 @ be_bytes 8 (8 * int n))"

fun word_of_bytes :: "int list \<Rightarrow> 32 word" where
  "word_of_bytes bs = fold (\<lambda>b w. 256 * w + of_int b) bs 0"

function chunks :: "nat \<Rightarrow> 'a list \<Rightarrow> 'a list list" where
  "chunks k xs = (if k = 0 \<or> xs = [] then [] else take k xs # chunks k (drop k xs))"
  by pat_completeness auto
termination by (relation "measure (\<lambda>(k, xs). length xs)") auto

declare chunks.simps [simp del]

text \<open>The schedule, newest word first.\<close>

fun sha1_extend :: "nat \<Rightarrow> 32 word list \<Rightarrow> 32 word list" where
  "sha1_extend 0 ws = ws"
| "sha1_extend (Suc n) ws =
     sha1_extend n (rotl 1 (ws ! 2 XOR ws ! 7 XOR ws ! 13 XOR ws ! 15) # ws)"

type_synonym sha_state = "32 word \<times> 32 word \<times> 32 word \<times> 32 word \<times> 32 word"

definition sha1_f :: "nat \<Rightarrow> 32 word \<Rightarrow> 32 word \<Rightarrow> 32 word \<Rightarrow> 32 word" where
  "sha1_f t b c d =
     (if t < 20 then (b AND c) OR (NOT b AND d)
      else if t < 40 then b XOR c XOR d
      else if t < 60 then (b AND c) OR (b AND d) OR (c AND d)
      else b XOR c XOR d)"

definition sha1_k :: "nat \<Rightarrow> 32 word" where
  "sha1_k t = (if t < 20 then 0x5A827999 else if t < 40 then 0x6ED9EBA1
     else if t < 60 then 0x8F1BBCDC else 0xCA62C1D6)"

fun sha1_rounds :: "nat \<Rightarrow> 32 word list \<Rightarrow> sha_state \<Rightarrow> sha_state" where
  "sha1_rounds t [] s = s"
| "sha1_rounds t (w # ws) (a, b, c, d, e) =
     sha1_rounds (Suc t) ws (rotl 5 a + sha1_f t b c d + e + sha1_k t + w, a, rotl 30 b, c, d)"

definition sha1_block :: "int list \<Rightarrow> sha_state \<Rightarrow> sha_state" where
  "sha1_block block s =
     (case (s, sha1_rounds 0 (rev (sha1_extend 64 (rev (map word_of_bytes (chunks 4 block))))) s) of
        ((a, b, c, d, e), (a', b', c', d', e')) \<Rightarrow> (a + a', b + b', c + c', d + d', e + e'))"

definition sha1_sum :: "int list \<Rightarrow> int list" where
  "sha1_sum bs =
     (case fold sha1_block (chunks 64 (sha1_pad bs))
             (0x67452301, 0xEFCDAB89, 0x98BADCFE, 0x10325476, 0xC3D2E1F0) of
        (a, b, c, d, e) \<Rightarrow> concat (map (\<lambda>w. be_bytes 4 (uint w)) [a, b, c, d, e]))"

definition hex_digit :: "int \<Rightarrow> char" where
  "hex_digit n = ''0123456789abcdef'' ! nat n"

definition hex_bytes :: "int list \<Rightarrow> string" where
  "hex_bytes bs = concat (map (\<lambda>b. [hex_digit (b div 16), hex_digit (b mod 16)]) bs)"

definition sha :: "string \<Rightarrow> string" where
  "sha key = hex_bytes (sha1_sum (map of_char key))"

section \<open>Users\<close>

type_synonym UserRole = int

definition UserAdmin :: UserRole where "UserAdmin = 0"
definition UserRegular :: UserRole where "UserRegular = 1"

record User =
  UserName :: string
  Key :: string
  Role :: UserRole

text \<open>What a \<open>UserStorage\<close> offers on a state: \<open>GetUser\<close> gives a nil pointer as \<open>None\<close>.\<close>

record 's UserStorage =
  us_SaveUser :: "User \<Rightarrow> 's \<Rightarrow> unit result \<times> 's"
  us_GetUser :: "string \<Rightarrow> 's \<Rightarrow> User option result"
  us_CheckKey :: "string \<Rightarrow> string \<Rightarrow> 's \<Rightarrow> bool result"
  us_IsAdmin :: "string \<Rightarrow> 's \<Rightarrow> bool result"
  us_CreateUser :: "string \<Rightarrow> UserRole \<Rightarrow> 's \<Rightarrow> string result \<times> 's"
  us_RefreshToken :: "string \<Rightarrow> 's \<Rightarrow> string result \<times> 's"

section \<open>Cassandra\<close>

text \<open>One field per statement, and the generator of UUIDs.\<close>

record 's user_session =
  create_users :: "'s \<Rightarrow> unit result \<times> 's"
  count_users :: "'s \<Rightarrow> int result"
  count_user :: "string \<Rightarrow> 's \<Rightarrow> int result"
  select_user :: "string \<Rightarrow> 's \<Rightarrow> (string \<times> string \<times> int) result"
  insert_user :: "string \<Rightarrow> string \<Rightarrow> int \<Rightarrow> 's \<Rightarrow> unit result \<times> 's"
  UUID :: "'s \<Rightarrow> string \<times> 's"

definition SaveUser :: "'s user_session \<Rightarrow> User \<Rightarrow> 's \<Rightarrow> unit result \<times> 's" where
  "SaveUser S user s = insert_user S (UserName user) (sha (Key user)) (Role user) s"

definition GetUser :: "'s user_session \<Rightarrow> string \<Rightarrow> 's \<Rightarrow> User result" where
  "GetUser S name s =
     map_result (\<lambda>(n, k, r). \<lparr>UserName = n, Key = k, Role = r\<rparr>) (select_user S name s)"

definition CheckKey :: "'s user_session \<Rightarrow> string \<Rightarrow> string \<Rightarrow> 's \<Rightarrow> bool result" where
  "CheckKey S name key s = map_result (\<lambda>user. Key user = sha key) (GetUser S name s)"

definition IsAdmin :: "'s user_session \<Rightarrow> string \<Rightarrow> 's \<Rightarrow> bool result" where
  "IsAdmin S name s = map_result (\<lambda>user. Role user = UserAdmin) (GetUser S name s)"

definition isEmpty :: "'s user_session \<Rightarrow> 's \<Rightarrow> bool result" where
  "isEmpty S s = map_result (\<lambda>count. count = 0) (count_users S s)"

definition userExist :: "'s user_session \<Rightarrow> string \<Rightarrow> 's \<Rightarrow> bool result" where
  "userExist S name s = map_result (\<lambda>count. count > 0) (count_user S name s)"

definition quoted :: "string \<Rightarrow> string" where
  "quoted name = [CHR 0x27] @ name @ [CHR 0x27]"

text \<open>The key is returned together with the error of \<open>SaveUser\<close>; the callers look at
  the error first.\<close>

definition CreateUser :: "'s user_session \<Rightarrow> string \<Rightarrow> UserRole \<Rightarrow> 's \<Rightarrow> string result \<times> 's" where
  "CreateUser S name role s =
     (case userExist S name s of
        Err e \<Rightarrow> (Err e, s)
      | Panic e \<Rightarrow> (Panic e, s)
      | Ok True \<Rightarrow> (Err (''User '' @ quoted name @ '' already exists''), s)
      | Ok False \<Rightarrow>
          (case UUID S s of (key, s1) \<Rightarrow>
             (case SaveUser S \<lparr>UserName = name, Key = key, Role = role\<rparr> s1 of
                (r, s2) \<Rightarrow> (map_result (\<lambda>_. key) r, s2))))"

definition RefreshToken :: "'s user_session \<Rightarrow> string \<Rightarrow> 's \<Rightarrow> string result \<times> 's" where
  "RefreshToken S name s =
     (case userExist S name s of
        Err e \<Rightarrow> (Err e, s)
      | Panic e \<Rightarrow> (Panic e, s)
      | Ok False \<Rightarrow> (Err (''User '' @ quoted name @ '' does not exist''), s)
      | Ok True \<Rightarrow>
          (case GetUser S name s of
             Err e \<Rightarrow> (Err e, s)
           | Panic e \<Rightarrow> (Panic e, s)
           | Ok user \<Rightarrow>
               (case UUID S s of (newKey, s1) \<Rightarrow>
                  (case SaveUser S (user\<lparr>Key := newKey\<rparr>) s1 of
                     (r, s2) \<Rightarrow> (map_result (\<lambda>_. newKey) r, s2)))))"

definition createAdmin :: "'s user_session \<Rightarrow> 's \<Rightarrow> string result \<times> 's" where
  "createAdmin S s = CreateUser S ''admin'' UserAdmin s"

text \<open>\<open>Init\<close> and \<open>NewCassandraUserStorage\<close>: the key is empty unless the administrator
  was created.\<close>

definition users_Init :: "'s user_session \<Rightarrow> 's \<Rightarrow> string result \<times> 's" where
  "users_Init S s =
     (case create_users S s of
        (Err e, s1) \<Rightarrow> (Err e, s1)
      | (Panic e, s1) \<Rightarrow> (Panic e, s1)
      | (Ok _, s1) \<Rightarrow>
          (case isEmpty S s1 of
             Err e \<Rightarrow> (Err e, s1)
           | Panic e \<Rightarrow> (Panic e, s1)
           | Ok True \<Rightarrow> createAdmin S s1
           | Ok False \<Rightarrow> (Ok [], s1)))"

definition CassandraUserStorage :: "'s user_session \<Rightarrow> 's UserStorage" where
  "CassandraUserStorage S =
     \<lparr>us_SaveUser = SaveUser S, us_GetUser = (\<lambda>n s. map_result Some (GetUser S n s)),
      us_CheckKey = CheckKey S, us_IsAdmin = IsAdmin S,
      us_CreateUser = CreateUser S, us_RefreshToken = RefreshToken S\<rparr>"

definition NewCassandraUserStorage ::
    "'s user_session \<Rightarrow> 's \<Rightarrow> ('s UserStorage \<times> string) result \<times> 's" where
  "NewCassandraUserStorage S s =
     (case users_Init S s of (r, s1) \<Rightarrow> (map_result (\<lambda>key. (CassandraUserStorage S, key)) r, s1))"

section \<open>Development mode\<close>

definition NoopUserStorage :: "'s UserStorage" where
  "NoopUserStorage =
     \<lparr>us_SaveUser = (\<lambda>u s. (Ok (), s)), us_GetUser = (\<lambda>n s. Ok None),
      us_CheckKey = (\<lambda>n k s. Ok True), us_IsAdmin = (\<lambda>n s. Ok True),
      us_CreateUser = (\<lambda>n r s. (Ok [], s)), us_RefreshToken = (\<lambda>n s. (Ok [], s))\<rparr>"

section \<open>Decoding\<close>

text \<open>A user in a request: the fields as the JSON decoder gives them, the role by name.\<close>

definition User_UnmarshalJSON ::
    "(string \<Rightarrow> (string \<times> string \<times> string) result) \<Rightarrow> string \<Rightarrow> User result" where
  "User_UnmarshalJSON decode json =
     map_result (\<lambda>(name, key, role).
         \<lparr>UserName = name, Key = key, Role = (if role = ''admin'' then UserAdmin else UserRegular)\<rparr>)
       (decode json)"

section \<open>The table\<close>

text \<open>The behaviour of the statements the storage relies on, with the table as a map from
  names to digests and roles.\<close>

definition user_reads :: "'s user_session \<Rightarrow> ('s \<Rightarrow> string \<Rightarrow> (string \<times> int) option) \<Rightarrow> bool" where
  "user_reads S users \<longleftrightarrow>
     (\<forall>n s. case users s n of
        None \<Rightarrow> \<not> is_ok (select_user S n s) \<and> count_user S n s = Ok 0
      | Some (k, r) \<Rightarrow> select_user S n s = Ok (n, k, r) \<and> count_user S n s = Ok 1) \<and>
     (\<forall>s. count_users S s = Ok (int (card (dom (users s)))))"

definition user_writes :: "'s user_session \<Rightarrow> ('s \<Rightarrow> string \<Rightarrow> (string \<times> int) option) \<Rightarrow> bool" where
  "user_writes S users \<longleftrightarrow>
     (\<forall>n k r s s'. insert_user S n k r s = (Ok (), s') \<longrightarrow> users s' = (users s)(n \<mapsto> (k, r))) \<and>
     (\<forall>s. users (snd (UUID S s)) = users s) \<and>
     (\<forall>s s' q. create_users S s = (q, s') \<longrightarrow> users s' = users s)"

lemma user_reads_Some:
  "user_reads S users \<Longrightarrow> users s n = Some (k, r) \<Longrightarrow>
     select_user S n s = Ok (n, k, r) \<and> count_user S n s = Ok 1"
  unfolding user_reads_def by (metis (mono_tags, lifting) case_prod_conv option.case(2))

lemma user_reads_None:
  "user_reads S users \<Longrightarrow> users s n = None \<Longrightarrow> \<not> is_ok (select_user S n s) \<and> count_user S n s = Ok 0"
  unfolding user_reads_def by (metis (mono_tags, lifting) option.case(1))

lemma userExist_iff: "user_reads S users \<Longrightarrow> userExist S n s = Ok (users s n \<noteq> None)"
  using user_reads_Some [of S users s n] user_reads_None [of S users s n]
  by (cases "users s n") (auto simp: userExist_def)

lemma known_user:
  assumes "user_reads S users" and "users s n = Some (k, r)"
  shows "CheckKey S n key s = Ok (k = sha key)" and "IsAdmin S n s = Ok (r = UserAdmin)"
    and "GetUser S n s = Ok \<lparr>UserName = n, Key = k, Role = r\<rparr>"
  using user_reads_Some [OF assms] by (simp_all add: CheckKey_def IsAdmin_def GetUser_def)

lemma unknown_user:
  assumes "user_reads S users" and "users s n = None"
  shows "\<not> is_ok (CheckKey S n key s)" and "\<not> is_ok (IsAdmin S n s)"
  using user_reads_None [OF assms]
  by (cases "select_user S n s"; simp add: CheckKey_def IsAdmin_def GetUser_def)+

lemma saved_user:
  assumes "user_writes S users" and "SaveUser S u s = (Ok (), s')"
  shows "users s' = (users s)(UserName u \<mapsto> (sha (Key u), Role u))"
  using assms unfolding user_writes_def SaveUser_def by blast

lemma CreateUser_Ok:
  assumes "user_reads S users" and "user_writes S users" and "CreateUser S n role s = (Ok key, s')"
  shows "users s n = None" and "users s' = (users s)(n \<mapsto> (sha key, role))"
proof -
  show new: "users s n = None"
    using assms(3) by (cases "users s n") (auto simp: CreateUser_def userExist_iff [OF assms(1)])
  obtain k s1 where u: "UUID S s = (k, s1)" by (cases "UUID S s")
  with assms(3) new have "k = key" and "SaveUser S \<lparr>UserName = n, Key = key, Role = role\<rparr> s1 = (Ok (), s')"
    by (auto simp: CreateUser_def userExist_iff [OF assms(1)] map_result_Ok_iff split: prod.splits)
  moreover have "users s1 = users s" using assms(2) u unfolding user_writes_def by (metis snd_conv)
  ultimately show "users s' = (users s)(n \<mapsto> (sha key, role))"
    using saved_user [OF assms(2)] by fastforce
qed

lemma RefreshToken_Ok:
  assumes "user_reads S users" and "user_writes S users" and "RefreshToken S n s = (Ok key, s')"
  shows "\<exists>k r. users s n = Some (k, r) \<and> users s' = (users s)(n \<mapsto> (sha key, r))"
proof -
  obtain k r where n: "users s n = Some (k, r)"
    using assms(3) by (cases "users s n") (auto simp: RefreshToken_def userExist_iff [OF assms(1)])
  obtain k' s1 where u: "UUID S s = (k', s1)" by (cases "UUID S s")
  with assms(3) n have "k' = key" and "SaveUser S \<lparr>UserName = n, Key = key, Role = r\<rparr> s1 = (Ok (), s')"
    by (auto simp: RefreshToken_def userExist_iff [OF assms(1)] known_user(3) [OF assms(1) n]
        map_result_Ok_iff split: prod.splits)
  moreover have "users s1 = users s" using assms(2) u unfolding user_writes_def by (metis snd_conv)
  ultimately show ?thesis using n saved_user [OF assms(2)] by fastforce
qed

text \<open>C19: A key is valid for the user it was issued to, and only keys with the same
  SHA-1 digest are. A successful CreateUser means the name was free; the new user has the
  given role, the returned key passes CheckKey, and no other user changes.\<close>
theorem created_user_authenticates:
  assumes "user_reads S users" and "user_writes S users" and "CreateUser S n role s = (Ok key, s')"
  shows "users s n = None \<and> (\<forall>k. CheckKey S n k s' = Ok (sha k = sha key)) \<and>
    IsAdmin S n s' = Ok (role = UserAdmin) \<and> (\<forall>m. m \<noteq> n \<longrightarrow> users s' m = users s m)"
proof -
  note new = CreateUser_Ok [OF assms]
  then have "users s' n = Some (sha key, role)" by simp
  from known_user [OF assms(1) this] new show ?thesis by auto
qed

text \<open>RefreshToken replaces the key and nothing else: the user keeps the role, the new
  key is accepted, an older key only if its digest is that of the new one.\<close>
theorem refreshed_token_replaces_key:
  assumes "user_reads S users" and "user_writes S users" and "RefreshToken S n s = (Ok key, s')"
  shows "(\<forall>k. CheckKey S n k s' = Ok (sha k = sha key)) \<and> IsAdmin S n s' = IsAdmin S n s \<and>
    (\<forall>m. m \<noteq> n \<longrightarrow> users s' m = users s m)"
proof -
  obtain k r where n: "users s n = Some (k, r)" and s': "users s' = (users s)(n \<mapsto> (sha key, r))"
    using RefreshToken_Ok [OF assms] by blast
  then have "users s' n = Some (sha key, r)" by simp
  from known_user [OF assms(1) this] known_user [OF assms(1) n] s' show ?thesis by auto
qed

text \<open>Initialisation. On an empty table the storage creates the administrator and
  returns the only key that is accepted for it; otherwise it changes no user and returns
  no key.\<close>
theorem users_Init_admin:
  assumes "user_reads S users" and "user_writes S users" and "finite (dom (users s))"
    and "users_Init S s = (Ok key, s')"
  shows "if users s = Map.empty
    then (\<forall>k. CheckKey S ''admin'' k s' = Ok (sha k = sha key)) \<and> IsAdmin S ''admin'' s' = Ok True
    else key = [] \<and> users s' = users s"
proof -
  from assms(4) obtain q s1 where c: "create_users S s = (q, s1)" and "q = Ok ()"
    unfolding users_Init_def by (cases "create_users S s"; cases "fst (create_users S s)") auto
  have u: "users s1 = users s" using assms(2) c unfolding user_writes_def by blast
  have e: "isEmpty S s1 = Ok (users s = Map.empty)"
    using assms(1,3) u by (simp add: isEmpty_def user_reads_def)
  show ?thesis
  proof (cases "users s = Map.empty")
    case True
    with assms(4) c \<open>q = Ok ()\<close> e have "CreateUser S ''admin'' UserAdmin s1 = (Ok key, s')"
      by (simp add: users_Init_def createAdmin_def)
    from CreateUser_Ok(2) [OF assms(1,2) this] have "users s' ''admin'' = Some (sha key, UserAdmin)" by simp
    then have "(\<forall>k. CheckKey S ''admin'' k s' = Ok (sha k = sha key)) \<and> IsAdmin S ''admin'' s' = Ok True"
      using known_user [OF assms(1)] by simp (metis (full_types))
    with True show ?thesis by simp
  next
    case False
    with assms(4) c \<open>q = Ok ()\<close> e have "key = []" "s' = s1" by (simp_all add: users_Init_def)
    with u False show ?thesis by (simp only: if_False)
  qed
qed

section \<open>The contract of a user storage\<close>

locale user_storage =
  fixes U :: "'s UserStorage"
  assumes create_check: "us_CreateUser U n r s = (Ok k, s') \<Longrightarrow> us_CheckKey U n k s' = Ok True"
    and create_admin: "us_CreateUser U n UserAdmin s = (Ok k, s') \<Longrightarrow> us_IsAdmin U n s' = Ok True"
    and refresh_check: "us_RefreshToken U n s = (Ok k, s') \<Longrightarrow> us_CheckKey U n k s' = Ok True"
    and refresh_role: "us_RefreshToken U n s = (Ok k, s') \<Longrightarrow> us_IsAdmin U n s' = us_IsAdmin U n s"
begin

lemma refreshed_admin:
  "us_CreateUser U n UserAdmin s = (Ok k, s1) \<Longrightarrow> us_RefreshToken U n s1 = (Ok k', s2) \<Longrightarrow>
     us_CheckKey U n k' s2 = Ok True \<and> us_IsAdmin U n s2 = Ok True"
  using refresh_check refresh_role create_admin by metis

end

interpretation noop: user_storage NoopUserStorage
  by unfold_locales (simp_all add: NoopUserStorage_def)

text \<open>The Cassandra storage keeps it on every table with the laws above.\<close>

locale cassandra_users =
  fixes S :: "'s user_session" and users :: "'s \<Rightarrow> string \<Rightarrow> (string \<times> int) option"
  assumes reads: "user_reads S users" and writes: "user_writes S users"
begin

lemmas created = CreateUser_Ok [OF reads writes]
lemmas refreshed = RefreshToken_Ok [OF reads writes]
lemmas known = known_user [OF reads]
lemmas unknown = unknown_user [OF reads]

lemma created_lookup: "CreateUser S n r s = (Ok k, s') \<Longrightarrow> users s' n = Some (sha k, r)"
  by (simp add: created(2))

lemma refreshed_lookup:
  "RefreshToken S n s = (Ok k, s') \<Longrightarrow> \<exists>k0 r. users s n = Some (k0, r) \<and> users s' n = Some (sha k, r)"
  using refreshed by fastforce

end

sublocale cassandra_users \<subseteq> user_storage "CassandraUserStorage S"
proof
  show "us_CheckKey (CassandraUserStorage S) n k s' = Ok True"
    if "us_CreateUser (CassandraUserStorage S) n r s = (Ok k, s')" for n r s k s'
    using that created_lookup known by (simp add: CassandraUserStorage_def)
  show "us_IsAdmin (CassandraUserStorage S) n s' = Ok True"
    if "us_CreateUser (CassandraUserStorage S) n UserAdmin s = (Ok k, s')" for n s k s'
    using that created_lookup known by (simp add: CassandraUserStorage_def)
  show "us_CheckKey (CassandraUserStorage S) n k s' = Ok True"
    "us_IsAdmin (CassandraUserStorage S) n s' = us_IsAdmin (CassandraUserStorage S) n s"
    if "us_RefreshToken (CassandraUserStorage S) n s = (Ok k, s')" for n s k s'
    using that refreshed_lookup [of n s k s'] known by (auto simp: CassandraUserStorage_def)
qed

context cassandra_users
begin

lemma is_user_storage: "user_storage (CassandraUserStorage S)" ..

end

lemma cassandra_user_storage:
  assumes "user_reads S users" and "user_writes S users"
  shows "user_storage (CassandraUserStorage S)"
  using assms by (intro cassandra_users.is_user_storage cassandra_users.intro)

section \<open>The shape of a digest\<close>

lemma length_be_bytes [simp]: "length (be_bytes k n) = k"
  by (simp add: be_bytes_def)

lemma be_bytes_range: "b \<in> set (be_bytes k n) \<Longrightarrow> 0 \<le> b \<and> b < 256"
  by (auto simp: be_bytes_def)

lemma hex_digit_ok: "0 \<le> n \<Longrightarrow> n < 16 \<Longrightarrow> hex_digit n \<in> set ''0123456789abcdef''"
  unfolding hex_digit_def by (rule nth_mem) simp

lemma hex_bytes_shape:
  assumes "\<And>b. b \<in> set bs \<Longrightarrow> 0 \<le> b \<and> b < 256"
  shows "length (hex_bytes bs) = 2 * length bs \<and> set (hex_bytes bs) \<subseteq> set ''0123456789abcdef''"
proof -
  have "hex_digit (b div 16) \<in> set ''0123456789abcdef'' \<and> hex_digit (b mod 16) \<in> set ''0123456789abcdef''"
    if "b \<in> set bs" for b
    using assms [OF that] by (auto intro!: hex_digit_ok simp del: list.set)
  moreover have "length (hex_bytes bs) = 2 * length bs"
    by (induction bs) (auto simp: hex_bytes_def)
  moreover have "set (hex_bytes bs) = (\<Union>b \<in> set bs. {hex_digit (b div 16), hex_digit (b mod 16)})"
    by (auto simp: hex_bytes_def)
  ultimately show ?thesis by (auto simp del: list.set)
qed

lemma sha_shape: "length (sha key) = 40 \<and> set (sha key) \<subseteq> set ''0123456789abcdef''"
proof -
  have "length (sha1_sum bs) = 20" for bs
    by (simp add: sha1_sum_def split: prod.split)
  moreover have "0 \<le> b \<and> b < 256" if "b \<in> set (sha1_sum bs)" for b bs
    using that by (auto simp: sha1_sum_def split: prod.splits dest!: be_bytes_range)
  ultimately show ?thesis
    using hex_bytes_shape [of "sha1_sum (map of_char key)"] by (simp add: sha_def del: list.set)
qed

section \<open>What the table holds\<close>

text \<open>The successful operations on a user storage, with the keys they were given or issued.\<close>

inductive user_history :: "'s user_session \<Rightarrow> 's \<Rightarrow> (string \<times> string) list \<Rightarrow> 's \<Rightarrow> bool" for S s0 where
  opened: "user_history S s0 [] s0"
| initialised: "user_history S s0 ks s \<Longrightarrow> users_Init S s = (Ok key, s') \<Longrightarrow>
     user_history S s0 ((''admin'', key) # ks) s'"
| saved: "user_history S s0 ks s \<Longrightarrow> SaveUser S u s = (Ok (), s') \<Longrightarrow>
     user_history S s0 ((UserName u, Key u) # ks) s'"
| created: "user_history S s0 ks s \<Longrightarrow> CreateUser S n role s = (Ok key, s') \<Longrightarrow>
     user_history S s0 ((n, key) # ks) s'"
| refreshed: "user_history S s0 ks s \<Longrightarrow> RefreshToken S n s = (Ok key, s') \<Longrightarrow>
     user_history S s0 ((n, key) # ks) s'"

definition digests_of :: "(string \<times> string) list \<Rightarrow> (string \<Rightarrow> (string \<times> int) option) \<Rightarrow> bool" where
  "digests_of ks users \<longleftrightarrow> (\<forall>n k r. users n = Some (k, r) \<longrightarrow> (\<exists>key. (n, key) \<in> set ks \<and> k = sha key))"

lemma digests_of_insert:
  "digests_of ks users \<Longrightarrow> digests_of ((n, key) # ks) (users(n \<mapsto> (sha key, r)))"
  by (auto simp: digests_of_def)

lemma digests_of_more: "digests_of ks users \<Longrightarrow> digests_of (nk # ks) users"
  by (auto simp: digests_of_def)

lemma users_Init_Ok:
  assumes "user_reads S users" and "user_writes S users" and "users_Init S s = (Ok key, s')"
  shows "users s' = users s \<or> (\<exists>r. users s' = (users s)(''admin'' \<mapsto> (sha key, r)))"
proof -
  from assms(3) obtain s1 where c: "create_users S s = (Ok (), s1)"
    unfolding users_Init_def by (cases "create_users S s"; cases "fst (create_users S s)") auto
  then have u: "users s1 = users s" using assms(2) unfolding user_writes_def by blast
  show ?thesis
  proof (cases "isEmpty S s1 = Ok True")
    case True
    with assms(3) c have "CreateUser S ''admin'' UserAdmin s1 = (Ok key, s')"
      by (simp add: users_Init_def createAdmin_def)
    from CreateUser_Ok(2) [OF assms(1,2) this] u show ?thesis by auto
  next
    case False
    with assms(3) c u show ?thesis
      by (cases "isEmpty S s1") (auto simp: users_Init_def split: bool.splits if_splits)
  qed
qed

lemma user_history_digests:
  assumes "user_history S s0 ks s" and "user_reads S users" and "user_writes S users"
    and "users s0 = Map.empty"
  shows "digests_of ks (users s)"
  using assms(1)
proof (induction rule: user_history.induct)
  case opened
  show ?case by (simp add: digests_of_def assms(4))
next
  case (initialised ks s key s')
  then show ?case
    using users_Init_Ok [OF assms(2,3) initialised.hyps(2)] digests_of_insert digests_of_more by metis
next
  case (saved ks s u s')
  then show ?case using saved_user [OF assms(3)] digests_of_insert by metis
next
  case (created ks s n role key s')
  then show ?case using CreateUser_Ok(2) [OF assms(2,3)] digests_of_insert by metis
next
  case (refreshed ks s n key s')
  then show ?case
    using RefreshToken_Ok [OF assms(2,3) refreshed.hyps(2)] digests_of_insert by metis
qed

text \<open>C39: The key column of the users table has one type of content, over every history of
  successful operations on a table that was empty at first: what is stored for a user is the
  digest of a key that was issued to or saved for that user, 40 lower-case hexadecimal
  digits.\<close>
theorem stored_keys_are_digests:
  assumes "user_reads S users" and "user_writes S users" and "users s0 = Map.empty"
    and "user_history S s0 ks s" and "users s n = Some (k, role)"
  shows "\<exists>key. (n, key) \<in> set ks \<and> k = sha key \<and> length k = 40 \<and>
    set k \<subseteq> set ''0123456789abcdef''"
  using user_history_digests [OF assms(4,1-3)] assms(5) sha_shape unfolding digests_of_def by metis

section \<open>Witnesses\<close>

definition list_users :: "((string \<times> string \<times> int) list) user_session" where
  "list_users =
     \<lparr>create_users = (\<lambda>s. (Ok (), s)),
      count_users = (\<lambda>s. Ok (int (card (dom (map_of s))))),
      count_user = (\<lambda>n s. Ok (case map_of s n of None \<Rightarrow> 0 | Some _ \<Rightarrow> 1)),
      select_user = (\<lambda>n s. case map_of s n of None \<Rightarrow> Err ''not found'' | Some (k, r) \<Rightarrow> Ok (n, k, r)),
      insert_user = (\<lambda>n k r s. (Ok (), AList.update n (k, r) s)),
      UUID = (\<lambda>s. (show_nat (length s), s))\<rparr>"

lemma list_users_laws: "user_reads list_users map_of" "user_writes list_users map_of"
  by (auto simp: user_reads_def user_writes_def list_users_def split: option.split)

interpretation listed: cassandra_users list_users map_of
  by unfold_locales (rule list_users_laws)+

lemma list_users_create:
  "map_of s n = None \<Longrightarrow> CreateUser list_users n r s =
     (Ok (show_nat (length s)), AList.update n (sha (show_nat (length s)), r) s)"
  by (simp add: CreateUser_def SaveUser_def userExist_iff [OF list_users_laws(1)])
     (simp add: list_users_def)

lemma list_users_refresh:
  "map_of s n = Some (k, r) \<Longrightarrow> RefreshToken list_users n s =
     (Ok (show_nat (length s)), AList.update n (sha (show_nat (length s)), r) s)"
  by (simp add: RefreshToken_def SaveUser_def userExist_iff [OF list_users_laws(1)]
      known_user(3) [OF list_users_laws(1)]) (simp add: list_users_def)

theorem created_user_authenticates_witness:
  "CheckKey list_users ''ann'' (show_nat 0) (AList.update ''ann'' (sha (show_nat 0), UserRegular) []) = Ok True"
  using created_user_authenticates [OF list_users_laws, of "''ann''" UserRegular "[]"]
    list_users_create [of "[]" "''ann''" UserRegular] by simp

theorem refreshed_token_replaces_key_witness:
  "CheckKey list_users ''ann'' (show_nat 1) [(''ann'', sha (show_nat 1), UserAdmin)] = Ok True"
  using refreshed_token_replaces_key [OF list_users_laws, of "''ann''" "[(''ann'', ''d'', UserAdmin)]"]
    list_users_refresh [of "[(''ann'', ''d'', UserAdmin)]" "''ann''" "''d''" UserAdmin] by simp

theorem users_Init_admin_witness:
  "IsAdmin list_users ''admin'' [(''admin'', sha (show_nat 0), UserAdmin)] = Ok True"
proof -
  have "create_users list_users [] = (Ok (), [])" "isEmpty list_users [] = Ok True"
    by (simp_all add: isEmpty_def list_users_def)
  then have "users_Init list_users [] = (Ok (show_nat 0), [(''admin'', sha (show_nat 0), UserAdmin)])"
    using list_users_create [of "[]" "''admin''" UserAdmin]
    by (simp add: users_Init_def createAdmin_def)
  from users_Init_admin [OF list_users_laws _ this] show ?thesis by simp
qed

theorem stored_keys_are_digests_witness:
  "length (sha (show_nat 0)) = 40 \<and>
     map_of (AList.update ''ann'' (sha (show_nat 0), UserRegular) []) ''ann'' = Some (sha (show_nat 0), UserRegular)"
proof -
  let ?s = "AList.update ''ann'' (sha (show_nat 0), UserRegular) []"
  have "user_history list_users [] [(''ann'', show_nat 0)] ?s"
    using user_history.created [OF user_history.opened] list_users_create [of "[]" "''ann''" UserRegular] by simp
  from stored_keys_are_digests [OF list_users_laws _ this, of "''ann''"] show ?thesis by simp
qed

end
