(* ===== verification/Scheduler.thy ===== *)
theory Scheduler
  imports RunOnce
begin

text \<open>
  The Mesos scheduler (src/framework/scheduler.go) and the persistent state of the framework
  (src/framework/framework_storage.go): registration and failover, resource offers, status
  updates, and the applications handed to the Mesos task runners.  The driver, the backing
  store (a file or ZooKeeper), the JSON codec and cron are parameters; methods that only
  write to the log are left out.
\<close>

section \<open>Framework storage\<close>

text \<open>The context is a pointer and may be nil.\<close>

record FrameworkStorage =
  FrameworkID :: string
  BootstrapContext :: "Variables option"

text \<open>The store (\<open>utils.Storage\<close>) and the codec of the object with the two members; the
  context is written and read by its own methods.  A member of the object that is read may
  be missing, and the context may be null.\<close>

record ('w, 'j) backing =
  save_bytes :: "string \<Rightarrow> 'w \<Rightarrow> unit result \<times> 'w"
  load_bytes :: "'w \<Rightarrow> string option result"
  encode_context :: "var_doc \<Rightarrow> 'j result"
  decode_context :: "'j \<Rightarrow> var_doc result"
  encode_object :: "string \<times> 'j option \<Rightarrow> string result"
  decode_object :: "string \<Rightarrow> (string option \<times> 'j option option) result"

text \<open>\<open>utils.NewFileStorage\<close> and \<open>utils.NewZKStorage\<close> are the arguments.\<close>

definition NewStorage :: "(string \<Rightarrow> 'b) \<Rightarrow> (string \<Rightarrow> 'b result) \<Rightarrow> string \<Rightarrow> 'b result" where
  "NewStorage NewFileStorage NewZKStorage storage =
     (let storageTokens = SplitN2 storage (CHR '':'') in
      if length storageTokens \<noteq> 2 then Err ''Unsupported storage''
      else if storageTokens ! 0 = ''file'' then Ok (NewFileStorage (storageTokens ! 1))
      else if storageTokens ! 0 = ''zk'' then NewZKStorage (storageTokens ! 1)
      else Err ''Unsupported storage'')"

definition NewFrameworkStorage ::
    "(string \<Rightarrow> 'b) \<Rightarrow> (string \<Rightarrow> 'b result) \<Rightarrow> string \<Rightarrow> ('b \<times> FrameworkStorage) result" where
  "NewFrameworkStorage NewFileStorage NewZKStorage storage =
     map_result (\<lambda>store. (store, \<lparr>FrameworkID = [], BootstrapContext = Some NewVariables\<rparr>))
       (NewStorage NewFileStorage NewZKStorage storage)"

text \<open>The error of the store is dropped; an error of the encoder is a panic.  A nil context
  is written as null.\<close>

definition marshal_context :: "('w, 'j) backing \<Rightarrow> Variables option \<Rightarrow> 'j option result" where
  "marshal_context B context =
     (case context of
        None \<Rightarrow> Ok None
      | Some v \<Rightarrow> map_result Some (MarshalJSON (encode_context B) v))"

definition Save :: "('w, 'j) backing \<Rightarrow> FrameworkStorage \<Rightarrow> 'w \<Rightarrow> unit result \<times> 'w" where
  "Save B s w =
     (case and_then (marshal_context B (BootstrapContext s))
             (\<lambda>ctx. encode_object B (FrameworkID s, ctx)) of
        Err e \<Rightarrow> (Panic e, w)
      | Panic e \<Rightarrow> (Panic e, w)
      | Ok js \<Rightarrow> (case save_bytes B js w of (r, w') \<Rightarrow> (Ok (), w')))"

text \<open>A missing member leaves the field alone and null clears it.  A context that is nil is
  allocated with nil maps: reading any variable into it is a panic.\<close>

definition unmarshal_context ::
    "('w, 'j) backing \<Rightarrow> 'j option option \<Rightarrow> Variables option \<Rightarrow> Variables option result" where
  "unmarshal_context B member context =
     (case member of
        None \<Rightarrow> Ok context
      | Some None \<Rightarrow> Ok None
      | Some (Some ctx) \<Rightarrow>
          (case context of
             Some v \<Rightarrow> map_result Some (UnmarshalJSON (decode_context B) ctx v)
           | None \<Rightarrow>
               and_then (UnmarshalJSON (decode_context B) ctx NewVariables) (\<lambda>v.
                 if All v = [] then Ok (Some v) else Panic ''assignment to entry in nil map'')))"

definition Load :: "('w, 'j) backing \<Rightarrow> FrameworkStorage \<Rightarrow> 'w \<Rightarrow> FrameworkStorage result" where
  "Load B s w =
     (case load_bytes B w of
        Ok (Some js) \<Rightarrow>
          (case and_then (decode_object B js) (\<lambda>(i, ctx).
                  map_result (\<lambda>v. \<lparr>FrameworkID = (case i of None \<Rightarrow> FrameworkID s | Some x \<Rightarrow> x),
                                   BootstrapContext = v\<rparr>)
                    (unmarshal_context B ctx (BootstrapContext s))) of
             Ok s' \<Rightarrow> Ok s'
           | Err e \<Rightarrow> Panic e
           | Panic e \<Rightarrow> Panic e)
      | _ \<Rightarrow> Ok s)"

section \<open>The scheduler\<close>

record SchedulerConfig =
  cfg_Master :: string
  cfg_User :: string
  FrameworkName :: string
  FrameworkRole :: string
  FailoverTimeout :: int

text \<open>Durations are nanoseconds.\<close>

definition NewSchedulerConfig :: SchedulerConfig where
  "NewSchedulerConfig = \<lparr>cfg_Master = [], cfg_User = [], FrameworkName = ''stack-deploy'',
     FrameworkRole = ''*'', FailoverTimeout = 168 * 3600 * 1000000000\<rparr>"

record ScheduledTask =
  ScheduledID :: int
  ScheduledName :: string
  ScheduledStartTime :: string
  ScheduledTimeSchedule :: string

record FrameworkInfo =
  fi_User :: string
  fi_Name :: string
  fi_Role :: string
  fi_FailoverTimeout :: float64
  fi_Checkpoint :: bool
  fi_Id :: "string option"

text \<open>\<open>connected\<close> tells whether the driver is set; \<open>MesosRunners\<close> is the registry of the
  Mesos task runners, of which the program registers one.\<close>

record StackDeployScheduler =
  config :: SchedulerConfig
  Storage :: FrameworkStorage
  connected :: bool
  cluster :: MesosClusterState
  scheduledTasks :: "ScheduledTask list"
  MesosRunners :: "(string \<times> RunOnceRunner) list"

definition NewScheduler ::
    "SchedulerConfig \<Rightarrow> FrameworkStorage \<Rightarrow> (string \<times> RunOnceRunner) list \<Rightarrow> StackDeployScheduler" where
  "NewScheduler cfg storage runners =
     \<lparr>config = cfg, Storage = storage, connected = False,
      cluster = NewMesosClusterState (cfg_Master cfg), scheduledTasks = [], MesosRunners = runners\<rparr>"

text \<open>Division of a duration truncates towards zero.\<close>

definition seconds :: "int \<Rightarrow> int" where
  "seconds d = (if d < 0 then - ((- d) div 1000000000) else d div 1000000000)"

text \<open>The description of the framework that \<open>Start\<close> registers with.\<close>

definition frameworkInfo :: "StackDeployScheduler \<Rightarrow> FrameworkInfo" where
  "frameworkInfo s =
     \<lparr>fi_User = cfg_User (config s), fi_Name = FrameworkName (config s), fi_Role = FrameworkRole (config s),
      fi_FailoverTimeout = Fin (of_int (seconds (FailoverTimeout (config s)))), fi_Checkpoint = True,
      fi_Id = (if FrameworkID (Storage s) \<noteq> [] then Some (FrameworkID (Storage s)) else None)\<rparr>"

definition scheduler_Start ::
    "(FrameworkInfo \<Rightarrow> string \<Rightarrow> 'w \<Rightarrow> unit result \<times> 'w) \<Rightarrow> StackDeployScheduler \<Rightarrow> 'w \<Rightarrow> unit result \<times> 'w" where
  "scheduler_Start NewDriver s w =
     (case NewDriver (frameworkInfo s) (cfg_Master (config s)) w of
        (Err e, w') \<Rightarrow> (Err (''Unable to create SchedulerDriver: '' @ e), w')
      | r \<Rightarrow> r)"

definition Registered ::
    "('w, 'j) backing \<Rightarrow> string \<Rightarrow> StackDeployScheduler \<Rightarrow> 'w
     \<Rightarrow> unit result \<times> StackDeployScheduler \<times> 'w" where
  "Registered B i s w =
     (let s' = s\<lparr>Storage := (Storage s)\<lparr>FrameworkID := i\<rparr>\<rparr> in
      case Save B (Storage s') w of
        (Ok _, w') \<Rightarrow> (Ok (), s'\<lparr>connected := True\<rparr>, w')
      | (r, w') \<Rightarrow> (r, s', w'))"

definition Reregistered :: "StackDeployScheduler \<Rightarrow> StackDeployScheduler" where
  "Reregistered s = s\<lparr>connected := True\<rparr>"

definition Disconnected :: "StackDeployScheduler \<Rightarrow> StackDeployScheduler" where
  "Disconnected s = s\<lparr>connected := False\<rparr>"

section \<open>Offers and status updates\<close>

text \<open>A runner's error is logged and the next runner is asked.  \<open>ord name\<close> is the order in
  which the runner of that name visits its contexts for this offer.\<close>

fun accept_loop ::
    "regexp \<Rightarrow> 'w mesos_driver \<Rightarrow> (string \<Rightarrow> range_order) \<Rightarrow> Offer
     \<Rightarrow> (string \<times> RunOnceRunner) list \<Rightarrow> string list \<Rightarrow> 'w
     \<Rightarrow> string list result \<times> (string \<times> RunOnceRunner) list \<times> 'w" where
  "accept_loop rx D ord offer [] declineReasons w = (Ok declineReasons, [], w)"
| "accept_loop rx D ord offer ((name, runner) # rest) declineReasons w =
     (case ResourceOffer rx D (ord name) offer runner w of
        (Panic e, runner', w') \<Rightarrow> (Panic e, (name, runner') # rest, w')
      | (Err e, runner', w') \<Rightarrow>
          (case accept_loop rx D ord offer rest declineReasons w' of
             (r, rest', w'') \<Rightarrow> (r, (name, runner') # rest', w''))
      | (Ok declineReason, runner', w') \<Rightarrow>
          (case accept_loop rx D ord offer rest
                  (if declineReason \<noteq> [] then declineReasons @ [declineReason] else declineReasons) w' of
             (r, rest', w'') \<Rightarrow> (r, (name, runner') # rest', w'')))"

definition acceptOffer ::
    "regexp \<Rightarrow> 'w mesos_driver \<Rightarrow> (string \<Rightarrow> range_order) \<Rightarrow> Offer
     \<Rightarrow> (string \<times> RunOnceRunner) list \<Rightarrow> 'w
     \<Rightarrow> string result \<times> (string \<times> RunOnceRunner) list \<times> 'w" where
  "acceptOffer rx D ord offer runners w =
     (case accept_loop rx D ord offer runners [] w of
        (r, runners', w') \<Rightarrow> (map_result (\<lambda>reasons. Join reasons '', '') r, runners', w'))"

text \<open>\<open>ords n\<close> are the orders of the offer after which \<open>n\<close> are left.\<close>

fun ResourceOffers ::
    "regexp \<Rightarrow> 'w mesos_driver \<Rightarrow> (nat \<Rightarrow> string \<Rightarrow> range_order) \<Rightarrow> Offer list
     \<Rightarrow> (string \<times> RunOnceRunner) list \<Rightarrow> 'w
     \<Rightarrow> unit result \<times> (string \<times> RunOnceRunner) list \<times> 'w" where
  "ResourceOffers rx D ords [] runners w = (Ok (), runners, w)"
| "ResourceOffers rx D ords (offer # offers) runners w =
     (case acceptOffer rx D (ords (length offers)) offer runners w of
        (Ok declineReason, runners', w') \<Rightarrow>
          ResourceOffers rx D ords offers runners'
            (if declineReason \<noteq> [] then DeclineOffer D (offer_id offer) w' else w')
      | (Err e, runners', w') \<Rightarrow> (Err e, runners', w')
      | (Panic e, runners', w') \<Rightarrow> (Panic e, runners', w'))"

text \<open>What is sent on a status channel, and the registry.\<close>

fun status_loop ::
    "TaskStatus \<Rightarrow> (string \<times> RunOnceRunner) list
     \<Rightarrow> (string \<times> nat \<times> unit result) option result \<times> (string \<times> RunOnceRunner) list" where
  "status_loop status [] = (Ok None, [])"
| "status_loop status ((name, runner) # rest) =
     (case runner_StatusUpdate status runner of
        (Ok (True, out), runner') \<Rightarrow> (Ok (map_option (Pair name) out), (name, runner') # rest)
      | (Ok (False, out), runner') \<Rightarrow>
          (case status_loop status rest of (r, rest') \<Rightarrow> (r, (name, runner') # rest'))
      | (Err e, runner') \<Rightarrow> (Err e, (name, runner') # rest)
      | (Panic e, runner') \<Rightarrow> (Panic e, (name, runner') # rest))"

definition scheduler_StatusUpdate ::
    "'w mesos_driver \<Rightarrow> TaskStatus \<Rightarrow> StackDeployScheduler \<Rightarrow> 'w
     \<Rightarrow> (string \<times> nat \<times> unit result) option result \<times> StackDeployScheduler \<times> 'w" where
  "scheduler_StatusUpdate D status s w =
     (let w' = (if status_state status = TASK_FINISHED then ReviveOffers D w else w) in
      case status_loop status (MesosRunners s) of (r, runners') \<Rightarrow> (r, s\<lparr>MesosRunners := runners'\<rparr>, w'))"

section \<open>Applications\<close>

definition RunApplication ::
    "regexp \<Rightarrow> 'w CronScheduler \<Rightarrow> Application \<Rightarrow> StackDeployScheduler \<Rightarrow> 'w
     \<Rightarrow> status_chan result \<times> StackDeployScheduler \<times> 'w" where
  "RunApplication rx C a s w =
     (case map_of (MesosRunners s) (Type a) of
        None \<Rightarrow> (Ok (Delivered (Err ''Application already exists'')), s, w)
      | Some runner \<Rightarrow>
          if TimeSchedule a \<noteq> [] \<or> StartTime a \<noteq> []
          then (case ScheduleApplication C a w of
                  ((jobID, ch), w') \<Rightarrow>
                    (Ok ch,
                     s\<lparr>scheduledTasks := scheduledTasks s @
                         [\<lparr>ScheduledID = jobID, ScheduledName = ID a, ScheduledStartTime = StartTime a,
                           ScheduledTimeSchedule = TimeSchedule a\<rparr>]\<rparr>, w'))
          else (case StageApplication rx a (cluster s) runner of
                  (r, runner') \<Rightarrow>
                    (r, s\<lparr>MesosRunners := AList.update (Type a) runner' (MesosRunners s)\<rparr>, w)))"

definition GetScheduledTasks :: "StackDeployScheduler \<Rightarrow> ScheduledTask list" where
  "GetScheduledTasks s = scheduledTasks s"

fun remove_first :: "int \<Rightarrow> ScheduledTask list \<Rightarrow> ScheduledTask list option" where
  "remove_first i [] = None"
| "remove_first i (t # ts) =
     (if ScheduledID t = i then Some ts else map_option (Cons t) (remove_first i ts))"

text \<open>A nil runner, when none is registered as run-once, panics.\<close>

definition RemoveScheduled ::
    "'w CronScheduler \<Rightarrow> int \<Rightarrow> StackDeployScheduler \<Rightarrow> 'w
     \<Rightarrow> bool result \<times> StackDeployScheduler \<times> 'w" where
  "RemoveScheduled C i s w =
     (case map_of (MesosRunners s) ''run-once'' of
        None \<Rightarrow> (Panic nil_dereference, s, w)
      | Some runner \<Rightarrow>
          (let w' = DeleteSchedule C i w in
           case remove_first i (scheduledTasks s) of
             Some ts \<Rightarrow> (Ok True, s\<lparr>scheduledTasks := ts\<rparr>, w')
           | None \<Rightarrow> (Ok False, s, w')))"

section \<open>Failover\<close>

text \<open>The behaviour of the store and of the codec: what was saved is loaded, what was
  encoded is decoded.\<close>

definition store_law :: "('w, 'j) backing \<Rightarrow> bool" where
  "store_law B \<longleftrightarrow> (\<forall>js w w'. save_bytes B js w = (Ok (), w') \<longrightarrow> load_bytes B w' = Ok (Some js))"

definition codec_law :: "('w, 'j) backing \<Rightarrow> bool" where
  "codec_law B \<longleftrightarrow>
     (\<forall>d j. encode_context B d = Ok j \<longrightarrow> decode_context B j = Ok d) \<and>
     (\<forall>i ctx js. encode_object B (i, ctx) = Ok js \<longrightarrow> decode_object B js = Ok (Some i, Some ctx))"

definition store_accepts :: "('w, 'j) backing \<Rightarrow> bool" where
  "store_accepts B \<longleftrightarrow> (\<forall>js w. fst (save_bytes B js w) = Ok ())"

lemma unmarshal_marshal_context:
  assumes "codec_law B" and "pred_option vars_ok context" and "marshal_context B context = Ok ctx"
  shows "\<exists>v. unmarshal_context B (Some ctx) (Some NewVariables) = Ok v \<and> rel_option same_vars v context"
proof (cases "context")
  case None
  with assms(3) show ?thesis by (simp add: marshal_context_def unmarshal_context_def)
next
  case (Some c)
  with assms(3) obtain d where d: "MarshalJSON (encode_context B) c = Ok d" "ctx = Some d"
    by (auto simp: marshal_context_def map_result_Ok_iff)
  then have "decode_context B d = Ok (variables_doc c)"
    using assms(1) unfolding codec_law_def MarshalJSON_def by blast
  with Variables_json_roundtrip [of c "encode_context B" d "decode_context B"] assms(2) d(1) Some
  obtain v where "UnmarshalJSON (decode_context B) d NewVariables = Ok v" "same_vars v c" by auto
  with Some d(2) show ?thesis by (simp add: unmarshal_context_def)
qed

lemma Load_Save:
  assumes "store_law B" and "codec_law B" and "store_accepts B" and "pred_option vars_ok (BootstrapContext s)"
    and "Save B s w = (Ok (), w')"
  shows "\<exists>v. Load B \<lparr>FrameworkID = x, BootstrapContext = Some NewVariables\<rparr> w' =
      Ok \<lparr>FrameworkID = FrameworkID s, BootstrapContext = v\<rparr> \<and> rel_option same_vars v (BootstrapContext s)"
proof -
  from assms(5) obtain ctx js where ctx: "marshal_context B (BootstrapContext s) = Ok ctx"
    and js: "encode_object B (FrameworkID s, ctx) = Ok js" and w': "w' = snd (save_bytes B js w)"
    by (auto simp: Save_def and_then_Ok_iff split: result.splits prod.splits)
  from unmarshal_marshal_context [OF assms(2,4) ctx] obtain v where
    v: "unmarshal_context B (Some ctx) (Some NewVariables) = Ok v" "rel_option same_vars v (BootstrapContext s)"
    by blast
  have "save_bytes B js w = (Ok (), w')" using assms(3) w' unfolding store_accepts_def by (metis prod.collapse)
  then have "load_bytes B w' = Ok (Some js)" using assms(1) unfolding store_law_def by blast
  moreover have "decode_object B js = Ok (Some (FrameworkID s), Some ctx)"
    using js assms(2) unfolding codec_law_def by blast
  ultimately show ?thesis using v by (simp add: Load_def)
qed

text \<open>C38: Failover. After the framework was registered, a new process that loads the
  stored state has the identifier Mesos assigned and the bootstrap context, a nil one
  included, and registers under that identifier again.\<close>
theorem framework_survives_restart:
  assumes "store_law B" and "codec_law B" and "store_accepts B"
    and "pred_option vars_ok (BootstrapContext (Storage s))"
    and "Registered B i s w = (Ok (), s', w')" and "i \<noteq> []"
  shows "\<exists>st. Load B \<lparr>FrameworkID = [], BootstrapContext = Some NewVariables\<rparr> w' = Ok st \<and> FrameworkID st = i \<and>
    rel_option same_vars (BootstrapContext st) (BootstrapContext (Storage s)) \<and>
    fi_Id (frameworkInfo (NewScheduler cfg st runners)) = Some i"
proof -
  let ?fs = "(Storage s)\<lparr>FrameworkID := i\<rparr>"
  have "Save B ?fs w = (Ok (), w')"
    using assms(5) by (auto simp: Registered_def Let_def split: prod.splits result.splits)
  from Load_Save [OF assms(1-3) _ this] assms(4) obtain v where
    v: "Load B \<lparr>FrameworkID = [], BootstrapContext = Some NewVariables\<rparr> w' =
          Ok \<lparr>FrameworkID = i, BootstrapContext = v\<rparr>"
      "rel_option same_vars v (BootstrapContext (Storage s))" by auto
  with assms(6) show ?thesis by (simp add: frameworkInfo_def NewScheduler_def)
qed

section \<open>Offers\<close>

lemma launches_one_result: "launches_one rx D offer es r w (Ok x) r' w' \<Longrightarrow> x = []"
  unfolding launches_one_def by (elim exE conjE) (metis map_result_Ok_iff)

text \<open>With the one Mesos runner of the program, an offer is declined exactly when no
  task was launched on it, whatever the order of the contexts: either the runner gives a reason and neither it nor the driver
  is touched, or one context the offer matches hands one task to the driver and the offer
  is not declined.\<close>
theorem offer_used_or_declined:
  assumes "permutes_range (ord name)"
    and "acceptOffer rx D ord offer [(name, r)] w = (Ok declineReason, runners, w')"
  shows "\<exists>r'. runners = [(name, r')] \<and>
    (if declineReason \<noteq> [] then r' = r \<and> w' = w
     else (\<exists>res. launches_one rx D offer (applications r) r w res r' w'))"
proof -
  obtain res r' w1 where ro: "ResourceOffer rx D (ord name) offer r w = (res, r', w1)" using prod_cases3 by blast
  note cases = ResourceOffer_cases [OF assms(1) ro]
  show ?thesis
  proof (cases res)
    case (Ok x)
    have "runners = [(name, r')]" "w' = w1" "declineReason = x"
      using assms Ok by (cases "x = []"; simp add: acceptOffer_def ro)+
    moreover have "x = []" if "launches_one rx D offer (applications r) r w (Ok x) r' w1"
      using that launches_one_result by metis
    ultimately show ?thesis using cases Ok by (cases "x = []") auto
  next
    case (Err e)
    then have "runners = [(name, r')]" "w' = w1" "declineReason = []"
      using assms by (simp_all add: acceptOffer_def ro)
    then show ?thesis using cases Err by auto
  next
    case (Panic e)
    then show ?thesis using assms by (simp add: acceptOffer_def ro)
  qed
qed

section \<open>Scheduled applications\<close>

lemma remove_first_append:
  "i \<notin> ScheduledID ` set ts \<Longrightarrow> ScheduledID t = i \<Longrightarrow> remove_first i (ts @ [t]) = Some ts"
  by (induction ts) auto

lemma remove_first_None: "remove_first i ts = None \<longleftrightarrow> i \<notin> ScheduledID ` set ts"
  by (induction ts) auto

text \<open>A scheduled application is listed under the identifier of its cron job, and
  removing that identifier deletes the job and takes it off the list again; removing an
  identifier that is not listed answers false and leaves the list alone.\<close>
theorem scheduled_roundtrip:
  assumes "map_of (MesosRunners s) (Type a) \<noteq> None" and "map_of (MesosRunners s) ''run-once'' \<noteq> None"
    and "StartTime a \<noteq> [] \<or> TimeSchedule a \<noteq> []"
    and "ScheduleApplication C a w = ((jobID, ch), w1)" and "jobID \<notin> ScheduledID ` set (scheduledTasks s)"
  shows "\<exists>s1. RunApplication rx C a s w = (Ok ch, s1, w1) \<and>
    RemoveScheduled C jobID s1 w1 = (Ok True, s, DeleteJob C jobID w1) \<and>
    RemoveScheduled C jobID s w1 = (Ok False, s, DeleteJob C jobID w1)"
proof -
  let ?t = "\<lparr>ScheduledID = jobID, ScheduledName = ID a, ScheduledStartTime = StartTime a,
     ScheduledTimeSchedule = TimeSchedule a\<rparr>"
  let ?s1 = "s\<lparr>scheduledTasks := scheduledTasks s @ [?t]\<rparr>"
  have "RunApplication rx C a s w = (Ok ch, ?s1, w1)"
    using assms(1,3,4) by (auto simp: RunApplication_def)
  moreover have "remove_first jobID (scheduledTasks ?s1) = Some (scheduledTasks s)"
    using assms(5) by (simp add: remove_first_append)
  then have "RemoveScheduled C jobID ?s1 w1 = (Ok True, s, DeleteJob C jobID w1)"
    using assms(2) by (auto simp: RemoveScheduled_def DeleteSchedule_def Let_def)
  moreover have "RemoveScheduled C jobID s w1 = (Ok False, s, DeleteJob C jobID w1)"
    using assms(2,5) remove_first_None [of jobID "scheduledTasks s"]
    by (auto simp: RemoveScheduled_def DeleteSchedule_def Let_def)
  ultimately show ?thesis by blast
qed

section \<open>Witnesses\<close>

text \<open>A store that keeps the last bytes; the codec writes the identifier only, for a
  context without variables.\<close>

definition cell_store :: "(string option, var_doc) backing" where
  "cell_store =
     \<lparr>save_bytes = (\<lambda>js w. (Ok (), Some js)), load_bytes = (\<lambda>w. Ok w),
      encode_context = (\<lambda>d. Ok d), decode_context = (\<lambda>d. Ok d),
      encode_object = (\<lambda>(i, d). if d = Some (variables_doc NewVariables) then Ok i else Err ''unsupported''),
      decode_object = (\<lambda>js. Ok (Some js, Some (Some (variables_doc NewVariables))))\<rparr>"

lemma cell_store_laws: "store_law cell_store" "codec_law cell_store" "store_accepts cell_store"
  by (auto simp: store_law_def codec_law_def store_accepts_def cell_store_def split: if_splits)

definition new_scheduler :: StackDeployScheduler where
  "new_scheduler = NewScheduler NewSchedulerConfig \<lparr>FrameworkID = [], BootstrapContext = Some NewVariables\<rparr>
     [(''run-once'', NewRunOnceRunner)]"

theorem framework_survives_restart_witness:
  "\<exists>st. Load cell_store \<lparr>FrameworkID = [], BootstrapContext = Some NewVariables\<rparr> (Some ''f1'') = Ok st \<and>
     FrameworkID st = ''f1''"
proof -
  have "fst (Registered cell_store ''f1'' new_scheduler None) = Ok ()"
    "snd (snd (Registered cell_store ''f1'' new_scheduler None)) = Some ''f1''" by code_simp+
  then have "Registered cell_store ''f1'' new_scheduler None =
      (Ok (), fst (snd (Registered cell_store ''f1'' new_scheduler None)), Some ''f1'')"
    by (metis prod.collapse)
  from framework_survives_restart [OF cell_store_laws _ this, of NewSchedulerConfig "[]"]
  show ?thesis by (auto simp: new_scheduler_def NewScheduler_def)
qed

theorem offer_used_or_declined_witness:
  "\<exists>r'. fst (snd (acceptOffer literal_regexp (sample_driver 1) (\<lambda>_. id) (host_offer ''h1'') [(''run-once'', staged_runner)] 0)) =
     [(''run-once'', r')]"
proof -
  let ?x = "acceptOffer literal_regexp (sample_driver 1) (\<lambda>_. id) (host_offer ''h1'') [(''run-once'', staged_runner)] 0"
  have "fst ?x = Ok []" by code_simp
  then have "?x = (Ok [], fst (snd ?x), snd (snd ?x))" by (metis prod.collapse)
  from offer_used_or_declined [OF permutes_range_id this] show ?thesis by blast
qed

definition sample_cron :: "nat CronScheduler" where
  "sample_cron = \<lparr>AddFunc = (\<lambda>spec job w. ((int w, None), Suc w)), DeleteJob = (\<lambda>i w. w)\<rparr>"

theorem scheduled_roundtrip_witness:
  "\<exists>s1. RunApplication literal_regexp sample_cron
       (job_app\<lparr>Type := ''run-once'', TimeSchedule := ''@daily''\<rparr>) new_scheduler 7 = (Ok (Delivered (Ok ())), s1, 8) \<and>
     RemoveScheduled sample_cron 7 s1 8 = (Ok True, new_scheduler, 8)"
proof -
  let ?a = "job_app\<lparr>Type := ''run-once'', TimeSchedule := ''@daily''\<rparr>"
  have "ScheduleApplication sample_cron ?a 7 = ((7, Delivered (Ok ())), 8)"
    "map_of (MesosRunners new_scheduler) (Type ?a) \<noteq> None"
    "map_of (MesosRunners new_scheduler) ''run-once'' \<noteq> None"
    "StartTime ?a \<noteq> [] \<or> TimeSchedule ?a \<noteq> []" "(7 :: int) \<notin> ScheduledID ` set (scheduledTasks new_scheduler)"
    by code_simp+
  from scheduled_roundtrip [OF this(2,3,4,1,5), of literal_regexp] show ?thesis
    by (auto simp: sample_cron_def)
qed

end
