(* ===== verification/Server.thy ===== *)
theory Server
  imports MemStorage StackExec Users Scheduler "HOL-Library.Char_ord" "HOL-Library.List_Lexorder"
begin

text \<open>
  The HTTP server (src/framework/server.go, src/framework/requests.go): the routes with
  authentication and the check for administrators, every handler, and the run of a stack
  with its layers and its recorded status.  The storages are the interfaces of their
  components; the JSON and YAML codecs and the refresh of the Mesos state are parameters, as is
  the environment of a deployment.  A handler that never answers is \<open>None\<close>; a panic aborts the
  connection.
\<close>

section \<open>Responses\<close>

record writer =
  w_status :: "int option"
  w_body :: string

definition new_writer :: writer where
  "new_writer = \<lparr>w_status = None, w_body = []\<rparr>"

text \<open>The first status counts; a body without a status is a success.\<close>

definition WriteHeader :: "int \<Rightarrow> writer \<Rightarrow> writer" where
  "WriteHeader code w = (if w_status w = None then w\<lparr>w_status := Some code\<rparr> else w)"

definition Write :: "string \<Rightarrow> writer \<Rightarrow> writer" where
  "Write bytes w = (let w' = WriteHeader 200 w in w'\<lparr>w_body := w_body w' @ bytes\<rparr>)"

definition http_Error :: "string \<Rightarrow> int \<Rightarrow> writer \<Rightarrow> writer" where
  "http_Error msg code w = Write (msg @ [CHR 0x0A]) (WriteHeader code w)"

definition status_of :: "writer \<Rightarrow> int" where
  "status_of w = (case w_status w of None \<Rightarrow> 200 | Some code \<Rightarrow> code)"

section \<open>Requests\<close>

record http_request =
  req_path :: string
  req_user :: string
  req_key :: string
  req_body :: string

record GetStackRequest =
  get_Name :: string

record CreateStackRequest =
  Stackfile :: string

record RemoveStackRequest =
  remove_Name :: string
  remove_Force :: bool

record RunRequest =
  run_Name :: string
  run_Zone :: string
  MaxWait :: int
  run_Variables :: "(string, string) gomap"
  SkipApplications :: "string list"

record CreateLayerRequest =
  layer_Stackfile :: string
  layer_Layer :: string
  layer_Parent :: string

record CreateUserRequest =
  cu_Name :: string
  cu_Role :: string

record RefreshTokenRequest =
  rt_Name :: string

record RemoveScheduledRequest =
  rs_ID :: int

section \<open>Interfaces\<close>

text \<open>A storage of stacks hands out pointers \<open>'p\<close>; a merge goes through the pointer and
  returns it. \<open>None\<close> is a call that does not return. \<open>st_Touch\<close> is no operation of the
  storage: it is what it means for the stored stacks that the application structs behind a
  pointer are written to.\<close>

record ('p, 'w) StackStore =
  st_GetAll :: "'w \<Rightarrow> Stack list result"
  st_GetStack :: "string \<Rightarrow> 'w \<Rightarrow> ('p result \<times> 'w) option"
  st_GetLayersStack :: "string \<Rightarrow> 'w \<Rightarrow> ('p result \<times> 'w) option"
  st_Merge :: "'p \<Rightarrow> 'p \<Rightarrow> 'w \<Rightarrow> ('p result \<times> 'w) option"
  st_value :: "'p \<Rightarrow> 'w \<Rightarrow> Stack"
  st_StoreStack :: "Stack \<Rightarrow> 'w \<Rightarrow> unit result \<times> 'w"
  st_RemoveStack :: "string \<Rightarrow> bool \<Rightarrow> 'w \<Rightarrow> (unit result \<times> 'w) option"
  st_Touch :: "'p \<Rightarrow> (Application \<Rightarrow> Application) \<Rightarrow> 'w \<Rightarrow> 'w"

definition CassandraStore :: "yaml_codec \<Rightarrow> 'c stack_session \<Rightarrow> nat \<Rightarrow> (Stack, 'c) StackStore" where
  "CassandraStore Y S fuel =
     \<lparr>st_GetAll = cas_GetAll Y S,
      st_GetStack = (\<lambda>n c. map_option (\<lambda>r. (r, c)) (cas_GetStack Y S fuel n c)),
      st_GetLayersStack = (\<lambda>n c. map_option (\<lambda>r. (r, c)) (cas_GetLayersStack Y S fuel n c)),
      st_Merge = (\<lambda>p q c. Some (Merge p q, c)),
      st_value = (\<lambda>p c. p),
      st_StoreStack = cas_StoreStack Y S,
      st_RemoveStack = cas_RemoveStack S fuel,
      st_Touch = (\<lambda>p f c. c)\<rparr>"

text \<open>In memory the applications of a decoded stack get fresh addresses.\<close>

definition used_addrs :: "InMemoryStorage \<Rightarrow> addr list" where
  "used_addrs st = concat (map (\<lambda>(k, s). cell_addrs s) (stacks st))"

definition fresh_addr :: "InMemoryStorage \<Rightarrow> addr" where
  "fresh_addr st = Suc (fold max (used_addrs st) 0)"

fun alloc_entries ::
    "(string \<times> Application option) list \<Rightarrow> addr \<Rightarrow> (addr \<Rightarrow> Application)
     \<Rightarrow> (string \<times> addr option) list \<times> (addr \<Rightarrow> Application)" where
  "alloc_entries [] a h = ([], h)"
| "alloc_entries ((k, None) # es) a h =
     (case alloc_entries es a h of (es', h') \<Rightarrow> ((k, None) # es', h'))"
| "alloc_entries ((k, Some x) # es) a h =
     (case alloc_entries es (Suc a) (h(a := x)) of (es', h') \<Rightarrow> ((k, Some a) # es', h'))"

definition alloc_stack :: "Stack \<Rightarrow> InMemoryStorage \<Rightarrow> StackCell \<times> InMemoryStorage" where
  "alloc_stack s st =
     (case Applications s of
        None \<Rightarrow> (\<lparr>sNamespace = Namespace s, sName = Name s, sFrom = From s, sApplications = None,
                  sLayer = Layer s\<rparr>, st)
      | Some es \<Rightarrow>
          (case alloc_entries es (fresh_addr st) (memory st) of
             (es', h) \<Rightarrow> (\<lparr>sNamespace = Namespace s, sName = Name s, sFrom = From s,
                           sApplications = Some es', sLayer = Layer s\<rparr>, st\<lparr>memory := h\<rparr>)))"

definition mem_Merge ::
    "string \<Rightarrow> string \<Rightarrow> InMemoryStorage \<Rightarrow> (string result \<times> InMemoryStorage) option" where
  "mem_Merge p q st =
     (case (map_of (stacks st) p, map_of (stacks st) q) of
        (Some s, Some child) \<Rightarrow>
          (case heap_Merge p s child st of (r, st') \<Rightarrow> Some (map_result (\<lambda>_. p) r, st'))
      | _ \<Rightarrow> Some (Panic nil_dereference, st))"

definition InMemoryStore ::
    "(string \<Rightarrow> string list \<Rightarrow> string list) \<Rightarrow> nat \<Rightarrow> (string, InMemoryStorage) StackStore" where
  "InMemoryStore ord fuel =
     \<lparr>st_GetAll = (\<lambda>st. Ok (map (\<lambda>(k, s). stack_value (memory st) s) (stacks st))),
      st_GetStack = (\<lambda>n st. Some (mem_GetStack n st, st)),
      st_GetLayersStack = (\<lambda>n st. Some (mem_GetLayersStack n st)),
      st_Merge = mem_Merge,
      st_value = (\<lambda>p st. case map_of (stacks st) p of
          Some s \<Rightarrow> stack_value (memory st) s | None \<Rightarrow> empty_stack),
      st_StoreStack = (\<lambda>s st. case alloc_stack s st of (cell, st') \<Rightarrow> mem_StoreStack cell st'),
      st_RemoveStack = mem_RemoveStack ord fuel,
      st_Touch = (\<lambda>p f st. case map_of (stacks st) p of
          None \<Rightarrow> st
        | Some s \<Rightarrow> st\<lparr>memory := (\<lambda>a. if a \<in> set (cell_addrs s) then f (memory st a) else memory st a)\<rparr>)\<rparr>"

text \<open>Decoders give the decoded value and the error; a pointer that the document null sets
  to nil is \<open>None\<close>.\<close>

record http_codec =
  decode_get :: "string \<Rightarrow> GetStackRequest option \<times> error option"
  decode_run :: "string \<Rightarrow> RunRequest option \<times> error option"
  decode_create :: "string \<Rightarrow> CreateStackRequest option \<times> error option"
  decode_layer :: "string \<Rightarrow> CreateLayerRequest option \<times> error option"
  decode_remove :: "string \<Rightarrow> RemoveStackRequest option \<times> error option"
  decode_scheduled :: "string \<Rightarrow> RemoveScheduledRequest \<times> error option"
  decode_user_fields :: "string \<Rightarrow> (string \<times> string \<times> string) result"
  decode_stack :: "string \<Rightarrow> Stack option result"
  encode_stack :: "Stack \<Rightarrow> string result"
  encode_names :: "string list \<Rightarrow> string result"
  encode_tasks :: "ScheduledTask list \<Rightarrow> string result"

record ('w, 's, 'u, 'c) server_state =
  sv_stacks :: 'w
  sv_states :: 's
  sv_users :: 'u
  sv_scheduler :: StackDeployScheduler
  sv_cron :: 'c

type_synonym ('w, 's, 'u, 'c, 'a) action =
  "('w, 's, 'u, 'c) server_state \<Rightarrow> ('a result \<times> ('w, 's, 'u, 'c) server_state) option"

text \<open>\<open>update_mesos\<close> is \<open>Update\<close> of the Mesos state with its HTTP exchange; \<open>deployment\<close> is
  the environment of the run that a request starts.\<close>

record ('p, 'w, 's, 'u, 'c) server =
  api :: string
  globals :: "(string \<times> string) list"
  stackStorage :: "('p, 'w) StackStore"
  stateStorage :: "'s StateStorage"
  userStorage :: "'u UserStorage"
  cron :: "'c CronScheduler"
  codec :: http_codec
  update_mesos :: "MesosClusterState \<Rightarrow> MesosClusterState \<times> unit result"
  deployment :: "RunRequest \<Rightarrow> ('w, 's, 'u, 'c) server_state \<Rightarrow> (StackDeployScheduler, 'c) run_env"

definition NewApiServer ::
    "string \<Rightarrow> ('p, 'w, 's, 'u, 'c) server \<Rightarrow> ('p, 'w, 's, 'u, 'c) server" where
  "NewApiServer address ts =
     ts\<lparr>api := (if HasPrefix address ''http://'' then drop 7 address else address)\<rparr>"

section \<open>Running a stack\<close>

text \<open>A call followed by \<open>if err != nil { return err }\<close>.\<close>

definition seq_call ::
    "('w, 's, 'u, 'c, 'a) action \<Rightarrow> ('a \<Rightarrow> ('w, 's, 'u, 'c, 'b) action) \<Rightarrow> ('w, 's, 'u, 'c, 'b) action" where
  "seq_call m k st =
     (case m st of
        None \<Rightarrow> None
      | Some (Ok x, st') \<Rightarrow> k x st'
      | Some (Err e, st') \<Rightarrow> Some (Err e, st')
      | Some (Panic e, st') \<Rightarrow> Some (Panic e, st'))"

definition on_stacks :: "('w \<Rightarrow> ('a result \<times> 'w) option) \<Rightarrow> ('w, 's, 'u, 'c, 'a) action" where
  "on_stacks f st = map_option (\<lambda>(r, w). (r, st\<lparr>sv_stacks := w\<rparr>)) (f (sv_stacks st))"

definition on_states :: "('s \<Rightarrow> 'a result \<times> 's) \<Rightarrow> ('w, 's, 'u, 'c, 'a) action" where
  "on_states f st = (case f (sv_states st) of (r, s) \<Rightarrow> Some (r, st\<lparr>sv_states := s\<rparr>))"

text \<open>The stack to run: the named one, merged into the layers of the zone if there is one.\<close>

definition select_runner ::
    "('p, 'w, 's, 'u, 'c) server \<Rightarrow> RunRequest \<Rightarrow> ('w, 's, 'u, 'c, 'p) action" where
  "select_runner ts request =
     seq_call (on_stacks (st_GetStack (stackStorage ts) (run_Name request))) (\<lambda>runner.
       if run_Zone request \<noteq> []
       then seq_call (on_stacks (st_GetLayersStack (stackStorage ts) (run_Zone request))) (\<lambda>layers.
              on_stacks (st_Merge (stackStorage ts) layers runner))
       else (\<lambda>st. Some (Ok runner, st)))"

text \<open>\<open>Run\<close> of the stack: the deployment writes the state storage, its goroutines write the
  scheduler and the structs of the applications; it has no access to the users.\<close>

definition run_merged ::
    "('p, 'w, 's, 'u, 'c) server \<Rightarrow> RunRequest \<Rightarrow> 'p \<Rightarrow> Variables \<Rightarrow> ('w, 's, 'u, 'c, unit) action" where
  "run_merged ts request runner vs st =
     (let env = deployment ts request st
      in map_option (\<lambda>(r, store). (r, st\<lparr>sv_states := store,
             sv_stacks := st_Touch (stackStorage ts) runner (left_app env) (sv_stacks st),
             sv_scheduler := left_scheduler env (sv_scheduler st),
             sv_cron := left_cron env (sv_cron st)\<rparr>))
           (execute_stack (stateStorage ts) env (SkipApplications request) (run_Name request)
              (run_Zone request) (st_value (stackStorage ts) runner (sv_stacks st)) vs (sv_states st)))"

text \<open>The outcome of the run is recorded: the error of recording a failure is dropped, the
  error of recording a success is returned. A panic passes through.\<close>

definition record_outcome ::
    "('p, 'w, 's, 'u, 'c) server \<Rightarrow> RunRequest \<Rightarrow> unit result \<Rightarrow> ('w, 's, 'u, 'c, unit) action" where
  "record_outcome ts request r =
     (case r of
        Ok _ \<Rightarrow> on_states (SaveStackStatus (stateStorage ts) (run_Name request) (run_Zone request) StackStatusRunning)
      | Err e \<Rightarrow> (\<lambda>st. map_option (\<lambda>(_, st'). (Err e, st'))
                   (on_states (SaveStackStatus (stateStorage ts) (run_Name request) (run_Zone request)
                      StackStatusFailed) st))
      | Panic e \<Rightarrow> (\<lambda>st. Some (Panic e, st)))"

definition runStack ::
    "('p, 'w, 's, 'u, 'c) server \<Rightarrow> RunRequest \<Rightarrow> Variables \<Rightarrow> ('w, 's, 'u, 'c, unit) action" where
  "runStack ts request vs =
     seq_call (select_runner ts request) (\<lambda>runner.
       seq_call (on_states (SaveStackStatus (stateStorage ts) (run_Name request) (run_Zone request)
                   StackStatusStaging)) (\<lambda>_ st.
         case run_merged ts request runner vs st of
           None \<Rightarrow> None
         | Some (r, st') \<Rightarrow> record_outcome ts request r st'))"

section \<open>Handlers\<close>

type_synonym ('w, 's, 'u, 'c) handler =
  "http_request \<Rightarrow> writer \<Rightarrow> ('w, 's, 'u, 'c, writer) action"

text \<open>The end of a handler.\<close>

definition respond :: "writer \<Rightarrow> ('w, 's, 'u, 'c, writer) action" where
  "respond w st = Some (Ok w, st)"

text \<open>A call whose error is answered with a status.\<close>

definition or_fail ::
    "('w, 's, 'u, 'c, 'a) action \<Rightarrow> int \<Rightarrow> writer \<Rightarrow> ('a \<Rightarrow> ('w, 's, 'u, 'c, writer) action)
     \<Rightarrow> ('w, 's, 'u, 'c, writer) action" where
  "or_fail m code w k st =
     (case m st of
        None \<Rightarrow> None
      | Some (Ok x, st') \<Rightarrow> k x st'
      | Some (Err e, st') \<Rightarrow> Some (Ok (http_Error e code w), st')
      | Some (Panic e, st') \<Rightarrow> Some (Panic e, st'))"

definition pure_call :: "'a result \<Rightarrow> ('w, 's, 'u, 'c, 'a) action" where
  "pure_call r st = Some (r, st)"

definition on_users :: "('u \<Rightarrow> 'a result \<times> 'u) \<Rightarrow> ('w, 's, 'u, 'c, 'a) action" where
  "on_users f st = (case f (sv_users st) of (r, u) \<Rightarrow> Some (r, st\<lparr>sv_users := u\<rparr>))"

definition on_scheduler ::
    "(StackDeployScheduler \<Rightarrow> 'c \<Rightarrow> 'a result \<times> StackDeployScheduler \<times> 'c) \<Rightarrow> ('w, 's, 'u, 'c, 'a) action" where
  "on_scheduler f st =
     (case f (sv_scheduler st) (sv_cron st) of
        (r, s, c) \<Rightarrow> Some (r, st\<lparr>sv_scheduler := s, sv_cron := c\<rparr>))"

text \<open>The middleware.\<close>

definition Auth ::
    "('p, 'w, 's, 'u, 'c) server \<Rightarrow> ('w, 's, 'u, 'c) handler \<Rightarrow> ('w, 's, 'u, 'c) handler" where
  "Auth ts handler r w =
     (\<lambda>st. or_fail (pure_call (us_CheckKey (userStorage ts) (req_user r) (req_key r) (sv_users st))) 500 w
       (\<lambda>valid. if \<not> valid then respond (http_Error ''Unauthorized'' 403 w) else handler r w) st)"

definition Admin ::
    "('p, 'w, 's, 'u, 'c) server \<Rightarrow> ('w, 's, 'u, 'c) handler \<Rightarrow> ('w, 's, 'u, 'c) handler" where
  "Admin ts handler r w =
     (\<lambda>st. or_fail (pure_call (us_IsAdmin (userStorage ts) (req_user r) (sv_users st))) 500 w
       (\<lambda>admin. if \<not> admin
                then respond (http_Error (''User '' @ req_user r @ '' is not an admin'') 403 w)
                else handler r w) st)"

text \<open>After an error of the storage or of the encoder the handler goes on.\<close>

definition ListHandler :: "('p, 'w, 's, 'u, 'c) server \<Rightarrow> ('w, 's, 'u, 'c) handler" where
  "ListHandler ts r w = (\<lambda>st.
     case st_GetAll (stackStorage ts) (sv_stacks st) of
       Panic e \<Rightarrow> Some (Panic e, st)
     | all \<Rightarrow>
         (let w1 = (case all of Err e \<Rightarrow> http_Error e 500 w | _ \<Rightarrow> w);
              names = (case all of Ok ss \<Rightarrow> map Name ss | _ \<Rightarrow> [])
          in case encode_names (codec ts) (sort names) of
               Panic e \<Rightarrow> Some (Panic e, st)
             | Err e \<Rightarrow> respond (Write [] (WriteHeader 200 (http_Error e 500 w1))) st
             | Ok yamlStacks \<Rightarrow> respond (Write yamlStacks (WriteHeader 200 w1)) st))"

definition GetStackHandler :: "('p, 'w, 's, 'u, 'c) server \<Rightarrow> ('w, 's, 'u, 'c) handler" where
  "GetStackHandler ts r w =
     (case fst (decode_get (codec ts) (req_body r)) of
        None \<Rightarrow> pure_call (Panic nil_dereference)
      | Some getRequest \<Rightarrow>
          if get_Name getRequest = [] then respond (http_Error ''Stack name required'' 400 w)
          else or_fail (on_stacks (st_GetStack (stackStorage ts) (get_Name getRequest))) 404 w (\<lambda>p st.
            or_fail (pure_call (encode_stack (codec ts) (st_value (stackStorage ts) p (sv_stacks st)))) 500 w
              (\<lambda>yamlStack. respond (Write yamlStack (WriteHeader 200 w))) st))"

definition request_variables ::
    "('p, 'w, 's, 'u, 'c) server \<Rightarrow> RunRequest \<Rightarrow> Variables" where
  "request_variables ts request =
     fold (\<lambda>(k, v). SetArbitraryVariable k v) (entries (run_Variables request))
       (fold (\<lambda>(k, v). SetGlobalVariable k v) (globals ts) NewVariables)"

definition refresh_mesos ::
    "('p, 'w, 's, 'u, 'c) server \<Rightarrow> ('w, 's, 'u, 'c, unit) action" where
  "refresh_mesos ts = on_scheduler (\<lambda>s c.
     case update_mesos ts (cluster s) of (ms, r) \<Rightarrow> (r, s\<lparr>cluster := ms\<rparr>, c))"

definition RunHandler :: "('p, 'w, 's, 'u, 'c) server \<Rightarrow> ('w, 's, 'u, 'c) handler" where
  "RunHandler ts r w =
     (case fst (decode_run (codec ts) (req_body r)) of
        None \<Rightarrow> pure_call (Panic nil_dereference)
      | Some runRequest \<Rightarrow>
          if run_Name runRequest = [] then respond (http_Error ''Stack name required'' 400 w)
          else or_fail (refresh_mesos ts) 404 w (\<lambda>_.
            or_fail (runStack ts runRequest (request_variables ts runRequest)) 404 w
              (\<lambda>_. respond (WriteHeader 200 w))))"

text \<open>The body of a decoded request, the decoder's error being answered first.\<close>

definition decoded ::
    "'a option \<times> error option \<Rightarrow> writer \<Rightarrow> ('a \<Rightarrow> ('w, 's, 'u, 'c, writer) action)
     \<Rightarrow> ('w, 's, 'u, 'c, writer) action" where
  "decoded d w k =
     (case d of
        (_, Some e) \<Rightarrow> respond (http_Error e 400 w)
      | (None, None) \<Rightarrow> pure_call (Panic nil_dereference)
      | (Some x, None) \<Rightarrow> k x)"

text \<open>\<open>StoreStack\<close> of a nil stack panics.\<close>

definition store_decoded ::
    "('p, 'w, 's, 'u, 'c) server \<Rightarrow> Stack option \<Rightarrow> ('w, 's, 'u, 'c, unit) action" where
  "store_decoded ts stack =
     (case stack of
        None \<Rightarrow> pure_call (Panic nil_dereference)
      | Some s \<Rightarrow> on_stacks (\<lambda>w. Some (st_StoreStack (stackStorage ts) s w)))"

definition CreateStackHandler :: "('p, 'w, 's, 'u, 'c) server \<Rightarrow> ('w, 's, 'u, 'c) handler" where
  "CreateStackHandler ts r w =
     decoded (decode_create (codec ts) (req_body r)) w (\<lambda>request.
       or_fail (pure_call (decode_stack (codec ts) (Stackfile request))) 400 w (\<lambda>stack.
         or_fail (store_decoded ts stack) 400 w (\<lambda>_. respond (WriteHeader 200 w))))"

definition layerToInt :: "string \<Rightarrow> int result" where
  "layerToInt layer =
     (if layer = ''zone'' then Ok LayerZone
      else if layer = ''cluster'' then Ok LayerCluster
      else if layer = ''datacenter'' then Ok LayerDataCenter
      else Err (''Invalid layer: '' @ layer))"

definition CreateLayerHandler :: "('p, 'w, 's, 'u, 'c) server \<Rightarrow> ('w, 's, 'u, 'c) handler" where
  "CreateLayerHandler ts r w =
     decoded (decode_layer (codec ts) (req_body r)) w (\<lambda>request.
       or_fail (pure_call (decode_stack (codec ts) (layer_Stackfile request))) 400 w (\<lambda>stack.
         case stack of
           None \<Rightarrow> pure_call (Panic nil_dereference)
         | Some s \<Rightarrow>
             or_fail (pure_call (layerToInt (layer_Layer request))) 400 w (\<lambda>layer.
               or_fail (store_decoded ts (Some (s\<lparr>Layer := layer, From := layer_Parent request\<rparr>))) 400 w
                 (\<lambda>_. respond (WriteHeader 200 w)))))"

definition RemoveStackHandler :: "('p, 'w, 's, 'u, 'c) server \<Rightarrow> ('w, 's, 'u, 'c) handler" where
  "RemoveStackHandler ts r w =
     (case fst (decode_remove (codec ts) (req_body r)) of
        None \<Rightarrow> pure_call (Panic nil_dereference)
      | Some removeRequest \<Rightarrow>
          if remove_Name removeRequest = [] then respond (http_Error ''Stack name required'' 400 w)
          else or_fail (on_stacks (st_RemoveStack (stackStorage ts) (remove_Name removeRequest)
                          (remove_Force removeRequest))) 400 w
                 (\<lambda>_. respond (WriteHeader 200 w)))"

definition CreateUserHandler :: "('p, 'w, 's, 'u, 'c) server \<Rightarrow> ('w, 's, 'u, 'c) handler" where
  "CreateUserHandler ts r w =
     or_fail (pure_call (User_UnmarshalJSON (decode_user_fields (codec ts)) (req_body r))) 400 w (\<lambda>user.
       or_fail (on_users (us_CreateUser (userStorage ts) (UserName user) (Role user))) 400 w
         (\<lambda>key. respond (Write key (WriteHeader 201 w))))"

definition RefreshTokenHandler :: "('p, 'w, 's, 'u, 'c) server \<Rightarrow> ('w, 's, 'u, 'c) handler" where
  "RefreshTokenHandler ts r w =
     or_fail (pure_call (User_UnmarshalJSON (decode_user_fields (codec ts)) (req_body r))) 400 w (\<lambda>user.
       or_fail (on_users (us_RefreshToken (userStorage ts) (UserName user))) 400 w
         (\<lambda>key. respond (Write key (WriteHeader 200 w))))"

definition ScheduledHandler :: "('p, 'w, 's, 'u, 'c) server \<Rightarrow> ('w, 's, 'u, 'c) handler" where
  "ScheduledHandler ts r w = (\<lambda>st.
     or_fail (pure_call (encode_tasks (codec ts) (GetScheduledTasks (sv_scheduler st)))) 500 w
       (\<lambda>resp. respond (Write resp (WriteHeader 200 w))) st)"

definition RemoveScheduledHandler :: "('p, 'w, 's, 'u, 'c) server \<Rightarrow> ('w, 's, 'u, 'c) handler" where
  "RemoveScheduledHandler ts r w =
     (case decode_scheduled (codec ts) (req_body r) of
        (_, Some e) \<Rightarrow> respond (http_Error e 400 w)
      | (request, None) \<Rightarrow>
          or_fail (on_scheduler (RemoveScheduled (cron ts) (rs_ID request))) 500 w (\<lambda>removed.
            if \<not> removed
            then respond (Write (''Task '' @ Itoa (rs_ID request) @ '' not found'') (WriteHeader 404 w))
            else respond (Write (Itoa (rs_ID request) @ '' deleted'') (WriteHeader 200 w))))"

definition HealthHandler :: "('w, 's, 'u, 'c) handler" where
  "HealthHandler r w = respond (WriteHeader 200 w)"

text \<open>The routes that \<open>Start\<close> registers.\<close>

definition routes :: "('p, 'w, 's, 'u, 'c) server \<Rightarrow> (string \<times> ('w, 's, 'u, 'c) handler) list" where
  "routes ts =
     [(''/list'', Auth ts (ListHandler ts)),
      (''/get'', Auth ts (GetStackHandler ts)),
      (''/run'', Auth ts (RunHandler ts)),
      (''/createstack'', Auth ts (CreateStackHandler ts)),
      (''/removestack'', Auth ts (RemoveStackHandler ts)),
      (''/scheduled'', Auth ts (ScheduledHandler ts)),
      (''/scheduled/delete'', Auth ts (RemoveScheduledHandler ts)),
      (''/health'', HealthHandler),
      (''/createuser'', Auth ts (Admin ts (CreateUserHandler ts))),
      (''/refreshtoken'', Auth ts (Admin ts (RefreshTokenHandler ts))),
      (''/createlayer'', Auth ts (CreateLayerHandler ts))]"

text \<open>The multiplexer of \<open>net/http\<close> for exact paths.\<close>

definition serve ::
    "('p, 'w, 's, 'u, 'c) server \<Rightarrow> http_request \<Rightarrow> ('w, 's, 'u, 'c, writer) action" where
  "serve ts r =
     (case map_of (routes ts) (req_path r) of
        None \<Rightarrow> respond (http_Error ''404 page not found'' 404 new_writer)
      | Some handler \<Rightarrow> handler r new_writer)"

section \<open>Access\<close>

lemma Auth_refuses:
  assumes "us_CheckKey (userStorage ts) (req_user r) (req_key r) (sv_users st) \<noteq> Ok True"
    and "w_status w = None"
  shows "\<exists>res. Auth ts h r w st = Some (res, st) \<and> (\<forall>w'. res = Ok w' \<longrightarrow> status_of w' \<in> {403, 500})"
  using assms
  by (cases "us_CheckKey (userStorage ts) (req_user r) (req_key r) (sv_users st)")
     (auto simp: Auth_def or_fail_def pure_call_def respond_def http_Error_def Write_def WriteHeader_def
       status_of_def Let_def)

lemma Auth_admits:
  "us_CheckKey (userStorage ts) (req_user r) (req_key r) (sv_users st) = Ok True \<Longrightarrow>
     Auth ts h r w st = h r w st"
  by (simp add: Auth_def or_fail_def pure_call_def)

lemma Admin_refuses:
  assumes "us_IsAdmin (userStorage ts) (req_user r) (sv_users st) \<noteq> Ok True" and "w_status w = None"
  shows "\<exists>res. Admin ts h r w st = Some (res, st) \<and> (\<forall>w'. res = Ok w' \<longrightarrow> status_of w' \<in> {403, 500})"
  using assms
  by (cases "us_IsAdmin (userStorage ts) (req_user r) (sv_users st)")
     (auto simp: Admin_def or_fail_def pure_call_def respond_def http_Error_def Write_def WriteHeader_def
       status_of_def Let_def)

lemma routes_guarded:
  "map_of (routes ts) p = Some h \<Longrightarrow> p \<noteq> ''/health'' \<Longrightarrow> \<exists>g. h = Auth ts g"
  by (simp add: routes_def split: if_splits) blast+

lemma new_writer_status [simp]: "w_status new_writer = None"
  by (simp add: new_writer_def)

text \<open>C4: Every route but the health check is closed to requests without a valid key: they
  are refused and the stacks, the run states, the users and the scheduler stay as they
  were.\<close>
theorem unauthenticated_refused:
  assumes "req_path r \<noteq> ''/health''"
    and "us_CheckKey (userStorage ts) (req_user r) (req_key r) (sv_users st) \<noteq> Ok True"
  shows "\<exists>res. serve ts r st = Some (res, st) \<and> (\<forall>w. res = Ok w \<longrightarrow> status_of w \<in> {403, 404, 500})"
proof (cases "map_of (routes ts) (req_path r)")
  case None
  then show ?thesis
    by (simp add: serve_def respond_def http_Error_def Write_def WriteHeader_def status_of_def Let_def)
next
  case (Some h)
  from routes_guarded [OF Some assms(1)] obtain g where "h = Auth ts g" by blast
  with Some Auth_refuses [OF assms(2) new_writer_status, of g] show ?thesis by (auto simp: serve_def)
qed

named_theorems keeps \<open>actions that leave the users alone\<close>

definition keeps_users :: "('w, 's, 'u, 'c, 'a) action \<Rightarrow> bool" where
  "keeps_users m \<longleftrightarrow> (\<forall>st r st'. m st = Some (r, st') \<longrightarrow> sv_users st' = sv_users st)"

lemma keeps_basic [keeps]:
  "keeps_users (respond w)" "keeps_users (pure_call q)" "keeps_users (on_stacks f)"
  "keeps_users (on_states g)" "keeps_users (on_scheduler k)" "keeps_users (\<lambda>st. Some (q, st))"
  by (auto simp: keeps_users_def respond_def pure_call_def on_stacks_def on_states_def on_scheduler_def
      split: prod.splits)

lemma keeps_or_fail [keeps]:
  assumes "keeps_users m" and "\<And>x. keeps_users (k x)"
  shows "keeps_users (or_fail m code w k)"
  unfolding keeps_users_def or_fail_def
proof (intro allI impI)
  fix st r st'
  assume *: "(case m st of None \<Rightarrow> None | Some (Ok x, st') \<Rightarrow> k x st'
     | Some (Err e, st') \<Rightarrow> Some (Ok (http_Error e code w), st')
     | Some (Panic e, st') \<Rightarrow> Some (Panic e, st')) = Some (r, st')"
  then obtain q st1 where m: "m st = Some (q, st1)" by (auto split: option.splits)
  then have "sv_users st1 = sv_users st" using assms(1) unfolding keeps_users_def by blast
  moreover have "sv_users st' = sv_users st1"
    using * m assms(2) unfolding keeps_users_def by (cases q) auto
  ultimately show "sv_users st' = sv_users st" by simp
qed

lemma keeps_seq_call [keeps]:
  assumes "keeps_users m" and "\<And>x. keeps_users (k x)"
  shows "keeps_users (seq_call m k)"
  unfolding keeps_users_def seq_call_def
proof (intro allI impI)
  fix st r st'
  assume *: "(case m st of None \<Rightarrow> None | Some (Ok x, st') \<Rightarrow> k x st'
     | Some (Err e, st') \<Rightarrow> Some (Err e, st') | Some (Panic e, st') \<Rightarrow> Some (Panic e, st')) = Some (r, st')"
  then obtain q st1 where m: "m st = Some (q, st1)" by (auto split: option.splits)
  then have "sv_users st1 = sv_users st" using assms(1) unfolding keeps_users_def by blast
  moreover have "sv_users st' = sv_users st1"
    using * m assms(2) unfolding keeps_users_def by (cases q) auto
  ultimately show "sv_users st' = sv_users st" by simp
qed

lemma keeps_decoded [keeps]: "(\<And>x. keeps_users (k x)) \<Longrightarrow> keeps_users (decoded d w k)"
  by (simp add: decoded_def keeps split: prod.split option.split)

lemma keeps_in_state: "(\<And>x. keeps_users (m x)) \<Longrightarrow> keeps_users (\<lambda>st. m st st)"
  by (auto simp: keeps_users_def)

lemma keeps_store_decoded [keeps]: "keeps_users (store_decoded ts s)"
  by (cases s) (simp_all add: store_decoded_def keeps)

lemma keeps_record_outcome [keeps]: "keeps_users (record_outcome ts request r)"
  using keeps_basic(4) unfolding keeps_users_def
  by (cases r) (auto simp: record_outcome_def; blast)+

lemma keeps_run_merged [keeps]: "keeps_users (run_merged ts request p vs)"
  by (auto simp: keeps_users_def run_merged_def Let_def)

lemma keeps_runStack [keeps]: "keeps_users (runStack ts request vs)"
proof -
  have "keeps_users (\<lambda>st. case run_merged ts request p vs st of
      None \<Rightarrow> None | Some (r, st') \<Rightarrow> record_outcome ts request r st')" for p
    unfolding keeps_users_def
  proof (intro allI impI)
    fix st q st'
    assume *: "(case run_merged ts request p vs st of
      None \<Rightarrow> None | Some (r, st') \<Rightarrow> record_outcome ts request r st') = Some (q, st')"
    then obtain r st1 where m: "run_merged ts request p vs st = Some (r, st1)"
      and o: "record_outcome ts request r st1 = Some (q, st')" by (auto split: option.splits)
    have "sv_users st1 = sv_users st"
      using m keeps_run_merged [of ts request p vs] unfolding keeps_users_def by blast
    with o keeps_record_outcome show "sv_users st' = sv_users st" unfolding keeps_users_def by metis
  qed
  moreover have "keeps_users (select_runner ts request)"
    by (auto simp: select_runner_def intro!: keeps)
  ultimately show ?thesis unfolding runStack_def by (intro keeps)
qed

lemma keeps_handlers:
  shows "keeps_users (ListHandler ts r w)" "keeps_users (GetStackHandler ts r w)"
    "keeps_users (RunHandler ts r w)" "keeps_users (CreateStackHandler ts r w)"
    "keeps_users (RemoveStackHandler ts r w)" "keeps_users (ScheduledHandler ts r w)"
    "keeps_users (RemoveScheduledHandler ts r w)" "keeps_users (HealthHandler r w)"
    "keeps_users (CreateLayerHandler ts r w)"
proof -
  show "keeps_users (ListHandler ts r w)"
    by (auto simp: ListHandler_def keeps_users_def respond_def Let_def split: result.splits)
  have "keeps_users (\<lambda>st. or_fail (pure_call (encode_stack (codec ts)
      (st_value (stackStorage ts) p (sv_stacks st)))) 500 w
      (\<lambda>yamlStack. respond (Write yamlStack (WriteHeader 200 w))) st)" for p
    by (rule keeps_in_state) (intro keeps)
  then show "keeps_users (GetStackHandler ts r w)"
    unfolding GetStackHandler_def by (auto split: option.split intro!: keeps)
  show "keeps_users (RunHandler ts r w)"
    unfolding RunHandler_def refresh_mesos_def
    by (auto split: option.split intro!: keeps)
  show "keeps_users (CreateStackHandler ts r w)" unfolding CreateStackHandler_def by (intro keeps)
  show "keeps_users (RemoveStackHandler ts r w)"
    unfolding RemoveStackHandler_def by (auto split: option.split intro!: keeps)
  show "keeps_users (ScheduledHandler ts r w)"
    unfolding ScheduledHandler_def by (rule keeps_in_state) (intro keeps)
  show "keeps_users (RemoveScheduledHandler ts r w)"
    unfolding RemoveScheduledHandler_def by (auto split: prod.split option.split intro!: keeps)
  show "keeps_users (HealthHandler r w)" unfolding HealthHandler_def by (intro keeps)
  show "keeps_users (CreateLayerHandler ts r w)"
    unfolding CreateLayerHandler_def by (auto split: option.split intro!: keeps)
qed

lemma Auth_keeps: "keeps_users (h r w) \<Longrightarrow> keeps_users (Auth ts h r w)"
  unfolding Auth_def by (rule keeps_in_state) (auto intro!: keeps)

lemma admin_routes:
  assumes "map_of (routes ts) p = Some h"
  shows "keeps_users (h r w) \<or> p \<in> {''/createuser'', ''/refreshtoken''} \<and> (\<exists>g. h = Auth ts (Admin ts g))"
  using assms
  by (simp add: routes_def split: if_splits)
     (auto intro!: Auth_keeps keeps_handlers)

text \<open>C5: Users and keys are managed by administrators only, and through two routes. When a
  request changes the users, it came to one of the routes that create a user and refresh a
  token, its key is valid and its user is an administrator.\<close>
theorem users_changed_by_admins_only:
  assumes "serve ts r st = Some (res, st')" and "sv_users st' \<noteq> sv_users st"
  shows "req_path r \<in> {''/createuser'', ''/refreshtoken''} \<and>
    us_CheckKey (userStorage ts) (req_user r) (req_key r) (sv_users st) = Ok True \<and>
    us_IsAdmin (userStorage ts) (req_user r) (sv_users st) = Ok True"
proof -
  obtain h where h: "map_of (routes ts) (req_path r) = Some h"
    using assms by (cases "map_of (routes ts) (req_path r)") (auto simp: serve_def respond_def)
  with assms(1) have run: "h r new_writer st = Some (res, st')" by (simp add: serve_def)
  have "\<not> keeps_users (h r new_writer)" using run assms(2) unfolding keeps_users_def by blast
  with admin_routes [OF h] obtain g where g: "h = Auth ts (Admin ts g)"
    and p: "req_path r \<in> {''/createuser'', ''/refreshtoken''}" by blast
  have valid: "us_CheckKey (userStorage ts) (req_user r) (req_key r) (sv_users st) = Ok True"
  proof (rule ccontr)
    assume "us_CheckKey (userStorage ts) (req_user r) (req_key r) (sv_users st) \<noteq> Ok True"
    from Auth_refuses [OF this new_writer_status, of "Admin ts g"] run g assms(2) show False by auto
  qed
  moreover have "us_IsAdmin (userStorage ts) (req_user r) (sv_users st) = Ok True"
  proof (rule ccontr)
    assume "us_IsAdmin (userStorage ts) (req_user r) (sv_users st) \<noteq> Ok True"
    from Admin_refuses [OF this new_writer_status, of g] run g assms(2) Auth_admits [OF valid] show False
      by auto
  qed
  ultimately show ?thesis using p by blast
qed

section \<open>Recorded outcomes\<close>

text \<open>The run of a merged stack is a run of the state machine of the deployment: what is
  proved of all of them holds of the runs of the server.\<close>

lemma run_merged_deploys:
  assumes "run_merged ts request p vs st = Some (Ok (), st')" and "orders_ok (deployment ts request st)"
  shows "\<exists>rx runners m. deploys (stateStorage ts) rx runners (SkipApplications request)
      (run_Name request) (run_Zone request) (st_value (stackStorage ts) p (sv_stacks st)) UNIV
      (sv_states st) m \<and> outcome m = Some (Ok ()) \<and> sv_states st' = storage m"
proof -
  from assms(1) have "execute_stack (stateStorage ts) (deployment ts request st) (SkipApplications request)
      (run_Name request) (run_Zone request) (st_value (stackStorage ts) p (sv_stacks st)) vs
      (sv_states st) = Some (Ok (), sv_states st')"
    by (auto simp: run_merged_def Let_def)
  from execute_stack_deploys [OF this assms(2)] show ?thesis by metis
qed

lemma mem_state_stays:
  "find_state m name zone \<noteq> None \<Longrightarrow>
     find_state (snd (SaveApplicationStatus InMemoryStateStorage n z a x m)) name zone \<noteq> None"
  "find_state m name zone \<noteq> None \<Longrightarrow>
     find_state (snd (SaveStackVariables InMemoryStateStorage n z v m)) name zone \<noteq> None"
  by (auto simp: InMemoryStateStorage_def mem_SaveApplicationStatus_def mem_SaveStackVariables_def
      find_put_state split: option.split)

text \<open>The phases of \<open>runStack\<close> that returned.\<close>

lemma runStack_phases:
  assumes "runStack ts request vs st = Some (r, st')" and "select_runner ts request st = Some (Ok p, st1)"
    and "SaveStackStatus (stateStorage ts) (run_Name request) (run_Zone request) StackStatusStaging
      (sv_states st1) = (Ok (), s2)"
  obtains q st3 where "run_merged ts request p vs (st1\<lparr>sv_states := s2\<rparr>) = Some (q, st3)"
    "record_outcome ts request q st3 = Some (r, st')"
  using assms by (auto simp: runStack_def seq_call_def on_states_def split: option.splits)

lemma runStack_Ok_phases:
  assumes "runStack ts request vs st = Some (Ok (), st')"
  obtains p st1 s2 st3 where "select_runner ts request st = Some (Ok p, st1)"
    "SaveStackStatus (stateStorage ts) (run_Name request) (run_Zone request) StackStatusStaging
      (sv_states st1) = (Ok (), s2)"
    "run_merged ts request p vs (st1\<lparr>sv_states := s2\<rparr>) = Some (Ok (), st3)"
    "SaveStackStatus (stateStorage ts) (run_Name request) (run_Zone request) StackStatusRunning
      (sv_states st3) = (Ok (), sv_states st')"
proof -
  obtain p st1 where p: "select_runner ts request st = Some (Ok p, st1)"
    using assms by (auto simp: runStack_def seq_call_def split: option.splits prod.splits result.splits)
  obtain s2 where s2: "SaveStackStatus (stateStorage ts) (run_Name request) (run_Zone request)
      StackStatusStaging (sv_states st1) = (Ok (), s2)"
    using assms p by (cases "SaveStackStatus (stateStorage ts) (run_Name request) (run_Zone request)
      StackStatusStaging (sv_states st1)"; cases "fst (SaveStackStatus (stateStorage ts) (run_Name request)
      (run_Zone request) StackStatusStaging (sv_states st1))")
      (auto simp: runStack_def seq_call_def on_states_def)
  obtain q st3 where q: "run_merged ts request p vs (st1\<lparr>sv_states := s2\<rparr>) = Some (q, st3)"
    "record_outcome ts request q st3 = Some (Ok (), st')"
    by (rule runStack_phases [OF assms p s2])
  then have "q = Ok ()" by (cases q) (auto simp: record_outcome_def)
  with q that [OF p s2] show thesis by (auto simp: record_outcome_def on_states_def split: prod.splits)
qed

lemma run_merged_state_stays:
  assumes "stateStorage ts = InMemoryStateStorage" and "run_merged ts request p vs st = Some (r, st')"
    and "find_state (sv_states st) n z \<noteq> None"
  shows "find_state (sv_states st') n z \<noteq> None"
proof -
  from assms(1,2) have "execute_stack InMemoryStateStorage (deployment ts request st) (SkipApplications request)
      (run_Name request) (run_Zone request) (st_value (stackStorage ts) p (sv_stacks st)) vs
      (sv_states st) = Some (r, sv_states st')"
    by (auto simp: run_merged_def Let_def)
  from execute_stack_storage [OF this, where P = "\<lambda>s. find_state s n z \<noteq> None"] assms(3) mem_state_stays
  show ?thesis by blast
qed

text \<open>C36: In development mode, with the in-memory state storage, a run is never answered with
  success. When the deployment itself succeeds, the answer is the error that the state exists
  already: the status of a stack and zone can be recorded only once, and the run recorded
  that it is staging when it began.\<close>
theorem development_runs_fail:
  assumes "stateStorage ts = InMemoryStateStorage" and "runStack ts request vs st = Some (r, st')"
  shows "r \<noteq> Ok () \<and>
    (\<forall>p st1 s2 st3. select_runner ts request st = Some (Ok p, st1) \<longrightarrow>
       mem_SaveStackStatus (run_Name request) (run_Zone request) StackStatusStaging (sv_states st1) = (Ok (), s2) \<longrightarrow>
       run_merged ts request p vs (st1\<lparr>sv_states := s2\<rparr>) = Some (Ok (), st3) \<longrightarrow>
       r = Err ErrStackStateExists)"
proof -
  let ?n = "run_Name request" and ?z = "run_Zone request"
  have again: "mem_SaveStackStatus ?n ?z x (sv_states st3) = (Err ErrStackStateExists, sv_states st3)"
    if "mem_SaveStackStatus ?n ?z StackStatusStaging (sv_states st1) = (Ok (), s2)"
      "run_merged ts request p vs (st1\<lparr>sv_states := s2\<rparr>) = Some (q, st3)" for x p q st1 s2 st3
  proof -
    from mem_saved_status [OF that(1)] have "find_state (sv_states (st1\<lparr>sv_states := s2\<rparr>)) ?n ?z \<noteq> None"
      by simp
    from run_merged_state_stays [OF assms(1) that(2) this] show ?thesis
      using mem_save_again by blast
  qed
  have SS: "SaveStackStatus (stateStorage ts) = mem_SaveStackStatus"
    by (simp add: assms(1) InMemoryStateStorage_def)
  have "r \<noteq> Ok ()"
  proof
    assume "r = Ok ()"
    with assms(2) have "runStack ts request vs st = Some (Ok (), st')" by simp
    then show False
      by (rule runStack_Ok_phases) (simp add: SS again)
  qed
  moreover have "r = Err ErrStackStateExists"
    if "select_runner ts request st = Some (Ok p, st1)"
      "mem_SaveStackStatus ?n ?z StackStatusStaging (sv_states st1) = (Ok (), s2)"
      "run_merged ts request p vs (st1\<lparr>sv_states := s2\<rparr>) = Some (Ok (), st3)" for p st1 s2 st3
    using assms(2) that again [OF that(2,3)]
    by (simp add: runStack_def seq_call_def on_states_def SS record_outcome_def)
  ultimately show ?thesis by blast
qed

text \<open>C18: With the Cassandra state storage the recorded status is the answer: a run answered
  with success is recorded as running, and a run that was started and failed as failed,
  for a database that accepts the inserts.\<close>
theorem run_status_recorded:
  assumes "stateStorage ts = CassandraStateStorage S" and "cql_upserts S rows"
    and "\<And>sz x c. fst (insert_stack_state S sz x c) = Ok ()"
    and "runStack ts request vs st = Some (r, st')" and "select_runner ts request st = Some (Ok p, st1)"
  shows "(r = Ok () \<longrightarrow> status_rows (rows (sv_states st')) (run_Name request, run_Zone request) =
      Some StackStatusRunning) \<and>
    (\<forall>e. r = Err e \<longrightarrow> status_rows (rows (sv_states st')) (run_Name request, run_Zone request) =
      Some StackStatusFailed)"
proof -
  let ?nz = "(run_Name request, run_Zone request)"
  have save: "SaveStackStatus (stateStorage ts) (run_Name request) (run_Zone request) x c =
      (Ok (), snd (insert_stack_state S ?nz x c))" for x c
    using assms(1,3) by (simp add: CassandraStateStorage_def cas_SaveStackStatus_def prod_eq_iff)
  have row: "status_rows (rows (snd (insert_stack_state S ?nz x c))) ?nz = Some x" for x c
  proof -
    have "insert_stack_state S ?nz x c = (Ok (), snd (insert_stack_state S ?nz x c))"
      using assms(3) by (metis prod.collapse)
    with assms(2) have "rows (snd (insert_stack_state S ?nz x c)) =
        (rows c)\<lparr>status_rows := (status_rows (rows c))(?nz \<mapsto> x)\<rparr>" unfolding cql_upserts_def by blast
    then show ?thesis by simp
  qed
  obtain q st3 where "record_outcome ts request q st3 = Some (r, st')"
    by (rule runStack_phases [OF assms(4,5) save])
  then show ?thesis by (cases q) (auto simp: record_outcome_def on_states_def save row)
qed

section \<open>Witnesses\<close>

text \<open>A server over tables in memory: requests are decoded to fixed values, the body of a
  user request is the name.\<close>

definition sample_http :: http_codec where
  "sample_http =
     \<lparr>decode_get = (\<lambda>b. (Some \<lparr>get_Name = b\<rparr>, None)), decode_run = (\<lambda>b. (None, None)),
      decode_create = (\<lambda>b. (Some \<lparr>Stackfile = b\<rparr>, None)), decode_layer = (\<lambda>b. (None, None)),
      decode_remove = (\<lambda>b. (Some \<lparr>remove_Name = b, remove_Force = False\<rparr>, None)),
      decode_scheduled = (\<lambda>b. (\<lparr>rs_ID = 0\<rparr>, None)),
      decode_user_fields = (\<lambda>b. Ok (b, [], [])), decode_stack = (\<lambda>b. Ok None),
      encode_stack = (\<lambda>s. Ok (Name s)), encode_names = (\<lambda>ns. Ok (Join ns [])),
      encode_tasks = (\<lambda>ts. Ok [])\<rparr>"

type_synonym 's sample_state =
  "((string \<times> string \<times> string) list, 's, (string \<times> string \<times> int) list, nat) server_state"

definition sample_server ::
    "'s StateStorage \<Rightarrow> (StackDeployScheduler, nat) run_env
     \<Rightarrow> (Stack, (string \<times> string \<times> string) list, 's, (string \<times> string \<times> int) list, nat) server" where
  "sample_server SS env =
     \<lparr>api = [], globals = [], stackStorage = CassandraStore sample_codec list_session 2,
      stateStorage = SS, userStorage = CassandraUserStorage list_users, cron = sample_cron,
      codec = sample_http, update_mesos = (\<lambda>ms. (ms, Ok ())), deployment = (\<lambda>q st. env)\<rparr>"

definition sample_server_state :: "'s \<Rightarrow> 's sample_state" where
  "sample_server_state s =
     \<lparr>sv_stacks = sample_rows, sv_states = s, sv_users = [(''ann'', sha ''k'', UserAdmin)],
      sv_scheduler = new_scheduler, sv_cron = 0\<rparr>"

lemma sample_fields:
  "userStorage (sample_server SS env) = CassandraUserStorage list_users"
  "codec (sample_server SS env) = sample_http" "stateStorage (sample_server SS env) = SS"
  "stackStorage (sample_server SS env) = CassandraStore sample_codec list_session 2"
  "deployment (sample_server SS env) = (\<lambda>q st. env)"
  by (simp_all add: sample_server_def)

lemma sample_users: "map_of (sv_users (sample_server_state s)) = [''ann'' \<mapsto> (sha ''k'', UserAdmin)]"
  by (simp add: sample_server_state_def)

theorem unauthenticated_refused_witness:
  "\<exists>res. serve (sample_server InMemoryStateStorage silent_env)
     \<lparr>req_path = ''/list'', req_user = ''bob'', req_key = [], req_body = []\<rparr> (sample_server_state NewInMemoryStateStorage) =
     Some (res, sample_server_state NewInMemoryStateStorage)"
proof -
  let ?ts = "sample_server InMemoryStateStorage silent_env"
  let ?r = "\<lparr>req_path = ''/list'', req_user = ''bob'', req_key = [], req_body = []\<rparr>"
  have "\<not> is_ok (us_CheckKey (userStorage ?ts) (req_user ?r) (req_key ?r) (sv_users (sample_server_state NewInMemoryStateStorage)))"
    unfolding sample_fields CassandraUserStorage_def
    by (simp add: unknown_user(1) [OF list_users_laws(1)] sample_users)
  then have "us_CheckKey (userStorage ?ts) (req_user ?r) (req_key ?r) (sv_users (sample_server_state NewInMemoryStateStorage)) \<noteq> Ok True"
    by (metis is_ok.simps(1))
  from unauthenticated_refused [OF _ this] show ?thesis by fastforce
qed

theorem users_changed_by_admins_only_witness:
  "us_IsAdmin (CassandraUserStorage list_users) ''ann'' [(''ann'', sha ''k'', UserAdmin)] = Ok True"
proof -
  let ?ts = "sample_server InMemoryStateStorage silent_env"
  let ?r = "\<lparr>req_path = ''/createuser'', req_user = ''ann'', req_key = ''k'', req_body = ''bob''\<rparr>"
  let ?st = "sample_server_state NewInMemoryStateStorage"
  have ann: "map_of (sv_users ?st) ''ann'' = Some (sha ''k'', UserAdmin)" by (simp add: sample_users)
  have "us_CheckKey (userStorage ?ts) (req_user ?r) (req_key ?r) (sv_users ?st) = Ok True"
    "us_IsAdmin (userStorage ?ts) (req_user ?r) (sv_users ?st) = Ok True"
    using known_user [OF list_users_laws(1) ann]
    by (simp_all add: sample_fields CassandraUserStorage_def)
  note ok = this
  have "CreateUser list_users ''bob'' UserRegular (sv_users ?st) =
      (Ok (show_nat 1), AList.update ''bob'' (sha (show_nat 1), UserRegular) (sv_users ?st))"
    using list_users_create [of "sv_users ?st" "''bob''" UserRegular]
    by (simp add: sample_users) (simp add: sample_server_state_def)
  then have "\<exists>res. serve ?ts ?r ?st = Some (res, ?st\<lparr>sv_users :=
      AList.update ''bob'' (sha (show_nat 1), UserRegular) (sv_users ?st)\<rparr>)"
    using ok
    by (simp add: serve_def routes_def Auth_admits [OF ok(1)])
       (simp add: Admin_def or_fail_def pure_call_def CreateUserHandler_def User_UnmarshalJSON_def
         sample_fields sample_http_def on_users_def respond_def CassandraUserStorage_def)
  then obtain res where "serve ?ts ?r ?st = Some (res, ?st\<lparr>sv_users :=
      AList.update ''bob'' (sha (show_nat 1), UserRegular) (sv_users ?st)\<rparr>)" by blast
  note changed = users_changed_by_admins_only [OF this]
  have "sv_users (?st\<lparr>sv_users := AList.update ''bob'' (sha (show_nat 1), UserRegular) (sv_users ?st)\<rparr>)
      \<noteq> sv_users ?st" by (simp add: sample_server_state_def)
  with changed show ?thesis by (simp add: sample_fields sample_server_state_def)
qed

definition sample_request :: RunRequest where
  "sample_request = \<lparr>run_Name = ''base'', run_Zone = [], MaxWait = 0, run_Variables = None, SkipApplications = []\<rparr>"

text \<open>A server whose stored stack has the applications of the sample stack, and its state.\<close>

definition running_store :: "(Stack, (string \<times> string \<times> string) list) StackStore" where
  "running_store =
     CassandraStore (sample_codec\<lparr>decode_apps := (\<lambda>a. Ok (Applications sample_stack))\<rparr>) list_session 2"

definition running_server ::
    "(Stack, (string \<times> string \<times> string) list, state_map, (string \<times> string \<times> int) list, nat) server" where
  "running_server = (sample_server InMemoryStateStorage sample_run_env)\<lparr>stackStorage := running_store\<rparr>"

definition running_state :: "state_map sample_state" where
  "running_state =
     \<lparr>sv_stacks = sample_rows, sv_states = NewInMemoryStateStorage, sv_users = [],
      sv_scheduler = new_scheduler, sv_cron = 0\<rparr>"

definition running_stack :: Stack where
  "running_stack = empty_stack\<lparr>Name := ''base'', Applications := Applications sample_stack\<rparr>"

definition staged_states :: state_map where
  "staged_states = snd (mem_SaveStackStatus ''base'' [] StackStatusStaging NewInMemoryStateStorage)"

lemma running_select:
  "stackStorage ts = running_store \<Longrightarrow> sv_stacks st = sample_rows \<Longrightarrow>
     select_runner ts sample_request st = Some (Ok running_stack, st)"
  by (simp add: select_runner_def seq_call_def on_stacks_def running_store_def sample_request_def
      CassandraStore_def list_session_def sample_rows_def eval_nat_numeral running_stack_def sample_codec_def)

lemma running_fields:
  "stateStorage running_server = InMemoryStateStorage"
  "select_runner running_server sample_request running_state = Some (Ok running_stack, running_state)"
  "mem_SaveStackStatus ''base'' [] StackStatusStaging (sv_states running_state) = (Ok (), staged_states)"
proof -
  show "stateStorage running_server = InMemoryStateStorage"
    by (simp add: running_server_def sample_fields)
  show "select_runner running_server sample_request running_state = Some (Ok running_stack, running_state)"
    by (rule running_select) (simp_all add: running_server_def running_state_def)
  have "fst (mem_SaveStackStatus ''base'' [] StackStatusStaging NewInMemoryStateStorage) = Ok ()" by code_simp
  then show "mem_SaveStackStatus ''base'' [] StackStatusStaging (sv_states running_state) = (Ok (), staged_states)"
    by (simp add: running_state_def staged_states_def prod_eq_iff)
qed

lemma running_deployment:
  "\<exists>st3. run_merged running_server sample_request running_stack NewVariables
     (running_state\<lparr>sv_states := staged_states\<rparr>) = Some (Ok (), st3)"
proof -
  have "map_option fst (execute_stack InMemoryStateStorage (sample_run_env :: (StackDeployScheduler, nat) run_env) []
      ''base'' [] running_stack NewVariables staged_states) = Some (Ok ())"
    by code_simp
  then show ?thesis
    by (auto simp: run_merged_def Let_def running_server_def sample_server_def sample_request_def
        running_store_def CassandraStore_def)
qed

theorem development_runs_fail_witness:
  "\<exists>st3 r st'. run_merged running_server sample_request running_stack NewVariables
       (running_state\<lparr>sv_states := staged_states\<rparr>) = Some (Ok (), st3) \<and>
     runStack running_server sample_request NewVariables running_state = Some (r, st') \<and>
     r = Err ErrStackStateExists"
proof -
  obtain st3 where run: "run_merged running_server sample_request running_stack NewVariables
      (running_state\<lparr>sv_states := staged_states\<rparr>) = Some (Ok (), st3)"
    using running_deployment by blast
  have stage: "mem_SaveStackStatus (run_Name sample_request) (run_Zone sample_request) StackStatusStaging
      (sv_states running_state) = (Ok (), staged_states)"
    using running_fields(3) by (simp add: sample_request_def)
  then have "\<exists>r st'. runStack running_server sample_request NewVariables running_state = Some (r, st')"
    using run by (simp add: runStack_def seq_call_def on_states_def running_fields record_outcome_def
        InMemoryStateStorage_def split: prod.split)
  then obtain r st' where r: "runStack running_server sample_request NewVariables running_state = Some (r, st')"
    by blast
  from development_runs_fail [OF running_fields(1) r] running_fields(2) stage run
  have "r = Err ErrStackStateExists" by blast
  with r run show ?thesis by blast
qed

theorem run_status_recorded_witness:
  "\<exists>st'. runStack ((sample_server (CassandraStateStorage table_session) silent_env)\<lparr>stackStorage := running_store\<rparr>)
       sample_request NewVariables
       (sample_server_state \<lparr>status_table = [], application_table = [], variable_table = []\<rparr>) = Some (Err ''e'', st') \<and>
     status_rows (table_rows (sv_states st')) (''base'', []) = Some StackStatusFailed"
proof -
  let ?ts = "(sample_server (CassandraStateStorage table_session) silent_env)\<lparr>stackStorage := running_store\<rparr>"
  let ?st = "sample_server_state \<lparr>status_table = [], application_table = [], variable_table = []\<rparr>"
  have sel: "select_runner ?ts sample_request ?st = Some (Ok running_stack, ?st)"
    by (rule running_select) (simp_all add: sample_server_state_def)
  have ins: "fst (insert_stack_state table_session sz x c) = Ok ()" for sz x c
    by (simp add: table_session_def)
  have "Stack_Validate literal_regexp (\<lambda>_. False) running_stack = Ok ()" by code_simp
  then have "execute_stack SS (silent_env :: (StackDeployScheduler, nat) run_env) [] n z running_stack vs store =
      Some (Err ''e'', store)" for SS n z vs and store :: state_tables
    by (simp add: execute_stack_def Stack_Run_def silent_env_def sample_run_env_def)
  then have "\<exists>st'. runStack ?ts sample_request NewVariables ?st = Some (Err ''e'', st')"
    using sel by (simp add: runStack_def seq_call_def on_states_def record_outcome_def sample_fields run_merged_def
        running_store_def CassandraStore_def sample_request_def
        CassandraStateStorage_def cas_SaveStackStatus_def table_session_def split: prod.split)
  then obtain st' where r: "runStack ?ts sample_request NewVariables ?st = Some (Err ''e'', st')" by blast
  have "stateStorage ?ts = CassandraStateStorage table_session" by (simp add: sample_fields)
  from run_status_recorded [OF this table_session_laws(1) ins r sel] r show ?thesis
    by (auto simp: sample_request_def)
qed

end
