(* ===== verification/Client.thy ===== *)
theory Client
  imports Server
begin

text \<open>
  The HTTP client (src/framework/client.go): the requests of the command line, and their
  composition with the server.  The HTTP exchange and the codecs are parameters.
\<close>

section \<open>Requests\<close>

record Client =
  client_host :: string
  client_user :: string
  client_key :: string

text \<open>\<open>getenv\<close> reads the environment of the process.\<close>

definition NewClient :: "(string \<Rightarrow> string) \<Rightarrow> string \<Rightarrow> Client" where
  "NewClient getenv address =
     (let h = (if \<not> HasPrefix address ''http://'' then ''http://'' @ address else address);
          h = (if HasSuffix h ''/'' then take (length h - 1) h else h)
      in \<lparr>client_host = h, client_user = getenv ''SD_USER'', client_key = getenv ''SD_KEY''\<rparr>)"

text \<open>The data of a request is its JSON text, or the error of the encoder.\<close>

record apiRequest =
  url :: string
  data :: "string result"

text \<open>\<open>post url user key body\<close> is the exchange: the status and the body of the response,
  or an error. \<open>None\<close> is an exchange that never ends.\<close>

type_synonym 'w transport =
  "string \<Rightarrow> string \<Rightarrow> string \<Rightarrow> string \<Rightarrow> 'w \<Rightarrow> ((int \<times> string) result \<times> 'w) option"

definition api_request ::
    "'w transport \<Rightarrow> Client \<Rightarrow> apiRequest \<Rightarrow> 'w \<Rightarrow> (string result \<times> 'w) option" where
  "api_request post c request w =
     (case data request of
        Err e \<Rightarrow> Some (Err e, w)
      | Panic e \<Rightarrow> Some (Panic e, w)
      | Ok jsonData \<Rightarrow>
          (case post (client_host c @ url request) (client_user c) (client_key c) jsonData w of
             None \<Rightarrow> None
           | Some (Err e, w') \<Rightarrow> Some (Err e, w')
           | Some (Panic e, w') \<Rightarrow> Some (Panic e, w')
           | Some (Ok (statusCode, content), w') \<Rightarrow>
               if statusCode \<noteq> 200 then Some (Err content, w') else Some (Ok content, w')))"

text \<open>A request whose response is decoded by \<open>f\<close>.\<close>

definition request_then ::
    "'w transport \<Rightarrow> Client \<Rightarrow> string \<Rightarrow> string result \<Rightarrow> (string \<Rightarrow> 'a result) \<Rightarrow> 'w
     \<Rightarrow> ('a result \<times> 'w) option" where
  "request_then post c path d f w =
     map_option (\<lambda>(r, w'). (and_then r f, w')) (api_request post c \<lparr>url = path, data = d\<rparr> w)"

record client_codec =
  encode_empty :: "string result"
  encode_get_request :: "GetStackRequest \<Rightarrow> string result"
  encode_run_request :: "RunRequest \<Rightarrow> string result"
  encode_create_request :: "CreateStackRequest \<Rightarrow> string result"
  encode_layer_request :: "CreateLayerRequest \<Rightarrow> string result"
  encode_remove_request :: "RemoveStackRequest \<Rightarrow> string result"
  encode_user_request :: "CreateUserRequest \<Rightarrow> string result"
  encode_token_request :: "RefreshTokenRequest \<Rightarrow> string result"
  encode_scheduled_request :: "RemoveScheduledRequest \<Rightarrow> string result"
  decode_names :: "string \<Rightarrow> string list result"
  decode_yaml_stack :: "string \<Rightarrow> Stack option result"
  decode_tasks :: "string \<Rightarrow> ScheduledTask list result"

section \<open>Methods\<close>

text \<open>The result of \<open>Ping\<close> is the line it prints.\<close>

definition Ping :: "client_codec \<Rightarrow> 'w transport \<Rightarrow> Client \<Rightarrow> 'w \<Rightarrow> (string result \<times> 'w) option" where
  "Ping J post c = request_then post c ''/health'' (encode_empty J) (\<lambda>_. Ok ''Pong'')"

definition client_List :: "client_codec \<Rightarrow> 'w transport \<Rightarrow> Client \<Rightarrow> 'w \<Rightarrow> (string list result \<times> 'w) option" where
  "client_List J post c = request_then post c ''/list'' (encode_empty J) (decode_names J)"

definition client_GetStack ::
    "client_codec \<Rightarrow> 'w transport \<Rightarrow> Client \<Rightarrow> GetStackRequest \<Rightarrow> 'w \<Rightarrow> (Stack option result \<times> 'w) option" where
  "client_GetStack J post c d = request_then post c ''/get'' (encode_get_request J d) (decode_yaml_stack J)"

definition client_Run ::
    "client_codec \<Rightarrow> 'w transport \<Rightarrow> Client \<Rightarrow> RunRequest \<Rightarrow> 'w \<Rightarrow> (unit result \<times> 'w) option" where
  "client_Run J post c d = request_then post c ''/run'' (encode_run_request J d) (\<lambda>_. Ok ())"

definition client_CreateStack ::
    "client_codec \<Rightarrow> 'w transport \<Rightarrow> Client \<Rightarrow> CreateStackRequest \<Rightarrow> 'w \<Rightarrow> (unit result \<times> 'w) option" where
  "client_CreateStack J post c d = request_then post c ''/createstack'' (encode_create_request J d) (\<lambda>_. Ok ())"

definition client_CreateLayer ::
    "client_codec \<Rightarrow> 'w transport \<Rightarrow> Client \<Rightarrow> CreateLayerRequest \<Rightarrow> 'w \<Rightarrow> (unit result \<times> 'w) option" where
  "client_CreateLayer J post c d = request_then post c ''/createlayer'' (encode_layer_request J d) (\<lambda>_. Ok ())"

definition client_RemoveStack ::
    "client_codec \<Rightarrow> 'w transport \<Rightarrow> Client \<Rightarrow> RemoveStackRequest \<Rightarrow> 'w \<Rightarrow> (unit result \<times> 'w) option" where
  "client_RemoveStack J post c d = request_then post c ''/removestack'' (encode_remove_request J d) (\<lambda>_. Ok ())"

definition client_CreateUser ::
    "client_codec \<Rightarrow> 'w transport \<Rightarrow> Client \<Rightarrow> CreateUserRequest \<Rightarrow> 'w \<Rightarrow> (string result \<times> 'w) option" where
  "client_CreateUser J post c d = request_then post c ''/createuser'' (encode_user_request J d) Ok"

definition client_RefreshToken ::
    "client_codec \<Rightarrow> 'w transport \<Rightarrow> Client \<Rightarrow> RefreshTokenRequest \<Rightarrow> 'w \<Rightarrow> (string result \<times> 'w) option" where
  "client_RefreshToken J post c d = request_then post c ''/refreshtoken'' (encode_token_request J d) Ok"

definition Scheduled ::
    "client_codec \<Rightarrow> 'w transport \<Rightarrow> Client \<Rightarrow> 'w \<Rightarrow> (ScheduledTask list result \<times> 'w) option" where
  "Scheduled J post c = request_then post c ''/scheduled'' (encode_empty J) (decode_tasks J)"

definition client_RemoveScheduled ::
    "client_codec \<Rightarrow> 'w transport \<Rightarrow> Client \<Rightarrow> RemoveScheduledRequest \<Rightarrow> 'w \<Rightarrow> (string result \<times> 'w) option" where
  "client_RemoveScheduled J post c d =
     request_then post c ''/scheduled/delete'' (encode_scheduled_request J d) Ok"

section \<open>Client and server\<close>

text \<open>The exchange with a server at the address of the client; an aborted connection is an
  error.\<close>

definition exchange ::
    "('p, 'w, 's, 'u, 'c) server \<Rightarrow> string \<Rightarrow> ('w, 's, 'u, 'c) server_state transport" where
  "exchange ts address u user key body st =
     map_option (\<lambda>(r, st').
         (case r of
            Ok w \<Rightarrow> Ok (status_of w, w_body w)
          | Err e \<Rightarrow> Err e
          | Panic e \<Rightarrow> Err ''EOF'', st'))
       (serve ts \<lparr>req_path = drop (length address) u, req_user = user, req_key = key, req_body = body\<rparr> st)"

text \<open>The JSON encoder of the client and the decoder of the server agree on the members of
  a user.\<close>

definition user_json_law :: "client_codec \<Rightarrow> http_codec \<Rightarrow> bool" where
  "user_json_law J H \<longleftrightarrow>
     (\<forall>d js. encode_user_request J d = Ok js \<longrightarrow> decode_user_fields H js = Ok (cu_Name d, [], cu_Role d)) \<and>
     (\<forall>d js. encode_token_request J d = Ok js \<longrightarrow> decode_user_fields H js = Ok (rt_Name d, [], []))"

definition role_of :: "string \<Rightarrow> UserRole" where
  "role_of role = (if role = ''admin'' then UserAdmin else UserRegular)"

lemma serve_admin:
  assumes "us_CheckKey (userStorage ts) u k (sv_users st) = Ok True"
    and "us_IsAdmin (userStorage ts) u (sv_users st) = Ok True"
  shows "serve ts \<lparr>req_path = ''/createuser'', req_user = u, req_key = k, req_body = b\<rparr> st =
      CreateUserHandler ts \<lparr>req_path = ''/createuser'', req_user = u, req_key = k, req_body = b\<rparr> new_writer st"
    and "serve ts \<lparr>req_path = ''/refreshtoken'', req_user = u, req_key = k, req_body = b\<rparr> st =
      RefreshTokenHandler ts \<lparr>req_path = ''/refreshtoken'', req_user = u, req_key = k, req_body = b\<rparr> new_writer st"
  using assms by (simp_all add: serve_def routes_def Auth_def Admin_def or_fail_def pure_call_def)

text \<open>Creating a user through the client. The server creates the user and answers
  with status 201, which the client takes for a failure: it returns the new key as the
  text of an error.\<close>
theorem client_CreateUser_misreported:
  assumes "us_CheckKey (userStorage ts) (client_user c) (client_key c) (sv_users st) = Ok True"
    and "us_IsAdmin (userStorage ts) (client_user c) (sv_users st) = Ok True"
    and "user_json_law J (codec ts)" and "encode_user_request J d = Ok js"
    and "us_CreateUser (userStorage ts) (cu_Name d) (role_of (cu_Role d)) (sv_users st) = (Ok key, u')"
  shows "client_CreateUser J (exchange ts (client_host c)) c d st = Some (Err key, st\<lparr>sv_users := u'\<rparr>)"
proof -
  have "decode_user_fields (codec ts) js = Ok (cu_Name d, [], cu_Role d)"
    using assms(3,4) by (simp add: user_json_law_def)
  with assms show ?thesis
    by (simp add: client_CreateUser_def request_then_def api_request_def exchange_def serve_admin
        CreateUserHandler_def or_fail_def pure_call_def User_UnmarshalJSON_def on_users_def respond_def
        role_of_def WriteHeader_def Write_def status_of_def new_writer_def Let_def)
qed

lemma client_RefreshToken_Ok:
  assumes "us_CheckKey (userStorage ts) (client_user c) (client_key c) (sv_users st) = Ok True"
    and "us_IsAdmin (userStorage ts) (client_user c) (sv_users st) = Ok True"
    and "user_json_law J (codec ts)" and "encode_token_request J d = Ok js"
    and "us_RefreshToken (userStorage ts) (rt_Name d) (sv_users st) = (Ok key, u')"
  shows "client_RefreshToken J (exchange ts (client_host c)) c d st = Some (Ok key, st\<lparr>sv_users := u'\<rparr>)"
proof -
  have "decode_user_fields (codec ts) js = Ok (rt_Name d, [], [])"
    using assms(3,4) by (simp add: user_json_law_def)
  with assms show ?thesis
    by (simp add: client_RefreshToken_def request_then_def api_request_def exchange_def serve_admin
        RefreshTokenHandler_def or_fail_def pure_call_def User_UnmarshalJSON_def on_users_def respond_def
        WriteHeader_def Write_def status_of_def new_writer_def Let_def)
qed

lemma Auth_wrong_key:
  assumes "us_CheckKey (userStorage ts) (req_user r) (req_key r) (sv_users st) = Ok False"
  shows "Auth ts h r new_writer st = Some (Ok (http_Error ''Unauthorized'' 403 new_writer), st)"
  using assms by (simp add: Auth_def or_fail_def pure_call_def respond_def)

text \<open>C20: Refreshing a token through the client, end to end with the Cassandra user storage:
  the client gets the new key, the server lets in every later request of that user with it,
  and refuses every request with a key of another digest, such as the old one, with 403 and
  without changing anything.\<close>
theorem refreshed_key_admits:
  assumes "user_reads S users" and "user_writes S users" and "userStorage ts = CassandraUserStorage S"
    and "us_CheckKey (userStorage ts) (client_user c) (client_key c) (sv_users st) = Ok True"
    and "us_IsAdmin (userStorage ts) (client_user c) (sv_users st) = Ok True"
    and "user_json_law J (codec ts)" and "encode_token_request J d = Ok js"
    and "us_RefreshToken (userStorage ts) (rt_Name d) (sv_users st) = (Ok key, u')"
  shows "\<exists>st'. client_RefreshToken J (exchange ts (client_host c)) c d st = Some (Ok key, st') \<and>
    Auth ts h \<lparr>req_path = p, req_user = rt_Name d, req_key = key, req_body = b\<rparr> w st' =
      h \<lparr>req_path = p, req_user = rt_Name d, req_key = key, req_body = b\<rparr> w st' \<and>
    (\<forall>old. sha old \<noteq> sha key \<longrightarrow>
       Auth ts h \<lparr>req_path = p, req_user = rt_Name d, req_key = old, req_body = b\<rparr> new_writer st' =
         Some (Ok (http_Error ''Unauthorized'' 403 new_writer), st'))"
proof -
  let ?st = "st\<lparr>sv_users := u'\<rparr>"
  have "RefreshToken S (rt_Name d) (sv_users st) = (Ok key, u')"
    using assms(3,8) by (simp add: CassandraUserStorage_def)
  from RefreshToken_Ok [OF assms(1,2) this] obtain role where "users u' (rt_Name d) = Some (sha key, role)"
    by fastforce
  then have check: "us_CheckKey (userStorage ts) (rt_Name d) k u' = Ok (sha key = sha k)" for k
    using known_user(1) [OF assms(1)] by (simp add: assms(3) CassandraUserStorage_def)
  have "Auth ts h \<lparr>req_path = p, req_user = rt_Name d, req_key = key, req_body = b\<rparr> w ?st =
      h \<lparr>req_path = p, req_user = rt_Name d, req_key = key, req_body = b\<rparr> w ?st"
    by (intro Auth_admits) (simp add: check)
  moreover have "Auth ts h \<lparr>req_path = p, req_user = rt_Name d, req_key = old, req_body = b\<rparr> new_writer ?st =
      Some (Ok (http_Error ''Unauthorized'' 403 new_writer), ?st)" if "sha old \<noteq> sha key" for old
    using that by (intro Auth_wrong_key) (simp add: check)
  ultimately show ?thesis using client_RefreshToken_Ok [OF assms(4-8)] by blast
qed

section \<open>Witnesses\<close>

definition sample_json :: client_codec where
  "sample_json =
     \<lparr>encode_empty = Ok [], encode_get_request = (\<lambda>d. Ok (get_Name d)), encode_run_request = (\<lambda>d. Ok (run_Name d)),
      encode_create_request = (\<lambda>d. Ok (Stackfile d)), encode_layer_request = (\<lambda>d. Ok (layer_Stackfile d)),
      encode_remove_request = (\<lambda>d. Ok (remove_Name d)),
      encode_user_request = (\<lambda>d. if cu_Role d = [] then Ok (cu_Name d) else Err ''unsupported''),
      encode_token_request = (\<lambda>d. Ok (rt_Name d)), encode_scheduled_request = (\<lambda>d. Ok []),
      decode_names = (\<lambda>b. Ok []), decode_yaml_stack = (\<lambda>b. Ok None), decode_tasks = (\<lambda>b. Ok [])\<rparr>"

definition ann :: Client where
  "ann = \<lparr>client_host = ''http://h'', client_user = ''ann'', client_key = ''k''\<rparr>"

abbreviation dev_server ::
    "(Stack, (string \<times> string \<times> string) list, state_map, (string \<times> string \<times> int) list, nat) server" where
  "dev_server \<equiv> sample_server InMemoryStateStorage sample_run_env"

lemma sample_json_law: "user_json_law sample_json (codec ts)" if "codec ts = sample_http"
  using that by (auto simp: user_json_law_def sample_json_def sample_http_def split: if_splits)

lemma ann_admin:
  "us_CheckKey (userStorage dev_server) (client_user ann) (client_key ann)
     (sv_users (sample_server_state NewInMemoryStateStorage)) = Ok True"
  "us_IsAdmin (userStorage dev_server) (client_user ann)
     (sv_users (sample_server_state NewInMemoryStateStorage)) = Ok True"
  using known_user [OF list_users_laws(1), of "sv_users (sample_server_state NewInMemoryStateStorage)" "''ann''"]
  by (simp_all add: sample_fields CassandraUserStorage_def ann_def sample_users)

theorem client_CreateUser_misreported_witness:
  "\<exists>st'. client_CreateUser sample_json (exchange dev_server (client_host ann)) ann
     \<lparr>cu_Name = ''bob'', cu_Role = []\<rparr> (sample_server_state NewInMemoryStateStorage) = Some (Err (show_nat 1), st')"
proof -
  let ?st = "sample_server_state NewInMemoryStateStorage" and ?d = "\<lparr>cu_Name = ''bob'', cu_Role = []\<rparr>"
  have "us_CreateUser (userStorage dev_server) (cu_Name ?d) (role_of (cu_Role ?d)) (sv_users ?st) =
      (Ok (show_nat 1), AList.update ''bob'' (sha (show_nat 1), UserRegular) (sv_users ?st))"
    using list_users_create [of "sv_users ?st" "''bob''" UserRegular]
    by (simp add: sample_users sample_fields CassandraUserStorage_def role_of_def)
       (simp add: sample_server_state_def)
  from client_CreateUser_misreported [OF ann_admin sample_json_law [OF sample_fields(2)] _ this]
  show ?thesis by (simp add: sample_json_def)
qed

theorem refreshed_key_admits_witness:
  "\<exists>st'. client_RefreshToken sample_json (exchange dev_server (client_host ann)) ann
     \<lparr>rt_Name = ''ann''\<rparr> (sample_server_state NewInMemoryStateStorage) = Some (Ok (show_nat 1), st')"
proof -
  let ?st = "sample_server_state NewInMemoryStateStorage" and ?d = "\<lparr>rt_Name = ''ann''\<rparr>"
  have "us_RefreshToken (userStorage dev_server) (rt_Name ?d) (sv_users ?st) =
      (Ok (show_nat 1), AList.update ''ann'' (sha (show_nat 1), UserAdmin) (sv_users ?st))"
    using list_users_refresh [of "sv_users ?st" "''ann''" "sha ''k''" UserAdmin]
    by (simp add: sample_users sample_fields CassandraUserStorage_def)
       (simp add: sample_server_state_def)
  from refreshed_key_admits [OF list_users_laws sample_fields(1) ann_admin sample_json_law [OF sample_fields(2)] _ this]
  show ?thesis by (simp add: sample_json_def) blast
qed

end
