(* ===== verification/Command.thy ===== *)
theory Command
  imports Client RunnersAwait
begin

text \<open>
  The command line (src/command, src/main.go): flags, the commands that send one request
  each, and the start of the server with its bootstrap.  The environment of the process,
  its files, the HTTP exchange and the packages the server is wired to are parameters.
  A command gives its exit code, what it prints and the world.
\<close>

section \<open>Flags\<close>

text \<open>A flag of Go's package \<open>flag\<close>: whether it is boolean, and which texts its \<open>Set\<close>
  accepts.  The flag sets exit with code 2 on any error.\<close>

record flag =
  is_bool :: bool
  accepts :: "string \<Rightarrow> bool"

definition flag_name :: "string \<Rightarrow> string" where
  "flag_name s = (if s ! 1 = CHR ''-'' then drop 2 s else drop 1 s)"

text \<open>A value after an equals sign, which is not the first character of the name.\<close>

definition split_flag :: "string \<Rightarrow> string \<times> string option" where
  "split_flag n =
     (case dropWhile (\<lambda>c. c \<noteq> CHR ''='') (tl n) of
        [] \<Rightarrow> (n, None)
      | _ # v \<Rightarrow> (hd n # takeWhile (\<lambda>c. c \<noteq> CHR ''='') (tl n), Some v))"

definition is_flag :: "string \<Rightarrow> bool" where
  "is_flag s \<longleftrightarrow> length s \<ge> 2 \<and> hd s = CHR ''-'' \<and> s \<noteq> ''--''"

definition bad_flag :: "string \<Rightarrow> bool" where
  "bad_flag n \<longleftrightarrow> n = [] \<or> hd n = CHR ''-'' \<or> hd n = CHR ''=''"

text \<open>The occurrences of flags with their values, in order; None is the exit.\<close>

fun parse_flags :: "(string \<times> flag) list \<Rightarrow> string list \<Rightarrow> (string \<times> string) list option" where
  "parse_flags spec [] = Some []"
| "parse_flags spec (s # args) =
     (if \<not> is_flag s then Some []
      else if bad_flag (flag_name s) then None
      else (case split_flag (flag_name s) of
        (n, v) \<Rightarrow>
          (case map_of spec n of
             None \<Rightarrow> None
           | Some f \<Rightarrow>
               if is_bool f
               then (let x = (case v of Some y \<Rightarrow> y | None \<Rightarrow> ''true'') in
                     if accepts f x then map_option (Cons (n, x)) (parse_flags spec args) else None)
               else (case v of
                       Some x \<Rightarrow>
                         if accepts f x then map_option (Cons (n, x)) (parse_flags spec args) else None
                     | None \<Rightarrow>
                         (case args of
                            [] \<Rightarrow> None
                          | x # args' \<Rightarrow>
                              if accepts f x then map_option (Cons (n, x)) (parse_flags spec args') else None)))))"

definition flag_values :: "(string \<times> string) list \<Rightarrow> string \<Rightarrow> string list" where
  "flag_values fs n = map snd (filter (\<lambda>p. fst p = n) fs)"

definition flag_value :: "(string \<times> string) list \<Rightarrow> string \<Rightarrow> string \<Rightarrow> string" where
  "flag_value fs n dflt = (case flag_values fs n of [] \<Rightarrow> dflt | vs \<Rightarrow> last vs)"

definition flag_bool :: "(string \<times> string) list \<Rightarrow> string \<Rightarrow> bool" where
  "flag_bool fs n \<longleftrightarrow> ParseBool (flag_value fs n ''false'') = Ok True"

text \<open>Integers in the bases Go reads: a leading 0x is hexadecimal, a leading 0 octal.\<close>

definition digit_of :: "char \<Rightarrow> nat option" where
  "digit_of c =
     (case digit_val c of
        Some d \<Rightarrow> Some d
      | None \<Rightarrow>
          (case IndexByte ''abcdef'' c of
             Some d \<Rightarrow> Some (10 + d)
           | None \<Rightarrow> map_option ((+) 10) (IndexByte ''ABCDEF'' c)))"

fun digits_in :: "nat \<Rightarrow> nat \<Rightarrow> string \<Rightarrow> nat option" where
  "digits_in base acc [] = Some acc"
| "digits_in base acc (c # s) =
     (case digit_of c of
        None \<Rightarrow> None
      | Some d \<Rightarrow> if d < base then digits_in base (base * acc + d) s else None)"

definition parse_unsigned :: "string \<Rightarrow> nat option" where
  "parse_unsigned s =
     (if s = [] then None
      else if length s > 2 \<and> (HasPrefix s ''0x'' \<or> HasPrefix s ''0X'') then digits_in 16 0 (drop 2 s)
      else if length s > 1 \<and> hd s = CHR ''0'' then digits_in 8 0 (tl s)
      else digits_in 10 0 s)"

definition ParseInt :: "string \<Rightarrow> int option" where
  "ParseInt s =
     (let neg = (s \<noteq> [] \<and> hd s = CHR ''-'');
          body = (if s \<noteq> [] \<and> (hd s = CHR ''-'' \<or> hd s = CHR ''+'') then tl s else s)
      in case parse_unsigned body of
           None \<Rightarrow> None
         | Some n \<Rightarrow>
             if neg then (if int n \<le> max_int + 1 then Some (- int n) else None)
             else (if int n \<le> max_int then Some (int n) else None))"

definition string_flag :: flag where
  "string_flag = \<lparr>is_bool = False, accepts = (\<lambda>s. True)\<rparr>"

definition int_flag :: flag where
  "int_flag = \<lparr>is_bool = False, accepts = (\<lambda>s. ParseInt s \<noteq> None)\<rparr>"

definition bool_flag :: flag where
  "bool_flag = \<lparr>is_bool = True, accepts = (\<lambda>s. is_ok (ParseBool s))\<rparr>"

definition flag_int :: "(string \<times> string) list \<Rightarrow> string \<Rightarrow> int \<Rightarrow> int" where
  "flag_int fs n dflt =
     (case flag_values fs n of
        [] \<Rightarrow> dflt
      | vs \<Rightarrow> (case ParseInt (last vs) of Some i \<Rightarrow> i | None \<Rightarrow> dflt))"

section \<open>Variables and skipped applications\<close>

definition vars_Set :: "string \<Rightarrow> (string \<times> string) list \<Rightarrow> (string \<times> string) list result" where
  "vars_Set s v =
     (let kv = SplitN2 s (CHR ''='') in
      if length kv \<noteq> 2 then Err ''Variables are expected in k=v format.''
      else Ok (AList.update (kv ! 0) (kv ! 1) v))"

definition vars_flag :: flag where
  "vars_flag = \<lparr>is_bool = False, accepts = (\<lambda>s. is_ok (vars_Set s []))\<rparr>"

fun vars_of :: "string list \<Rightarrow> (string \<times> string) list \<Rightarrow> (string \<times> string) list" where
  "vars_of [] v = v"
| "vars_of (s # ss) v = vars_of ss (case vars_Set s v of Ok v' \<Rightarrow> v' | _ \<Rightarrow> v)"

definition skip_Set :: "regexp \<Rightarrow> string \<Rightarrow> string list \<Rightarrow> string list result" where
  "skip_Set rx s skips = (case Compile rx s of Some e \<Rightarrow> Err e | None \<Rightarrow> Ok (skips @ [s]))"

definition skip_flag :: "regexp \<Rightarrow> flag" where
  "skip_flag rx = \<lparr>is_bool = False, accepts = (\<lambda>s. is_ok (skip_Set rx s []))\<rparr>"

section \<open>The client commands\<close>

record 'w process =
  getenv :: "string \<Rightarrow> string"
  read_file :: "string \<Rightarrow> 'w \<Rightarrow> string result"
  post :: "'w transport"
  client_json :: client_codec
  process_regexps :: regexp
  show_stack :: "Stack option \<Rightarrow> string"
  elapsed :: "'w \<Rightarrow> 'w \<Rightarrow> string"

type_synonym 'w exit = "(int \<times> string \<times> 'w) option"

definition newline :: string where
  "newline = [CHR 0x0A]"

definition resolveApi :: "'w process \<Rightarrow> string \<Rightarrow> string result" where
  "resolveApi P address =
     (if address \<noteq> [] then Ok address
      else if getenv P ''SD_API'' \<noteq> [] then Ok (getenv P ''SD_API'')
      else Err ''Undefined API url. Please provide either a CLI --api option or SD_API env.'')"

definition printed_error :: "string \<Rightarrow> error \<Rightarrow> 'w \<Rightarrow> 'w exit" where
  "printed_error what e w = Some (1, what @ '': '' @ e @ newline, w)"

text \<open>The frame of a client command: its flags, the client, and the rest.\<close>

definition client_command ::
    "'w process \<Rightarrow> (string \<times> flag) list \<Rightarrow> string \<Rightarrow> string list
     \<Rightarrow> ((string \<times> string) list \<Rightarrow> Client \<Rightarrow> 'w \<Rightarrow> 'w exit) \<Rightarrow> 'w \<Rightarrow> 'w exit" where
  "client_command P spec what args body w =
     (case parse_flags ((''api'', string_flag) # spec) args of
        None \<Rightarrow> Some (2, [], w)
      | Some fs \<Rightarrow>
          (case resolveApi P (flag_value fs ''api'' []) of
             Ok address \<Rightarrow> body fs (NewClient (getenv P) address) w
           | Err e \<Rightarrow> printed_error what e w
           | Panic e \<Rightarrow> Some (2, [], w)))"

text \<open>The answer of the server: an error is printed, a panic ends the process.\<close>

definition answered :: "string \<Rightarrow> ('a \<Rightarrow> 'w \<Rightarrow> string) \<Rightarrow> ('a result \<times> 'w) option \<Rightarrow> 'w exit" where
  "answered what print r =
     (case r of
        None \<Rightarrow> None
      | Some (Ok x, w) \<Rightarrow> Some (0, print x w, w)
      | Some (Err e, w) \<Rightarrow> printed_error what e w
      | Some (Panic e, w) \<Rightarrow> Some (2, [], w))"

definition printing :: "string \<Rightarrow> 'w exit \<Rightarrow> 'w exit" where
  "printing s r = map_option (\<lambda>(code, out, w). (code, s @ out, w)) r"

definition PingCommand :: "'w process \<Rightarrow> string list \<Rightarrow> 'w \<Rightarrow> 'w exit" where
  "PingCommand P args =
     client_command P [] ''ERROR'' args (\<lambda>fs c w.
       answered ''ERROR'' (\<lambda>line _. line @ newline) (Ping (client_json P) (post P) c w))"

definition ListCommand :: "'w process \<Rightarrow> string list \<Rightarrow> 'w \<Rightarrow> 'w exit" where
  "ListCommand P args =
     client_command P [] ''ERROR'' args (\<lambda>fs c w.
       answered ''ERROR getting list'' (\<lambda>stacks _. Join stacks newline @ newline)
         (client_List (client_json P) (post P) c w))"

definition ShowCommand :: "'w process \<Rightarrow> string list \<Rightarrow> 'w \<Rightarrow> 'w exit" where
  "ShowCommand P args w =
     (case args of
        [] \<Rightarrow> Some (1, ''Stack name required to show'' @ newline, w)
      | name # rest \<Rightarrow>
          client_command P [] ''ERROR'' rest (\<lambda>fs c w.
            answered ''ERROR'' (\<lambda>stack _. show_stack P stack @ newline)
              (client_GetStack (client_json P) (post P) c \<lparr>get_Name = name\<rparr> w)) w)"

definition run_flags :: "'w process \<Rightarrow> (string \<times> flag) list" where
  "run_flags P = [(''zone'', string_flag), (''max.wait'', int_flag), (''var'', vars_flag),
                  (''skip'', skip_flag (process_regexps P))]"

definition defaultApplicationMaxWait :: int where
  "defaultApplicationMaxWait = 600"

definition RunCommand :: "'w process \<Rightarrow> string list \<Rightarrow> 'w \<Rightarrow> 'w exit" where
  "RunCommand P args w =
     (case args of
        [] \<Rightarrow> Some (1, ''Stack name required to run'' @ newline, w)
      | name # rest \<Rightarrow>
          client_command P (run_flags P) ''ERROR resolving API'' rest (\<lambda>fs c w.
            printing (''Running stack '' @ name @ newline)
              (answered ''ERROR running client request'' (\<lambda>_ w'. ''Done in '' @ elapsed P w w' @ newline)
                (client_Run (client_json P) (post P) c
                  \<lparr>run_Name = name, run_Zone = flag_value fs ''zone'' [],
                   MaxWait = flag_int fs ''max.wait'' defaultApplicationMaxWait,
                   run_Variables = Some (vars_of (flag_values fs ''var'') []),
                   SkipApplications = flag_values fs ''skip''\<rparr> w))) w)"

text \<open>The stack file is read before the request.\<close>

definition with_file ::
    "'w process \<Rightarrow> string \<Rightarrow> (string \<Rightarrow> 'w \<Rightarrow> 'w exit) \<Rightarrow> 'w \<Rightarrow> 'w exit" where
  "with_file P file body w =
     (case read_file P file w of
        Ok content \<Rightarrow> body content w
      | _ \<Rightarrow> Some (1, ''Can't read file '' @ file @ newline, w))"

definition AddStackCommand :: "'w process \<Rightarrow> string list \<Rightarrow> 'w \<Rightarrow> 'w exit" where
  "AddStackCommand P args =
     client_command P [(''file'', string_flag)] ''ERROR'' args (\<lambda>fs c.
       with_file P (flag_value fs ''file'' ''Stackfile'') (\<lambda>stack w.
         answered ''ERROR'' (\<lambda>_ _. ''Stack added'' @ newline)
           (client_CreateStack (client_json P) (post P) c \<lparr>Stackfile = stack\<rparr> w)))"

definition AddLayerCommand :: "'w process \<Rightarrow> string list \<Rightarrow> 'w \<Rightarrow> 'w exit" where
  "AddLayerCommand P args =
     client_command P [(''file'', string_flag), (''level'', string_flag), (''parent'', string_flag)]
       ''ERROR'' args (\<lambda>fs c.
       with_file P (flag_value fs ''file'' ''Stackfile'') (\<lambda>stack w.
         answered ''ERROR'' (\<lambda>_ _. ''Stack added'' @ newline)
           (client_CreateLayer (client_json P) (post P) c
              \<lparr>layer_Stackfile = stack, layer_Layer = flag_value fs ''level'' ''zone'',
               layer_Parent = flag_value fs ''parent'' []\<rparr> w)))"

definition RemoveStackCommand :: "'w process \<Rightarrow> string list \<Rightarrow> 'w \<Rightarrow> 'w exit" where
  "RemoveStackCommand P args w =
     (case args of
        [] \<Rightarrow> Some (1, ''Stack name required to remove'' @ newline, w)
      | name # rest \<Rightarrow>
          client_command P [(''force'', bool_flag)] ''ERROR'' rest (\<lambda>fs c w.
            printing (''Removing stack '' @ name @ newline)
              (answered ''ERROR'' (\<lambda>_ _. ''Stack removed'' @ newline)
                (client_RemoveStack (client_json P) (post P) c
                   \<lparr>remove_Name = name, remove_Force = flag_bool fs ''force''\<rparr> w))) w)"

definition AddUserCommand :: "'w process \<Rightarrow> string list \<Rightarrow> 'w \<Rightarrow> 'w exit" where
  "AddUserCommand P args =
     client_command P [(''name'', string_flag), (''admin'', bool_flag)] ''ERROR'' args (\<lambda>fs c w.
       answered ''ERROR'' (\<lambda>key _. ''User added. Key: '' @ key @ newline)
         (client_CreateUser (client_json P) (post P) c
            \<lparr>cu_Name = flag_value fs ''name'' [],
             cu_Role = (if flag_bool fs ''admin'' then ''admin'' else ''regular'')\<rparr> w))"

definition RefreshTokenCommand :: "'w process \<Rightarrow> string list \<Rightarrow> 'w \<Rightarrow> 'w exit" where
  "RefreshTokenCommand P args =
     client_command P [(''name'', string_flag)] ''ERROR'' args (\<lambda>fs c w.
       answered ''ERROR'' (\<lambda>key _. ''New key generated: '' @ key @ newline)
         (client_RefreshToken (client_json P) (post P) c \<lparr>rt_Name = flag_value fs ''name'' []\<rparr> w))"

definition show_scheduled :: "ScheduledTask \<Rightarrow> string" where
  "show_scheduled t =
     ''['' @ Itoa (ScheduledID t) @ ''] '' @ ScheduledName t @ newline @ [CHR 0x09] @ ''start: '' @
     quoted (ScheduledStartTime t) @ newline @ [CHR 0x09] @ ''schedule: '' @
     quoted (ScheduledTimeSchedule t) @ newline"

definition ScheduledCommand :: "'w process \<Rightarrow> string list \<Rightarrow> 'w \<Rightarrow> 'w exit" where
  "ScheduledCommand P args =
     client_command P [(''remove'', int_flag)] ''ERROR'' args (\<lambda>fs c w.
       if flag_int fs ''remove'' (-1) = -1
       then answered ''ERROR'' (\<lambda>found _. concat (map show_scheduled found))
              (Scheduled (client_json P) (post P) c w)
       else answered ''ERROR'' (\<lambda>resp _. resp @ newline)
              (client_RemoveScheduled (client_json P) (post P) c \<lparr>rs_ID = flag_int fs ''remove'' (-1)\<rparr> w))"

text \<open>The table of \<open>main\<close>, apart from the server, which is modelled in \<open>Bootstrap\<close>.\<close>

definition commands :: "'w process \<Rightarrow> (string \<times> (string list \<Rightarrow> 'w \<Rightarrow> 'w exit)) list" where
  "commands P =
     [(''ping'', PingCommand P), (''list'', ListCommand P), (''show'', ShowCommand P),
      (''run'', RunCommand P), (''add'', AddStackCommand P), (''remove'', RemoveStackCommand P),
      (''adduser'', AddUserCommand P), (''refreshtoken'', RefreshTokenCommand P),
      (''addlayer'', AddLayerCommand P), (''scheduled'', ScheduledCommand P)]"

section \<open>Numbers read back\<close>

lemma digit_of_digit: "c \<in> set digits \<Longrightarrow> \<exists>d < 10. digit_val c = Some d"
proof -
  assume "c \<in> set digits"
  then obtain d where "d < length digits" and "c = digits ! d" by (metis in_set_conv_nth)
  then show ?thesis using digit_val_digits [of d] by (auto simp: digits_def)
qed

lemma digits_in_val: "set s \<subseteq> set digits \<Longrightarrow> digits_in 10 acc s = digits_val acc s"
proof (induction s arbitrary: acc)
  case (Cons c s)
  from Cons.prems have "c \<in> set digits" by simp
  from digit_of_digit [OF this] obtain d where "d < 10" and "digit_val c = Some d" by blast
  with Cons show ?case by (simp add: digit_of_def)
qed simp

lemma hd_show_nat_zero: "n \<noteq> 0 \<Longrightarrow> hd (show_nat n) \<noteq> CHR ''0''"
proof (induction n rule: show_nat.induct)
  case (1 n)
  show ?case
  proof (cases "n < 10")
    case True
    with 1 have "n \<in> {1,2,3,4,5,6,7,8,9}" by auto
    with True show ?thesis by (auto simp: show_nat.simps [of n] digits_def)
  next
    case False
    with 1 have "hd (show_nat (n div 10)) \<noteq> CHR ''0''" by auto
    with False show ?thesis by (subst show_nat.simps) simp
  qed
qed

lemma parse_unsigned_show_nat: "parse_unsigned (show_nat n) = Some n"
proof -
  have v: "digits_in 10 0 (show_nat n) = Some n"
    using digits_in_val [OF show_nat_set, of 0 n] digits_val_show_nat by simp
  have "show_nat 0 = ''0''" by (simp add: show_nat.simps digits_def)
  moreover have "\<not> HasPrefix (show_nat n) ''0x''" "\<not> HasPrefix (show_nat n) ''0X''" if "n \<noteq> 0"
    using hd_show_nat_zero [OF that] by (auto simp: HasPrefix_def prefix_def)
  ultimately show ?thesis using v hd_show_nat_zero [of n]
    by (cases "n = 0") (auto simp: parse_unsigned_def)
qed

lemma ParseInt_Itoa:
  assumes "- max_int - 1 \<le> i" and "i \<le> max_int"
  shows "ParseInt (Itoa i) = Some i"
  using assms
  by (cases "i < 0") (simp_all add: ParseInt_def Itoa_def Let_def hd_show_nat parse_unsigned_show_nat)

section \<open>The run command\<close>

text \<open>The arguments that ask for a run.\<close>

definition var_args :: "(string \<times> string) list \<Rightarrow> string list" where
  "var_args vs = concat (map (\<lambda>(k, v). [''--var'', k @ CHR ''='' # v]) vs)"

definition skip_args :: "string list \<Rightarrow> string list" where
  "skip_args skips = concat (map (\<lambda>s. [''--skip'', s]) skips)"

declare parse_flags.simps(2) [simp del]

lemma parse_flag_value:
  assumes "map_of spec n = Some f" and "\<not> is_bool f" and "accepts f x"
    and "n \<noteq> []" and "hd n \<noteq> CHR ''-''" and "CHR ''='' \<notin> set n"
  shows "parse_flags spec ((''--'' @ n) # x # args) = map_option (Cons (n, x)) (parse_flags spec args)"
proof -
  have "flag_name (''--'' @ n) = n" by (simp add: flag_name_def)
  moreover have "is_flag (''--'' @ n)" using assms(4) by (simp add: is_flag_def)
  moreover have "\<not> bad_flag n" using assms(4-6) by (cases n) (auto simp: bad_flag_def)
  moreover have "split_flag n = (n, None)"
  proof -
    have "\<forall>c \<in> set (tl n). c \<noteq> CHR ''=''" using assms(4,6) by (cases n) auto
    then have "dropWhile (\<lambda>c. c \<noteq> CHR ''='') (tl n) = []" by (simp add: dropWhile_eq_Nil_conv)
    then show ?thesis by (simp only: split_flag_def list.case)
  qed
  ultimately show ?thesis using assms(1-3) by (simp add: parse_flags.simps(2))
qed

lemma parse_vars:
  assumes "map_of spec ''var'' = Some vars_flag" and "\<And>k v. (k, v) \<in> set vs \<Longrightarrow> CHR ''='' \<notin> set k"
  shows "parse_flags spec (var_args vs @ args) =
           map_option ((@) (map (\<lambda>(k, v). (''var'', k @ CHR ''='' # v)) vs)) (parse_flags spec args)"
  using assms(2)
proof (induction vs)
  case Nil
  then show ?case by (simp add: var_args_def option.map_ident)
next
  case (Cons p vs)
  obtain k v where p: "p = (k, v)" by (cases p)
  with Cons.prems have "CHR ''='' \<notin> set k" by auto
  then have a: "accepts vars_flag (k @ CHR ''='' # v)"
    by (simp add: vars_flag_def vars_Set_def SplitN2_append)
  have "parse_flags spec (''--var'' # (k @ CHR ''='' # v) # var_args vs @ args) =
      map_option (Cons (''var'', k @ CHR ''='' # v)) (parse_flags spec (var_args vs @ args))"
    using parse_flag_value [OF assms(1) _ a] by (simp add: vars_flag_def)
  moreover have "parse_flags spec (var_args vs @ args) =
      map_option ((@) (map (\<lambda>(k, v). (''var'', k @ CHR ''='' # v)) vs)) (parse_flags spec args)"
    by (rule Cons.IH) (use Cons.prems in auto)
  moreover have "var_args (p # vs) = ''--var'' # (k @ CHR ''='' # v) # var_args vs"
    by (simp add: var_args_def p)
  ultimately show ?case by (simp add: p option.map_comp comp_def)
qed

lemma parse_skips:
  assumes "map_of spec ''skip'' = Some (skip_flag rx)" and "\<And>s. s \<in> set skips \<Longrightarrow> Compile rx s = None"
  shows "parse_flags spec (skip_args skips) = Some (map (Pair ''skip'') skips)"
  using assms(2)
proof (induction skips)
  case Nil
  then show ?case by (simp add: skip_args_def)
next
  case (Cons s skips)
  then have a: "accepts (skip_flag rx) s" by (simp add: skip_flag_def skip_Set_def)
  have "parse_flags spec (''--skip'' # s # skip_args skips) =
      map_option (Cons (''skip'', s)) (parse_flags spec (skip_args skips))"
    using parse_flag_value [OF assms(1) _ a] by (simp add: skip_flag_def)
  moreover have "skip_args (s # skips) = ''--skip'' # s # skip_args skips" by (simp add: skip_args_def)
  ultimately show ?case using Cons by simp
qed

lemma vars_of_pairs:
  assumes "\<And>k v. (k, v) \<in> set vs \<Longrightarrow> CHR ''='' \<notin> set k"
  shows "vars_of (map (\<lambda>(k, v). k @ CHR ''='' # v) vs) m = copy_into vs m"
  using assms
proof (induction vs arbitrary: m)
  case (Cons p vs)
  obtain k v where p: "p = (k, v)" by (cases p)
  with Cons.prems have k: "CHR ''='' \<notin> set k" by auto
  have "vars_of (map (\<lambda>(k, v). k @ CHR ''='' # v) vs) (AList.update k v m) = copy_into vs (AList.update k v m)"
    by (rule Cons.IH) (use Cons.prems in auto)
  with k p show ?case by (simp add: vars_Set_def SplitN2_append)
qed simp

definition run_args :: "string \<Rightarrow> string \<Rightarrow> int \<Rightarrow> (string \<times> string) list \<Rightarrow> string list \<Rightarrow> string list" where
  "run_args address zone wait vs skips =
     [''--api'', address, ''--zone'', zone, ''--max.wait'', Itoa wait] @ var_args vs @ skip_args skips"

definition run_occurrences ::
    "string \<Rightarrow> string \<Rightarrow> int \<Rightarrow> (string \<times> string) list \<Rightarrow> string list \<Rightarrow> (string \<times> string) list" where
  "run_occurrences address zone wait vs skips =
     [(''api'', address), (''zone'', zone), (''max.wait'', Itoa wait)] @
     map (\<lambda>(k, v). (''var'', k @ CHR ''='' # v)) vs @ map (Pair ''skip'') skips"

lemma parse_run_args:
  assumes "\<And>k v. (k, v) \<in> set vs \<Longrightarrow> CHR ''='' \<notin> set k"
    and "\<And>s. s \<in> set skips \<Longrightarrow> Compile (process_regexps P) s = None"
    and "- max_int - 1 \<le> wait" and "wait \<le> max_int"
  shows "parse_flags ((''api'', string_flag) # run_flags P) (run_args address zone wait vs skips) =
           Some (run_occurrences address zone wait vs skips)"
proof -
  let ?spec = "(''api'', string_flag) # run_flags P"
  have rest: "parse_flags ?spec (var_args vs @ skip_args skips) =
      Some (map (\<lambda>(k, v). (''var'', k @ CHR ''='' # v)) vs @ map (Pair ''skip'') skips)"
    using parse_vars [OF _ assms(1), of ?spec] parse_skips [OF _ assms(2), of ?spec]
    by (simp add: run_flags_def)
  have "accepts int_flag (Itoa wait)" by (simp add: int_flag_def ParseInt_Itoa [OF assms(3,4)])
  then show ?thesis
    using parse_flag_value [of ?spec "''api''" string_flag] parse_flag_value [of ?spec "''zone''" string_flag]
      parse_flag_value [of ?spec "''max.wait''" int_flag] rest
    by (simp add: run_args_def run_occurrences_def run_flags_def string_flag_def int_flag_def)
qed

lemma filter_var_occurrences:
  "filter (\<lambda>p. fst p = n) (map (\<lambda>(k, v). (m, f k v)) vs) =
     (if n = m then map (\<lambda>(k, v). (m, f k v)) vs else [])"
  by (induction vs) auto

lemma filter_skip_occurrences:
  "filter (\<lambda>p. fst p = n) (map (Pair m) vs) = (if n = m then map (Pair m) vs else [])"
  by (induction vs) auto

text \<open>C22: The run command asks for what it was given. With an address, a zone, a time to
  wait, variables and patterns on the command line, the request it sends to the server at
  that address carries exactly these: every variable with its value, the last one of a
  name, and every pattern, in order.\<close>
theorem run_command_request:
  assumes "address \<noteq> []" and "\<And>k v. (k, v) \<in> set vs \<Longrightarrow> CHR ''='' \<notin> set k"
    and "\<And>s. s \<in> set skips \<Longrightarrow> Compile (process_regexps P) s = None"
    and "- max_int - 1 \<le> wait" and "wait \<le> max_int"
  shows "RunCommand P (name # run_args address zone wait vs skips) w =
    printing (''Running stack '' @ name @ newline)
      (answered ''ERROR running client request'' (\<lambda>_ w'. ''Done in '' @ elapsed P w w' @ newline)
        (client_Run (client_json P) (post P) (NewClient (getenv P) address)
          \<lparr>run_Name = name, run_Zone = zone, MaxWait = wait, run_Variables = Some (copy_into vs []),
           SkipApplications = skips\<rparr> w))"
proof -
  let ?fs = "run_occurrences address zone wait vs skips"
  note filters = flag_value_def flag_int_def flag_values_def run_occurrences_def filter_var_occurrences
    filter_skip_occurrences
  have "flag_values ?fs ''var'' = map (\<lambda>(k, v). k @ CHR ''='' # v) vs"
    by (simp add: filters case_prod_unfold comp_def)
  then have "vars_of (flag_values ?fs ''var'') [] = copy_into vs []" using vars_of_pairs [OF assms(2)] by simp
  moreover have "flag_values ?fs ''skip'' = skips" by (simp add: filters comp_def)
  moreover have "flag_value ?fs ''api'' [] = address" "flag_value ?fs ''zone'' [] = zone"
    by (simp_all add: filters)
  moreover have "flag_int ?fs ''max.wait'' defaultApplicationMaxWait = wait"
    by (simp add: filters ParseInt_Itoa [OF assms(4,5)])
  ultimately show ?thesis
    using parse_run_args [OF assms(2-5)] assms(1)
    by (simp add: RunCommand_def client_command_def resolveApi_def)
qed

definition sample_process :: "(RunRequest list) process" where
  "sample_process =
     \<lparr>getenv = (\<lambda>n. []), read_file = (\<lambda>f w. Err ''no such file''),
      post = (\<lambda>u user key body w. Some (Ok (200, []), w)), client_json = sample_json,
      process_regexps = literal_regexp, show_stack = (\<lambda>s. []), elapsed = (\<lambda>a b. ''1s'')\<rparr>"

theorem run_command_request_witness:
  "RunCommand sample_process
     [''web'', ''--api'', ''sd:4200'', ''--zone'', ''z1'', ''--max.wait'', ''5'', ''--var'', ''a=b=c'', ''--skip'', ''db.*''] [] =
   printing (''Running stack web'' @ newline)
     (answered ''ERROR running client request'' (\<lambda>_ w'. ''Done in 1s'' @ newline)
       (client_Run sample_json (post sample_process) (NewClient (\<lambda>n. []) ''sd:4200'')
          \<lparr>run_Name = ''web'', run_Zone = ''z1'', MaxWait = 5, run_Variables = Some [(''a'', ''b=c'')],
           SkipApplications = [''db.*'']\<rparr> []))"
proof -
  have five: "Itoa 5 = ''5''" by code_simp
  have args: "run_args ''sd:4200'' ''z1'' 5 [(''a'', ''b=c'')] [''db.*''] =
      [''--api'', ''sd:4200'', ''--zone'', ''z1'', ''--max.wait'', ''5'', ''--var'', ''a=b=c'', ''--skip'', ''db.*'']"
    by (simp add: run_args_def var_args_def skip_args_def five)
  have "RunCommand sample_process (''web'' # run_args ''sd:4200'' ''z1'' 5 [(''a'', ''b=c'')] [''db.*'']) [] =
    printing (''Running stack '' @ ''web'' @ newline)
     (answered ''ERROR running client request'' (\<lambda>_ w'. ''Done in '' @ elapsed sample_process [] w' @ newline)
       (client_Run (client_json sample_process) (post sample_process) (NewClient (getenv sample_process) ''sd:4200'')
          \<lparr>run_Name = ''web'', run_Zone = ''z1'', MaxWait = 5, run_Variables = Some (copy_into [(''a'', ''b=c'')] []),
           SkipApplications = [''db.*'']\<rparr> []))"
    by (rule run_command_request) (auto simp: sample_process_def literal_regexp_def max_int_def)
  then show ?thesis by (simp add: args) (simp add: sample_process_def)
qed

end
