(* ===== verification/Bootstrap.thy ===== *)
theory Bootstrap
  imports Command
begin

text \<open>
  The start of the server (src/command/server.go): connection to Marathon, the persistent
  state of the framework, the bootstrap stack, the storages and the API server.  What the
  process is wired to is the parameter \<open>host\<close>; \<open>log.Fatal\<close> and \<open>panic\<close> end the process.
\<close>

section \<open>The host\<close>

text \<open>\<open>boot_run\<close> is the environment of one run of the bootstrap stack, with what the run
  leaves in the context and the world after it; \<open>marathon_down\<close> is the match of the pattern made of Marathon's error
  for a cluster that is down; \<open>visit\<close> is the order of the loop over the context.\<close>

record ('w, 'j, 'm) host =
  new_marathon :: "string \<Rightarrow> 'w \<Rightarrow> 'm result \<times> 'w"
  pause :: "int \<Rightarrow> 'w \<Rightarrow> 'w"
  file_storage :: "string \<Rightarrow> ('w, 'j) backing"
  zk_storage :: "string \<Rightarrow> ('w, 'j) backing result"
  refresh :: "MesosClusterState \<Rightarrow> 'w \<Rightarrow> (MesosClusterState \<times> unit result) \<times> 'w"
  host_file :: "string \<Rightarrow> 'w \<Rightarrow> string result"
  parse_stack :: "string \<Rightarrow> Stack option result"
  boot_run :: "'w \<Rightarrow> (unit, unit) run_env \<times> (Variables \<Rightarrow> Variables) \<times> 'w"
  marathon_down :: "string \<Rightarrow> bool"
  visit :: "(string \<times> string) list \<Rightarrow> (string \<times> string) list"
  connect_cassandra :: "string list \<Rightarrow> int \<Rightarrow> 'w \<Rightarrow> 'w stack_session result \<times> 'w"
  users_at :: "'w stack_session \<Rightarrow> 'w user_session"
  states_at :: "'w stack_session \<Rightarrow> 'w state_session"
  parse_duration :: "string \<Rightarrow> int option"

section \<open>Connecting to Marathon\<close>

text \<open>Without any attempt the client is nil and there is no error.\<close>

fun connect_loop ::
    "('w, 'j, 'm) host \<Rightarrow> string \<Rightarrow> int \<Rightarrow> nat \<Rightarrow> 'm option result \<Rightarrow> 'w \<Rightarrow> 'm option result \<times> 'w" where
  "connect_loop N address backoff 0 out w = (out, w)"
| "connect_loop N address backoff (Suc n) out w =
     (case new_marathon N address w of
        (Ok m, w') \<Rightarrow> (Ok (Some m), w')
      | (Err e, w') \<Rightarrow> connect_loop N address backoff n (Err e) (pause N backoff w')
      | (Panic e, w') \<Rightarrow> (Panic e, w'))"

definition connectMarathon ::
    "('w, 'j, 'm) host \<Rightarrow> string \<Rightarrow> int \<Rightarrow> int \<Rightarrow> 'w \<Rightarrow> 'm option result \<times> 'w" where
  "connectMarathon N address retries backoff w =
     connect_loop N address backoff (nat retries) (Ok None) w"

section \<open>The bootstrap stack\<close>

definition bootstrap_request :: RunRequest where
  "bootstrap_request =
     \<lparr>run_Name = [], run_Zone = [], MaxWait = defaultApplicationMaxWait, run_Variables = None,
      SkipApplications = []\<rparr>"

text \<open>One attempt: \<open>Run\<close> of the stack with the in-memory state storage. A nil client of
  Marathon panics when it is asked for its information. The run leaves its variables in the
  context and the resolved settings in the applications of the stack.\<close>

definition touch_stack :: "(Application \<Rightarrow> Application) \<Rightarrow> Stack \<Rightarrow> Stack" where
  "touch_stack f s =
     s\<lparr>Applications := map_option (map (\<lambda>(k, p). (k, map_option f p))) (Applications s)\<rparr>"

definition run_bootstrap ::
    "('w, 'j, 'm) host \<Rightarrow> 'm option \<Rightarrow> RunRequest \<Rightarrow> Stack \<Rightarrow> Variables \<Rightarrow> state_map \<Rightarrow> 'w
     \<Rightarrow> (unit result \<times> Stack \<times> Variables \<times> state_map \<times> 'w) option" where
  "run_bootstrap N m request stack vs store w =
     (case boot_run N w of
        (env, written, w') \<Rightarrow>
          map_option (\<lambda>(r, store'). (r, touch_stack (left_app env) stack, written vs, store', w'))
            (execute_stack InMemoryStateStorage
               (env\<lparr>run_info := and_then (deref m) (\<lambda>_. run_info env)\<rparr>)
               (SkipApplications request) (Name stack) (run_Zone request) stack vs store))"

text \<open>The state storage and the variables are those the runs before left behind; after the
  last attempt the variables are returned together with the error.\<close>

fun bootstrap_loop ::
    "('w, 'j, 'm) host \<Rightarrow> 'm option \<Rightarrow> int \<Rightarrow> nat \<Rightarrow> unit result \<Rightarrow> Stack \<Rightarrow> Variables \<Rightarrow> state_map \<Rightarrow> 'w
     \<Rightarrow> (Variables result \<times> 'w) option" where
  "bootstrap_loop N m backoff 0 err stack vs store w = Some (map_result (\<lambda>_. vs) err, w)"
| "bootstrap_loop N m backoff (Suc n) err stack vs store w =
     (case run_bootstrap N m bootstrap_request stack vs store w of
        None \<Rightarrow> None
      | Some (Ok _, stack', vs', store', w') \<Rightarrow> Some (Ok vs', w')
      | Some (Panic e, stack', vs', store', w') \<Rightarrow> Some (Panic e, w')
      | Some (Err e, stack', vs', store', w') \<Rightarrow>
          if \<not> marathon_down N e then Some (Err e, w')
          else bootstrap_loop N m backoff n (Err e) stack' vs' store' (pause N backoff w'))"

definition Bootstrap ::
    "('w, 'j, 'm) host \<Rightarrow> string \<Rightarrow> 'm option \<Rightarrow> int \<Rightarrow> int \<Rightarrow> 'w \<Rightarrow> (Variables result \<times> 'w) option" where
  "Bootstrap N stackFile m retries backoff w =
     (case and_then (host_file N stackFile w) (parse_stack N) of
        Ok p \<Rightarrow>
          (case deref p of
             Ok stack \<Rightarrow>
               bootstrap_loop N m backoff (nat retries) (Ok ()) stack NewVariables NewInMemoryStateStorage w
           | Err e \<Rightarrow> Some (Err e, w)
           | Panic e \<Rightarrow> Some (Panic e, w))
      | Err e \<Rightarrow> Some (Err e, w)
      | Panic e \<Rightarrow> Some (Panic e, w))"

definition resolve_hosts :: "('w, 'j, 'm) host \<Rightarrow> Variables \<Rightarrow> string \<Rightarrow> string" where
  "resolve_hosts N context cassandra =
     fold (\<lambda>(k, v) hosts. Replace hosts (CHR ''{'' # k @ ''}'') v) (visit N (All context)) cassandra"

text \<open>The bootstrap phase: the context is restored or made, the Cassandra address is
  resolved with it, and the state is saved.  The result of \<open>Save\<close> is dropped, its panic
  is not.\<close>

definition bootstrap_phase ::
    "('w, 'j, 'm) host \<Rightarrow> ('w, 'j) backing \<Rightarrow> string \<Rightarrow> 'm option \<Rightarrow> int \<Rightarrow> int \<Rightarrow> string
     \<Rightarrow> FrameworkStorage \<Rightarrow> 'w \<Rightarrow> ((FrameworkStorage \<times> string) result \<times> 'w) option" where
  "bootstrap_phase N B file m retries backoff cassandra fs w =
     (if file = [] then Some (Ok (fs, cassandra), w)
      else (case (case BootstrapContext fs of
                    None \<Rightarrow> Bootstrap N file m retries backoff w
                  | Some stored \<Rightarrow>
                      if length (All stored) > 0 then Some (Ok stored, w)
                      else Bootstrap N file m retries backoff w) of
              None \<Rightarrow> None
            | Some (Err e, w') \<Rightarrow> Some (Err e, w')
            | Some (Panic e, w') \<Rightarrow> Some (Panic e, w')
            | Some (Ok context, w') \<Rightarrow>
                (let fs' = fs\<lparr>BootstrapContext := Some context\<rparr>
                 in case Save B fs' w' of
                      (Ok _, w'') \<Rightarrow> Some (Ok (fs', resolve_hosts N context cassandra), w'')
                    | (Err e, w'') \<Rightarrow> Some (Err e, w'')
                    | (Panic e, w'') \<Rightarrow> Some (Panic e, w''))))"

section \<open>The storages\<close>

datatype 'w backend =
    Cassandra "'w stack_session" "'w UserStorage" "'w state_session"
  | InMemory

text \<open>A nil session is a panic in the next use; any error is one here.\<close>

definition open_storages ::
    "('w, 'j, 'm) host \<Rightarrow> bool \<Rightarrow> string \<Rightarrow> int \<Rightarrow> int \<Rightarrow> 'w \<Rightarrow> ('w backend \<times> string) result \<times> 'w" where
  "open_storages N dev cassandra proto retries w =
     (if dev then (Ok (InMemory, []), w)
      else (case NewCassandraStorageRetryBackoff
                   (connect_cassandra N (split_on (CHR '','') cassandra) proto) (nat retries) (Ok None) w of
              (Ok (Some S), w1) \<Rightarrow>
                (case NewCassandraUserStorage (users_at N S) w1 of
                   (Ok (us, key), w2) \<Rightarrow>
                     (case NewCassandraStateStorage (states_at N S) w2 of
                        (Ok _, w3) \<Rightarrow> (Ok (Cassandra S us (states_at N S), key), w3)
                      | (Err e, w3) \<Rightarrow> (Panic e, w3)
                      | (Panic e, w3) \<Rightarrow> (Panic e, w3))
                 | (Err e, w2) \<Rightarrow> (Panic e, w2)
                 | (Panic e, w2) \<Rightarrow> (Panic e, w2))
            | (Ok None, w1) \<Rightarrow>
                (Panic ''runtime error: invalid memory address or nil pointer dereference'', w1)
            | (Err e, w1) \<Rightarrow> (Panic e, w1)
            | (Panic e, w1) \<Rightarrow> (Panic e, w1)))"

section \<open>The server command\<close>

record ('w, 'm) server_setup =
  su_api :: string
  su_marathon :: "'m option"
  su_globals :: "(string \<times> string) list"
  su_backend :: "'w backend"
  su_scheduler :: StackDeployScheduler
  su_output :: string

datatype ('w, 'm) startup =
    Exited int
  | Crashed error
  | Serving "('w, 'm) server_setup"

definition duration_flag :: "('w, 'j, 'm) host \<Rightarrow> flag" where
  "duration_flag N = \<lparr>is_bool = False, accepts = (\<lambda>s. parse_duration N s \<noteq> None)\<rparr>"

definition flag_duration ::
    "('w, 'j, 'm) host \<Rightarrow> (string \<times> string) list \<Rightarrow> string \<Rightarrow> int \<Rightarrow> int" where
  "flag_duration N fs n dflt =
     (case flag_values fs n of
        [] \<Rightarrow> dflt
      | vs \<Rightarrow> (case parse_duration N (last vs) of Some d \<Rightarrow> d | None \<Rightarrow> dflt))"

definition server_flags :: "('w, 'j, 'm) host \<Rightarrow> (string \<times> flag) list" where
  "server_flags N =
     [(''marathon'', string_flag), (''storage'', string_flag), (''api'', string_flag),
      (''bootstrap'', string_flag), (''cassandra'', string_flag), (''keyspace'', string_flag),
      (''proto'', int_flag), (''connect.retries'', int_flag), (''connect.backoff'', duration_flag N),
      (''debug'', bool_flag), (''dev'', bool_flag), (''master'', string_flag),
      (''framework.user'', string_flag), (''framework.name'', string_flag),
      (''framework.role'', string_flag), (''failover.timeout'', duration_flag N), (''var'', vars_flag)]"

definition scheduler_config :: "('w, 'j, 'm) host \<Rightarrow> (string \<times> string) list \<Rightarrow> SchedulerConfig" where
  "scheduler_config N fs =
     NewSchedulerConfig
       \<lparr>cfg_Master := flag_value fs ''master'' ''127.0.0.1:5050'',
        cfg_User := flag_value fs ''framework.user'' [],
        FrameworkName := flag_value fs ''framework.name'' ''stack-deploy'',
        FrameworkRole := flag_value fs ''framework.role'' ''*'',
        FailoverTimeout := flag_duration N fs ''failover.timeout'' (168 * 3600 * 1000000000)\<rparr>"

text \<open>The storage flag; None is the exit when it is missing outside developer mode.\<close>

definition storage_flag :: "(string \<times> string) list \<Rightarrow> string option" where
  "storage_flag fs =
     (if flag_value fs ''storage'' [] \<noteq> [] then Some (flag_value fs ''storage'' [])
      else if flag_bool fs ''dev'' then Some ''file:stack-deploy.json''
      else None)"

text \<open>The server with its storages. The configuration is shared with the scheduler, so the
  timeout of developer mode reaches it.\<close>

definition start_server ::
    "('w, 'j, 'm) host \<Rightarrow> (string \<times> string) list \<Rightarrow> 'm option \<Rightarrow> StackDeployScheduler \<Rightarrow> string \<Rightarrow> 'w
     \<Rightarrow> ('w, 'm) startup \<times> 'w" where
  "start_server N fs m sched cassandra w =
     (case open_storages N (flag_bool fs ''dev'') cassandra (flag_int fs ''proto'' 3)
             (flag_int fs ''connect.retries'' 10) w of
        (Ok (backend, key), w') \<Rightarrow>
          (Serving \<lparr>su_api = flag_value fs ''api'' ''0.0.0.0:4200'', su_marathon = m,
             su_globals = vars_of (flag_values fs ''var'') [], su_backend = backend,
             su_scheduler = (if flag_bool fs ''dev''
                             then sched\<lparr>config := (config sched)\<lparr>FailoverTimeout := 0\<rparr>\<rparr> else sched),
             su_output = (if key \<noteq> [] then ''***'' @ newline @ ''Admin user key: '' @ key @ newline @ ''***'' @ newline
                          else [])\<rparr>, w')
      | (Err e, w') \<Rightarrow> (Crashed e, w')
      | (Panic e, w') \<Rightarrow> (Crashed e, w'))"

text \<open>The whole command after its flags; None is a bootstrap run that does not return.\<close>

definition server_run ::
    "('w, 'j, 'm) host \<Rightarrow> (string \<times> RunOnceRunner) list \<Rightarrow> (string \<times> string) list \<Rightarrow> 'w
     \<Rightarrow> (('w, 'm) startup \<times> 'w) option" where
  "server_run N runners fs w =
     (case connectMarathon N (flag_value fs ''marathon'' ''http://127.0.0.1:8080'')
             (flag_int fs ''connect.retries'' 10) (flag_duration N fs ''connect.backoff'' 10000000000) w of
        (Err e, w1) \<Rightarrow> Some (Exited 1, w1)
      | (Panic e, w1) \<Rightarrow> Some (Crashed e, w1)
      | (Ok m, w1) \<Rightarrow>
          (case storage_flag fs of
             None \<Rightarrow> Some (Exited 1, w1)
           | Some place \<Rightarrow>
               (case NewFrameworkStorage (file_storage N) (zk_storage N) place of
                  Err e \<Rightarrow> Some (Exited 1, w1)
                | Panic e \<Rightarrow> Some (Crashed e, w1)
                | Ok (B, fw0) \<Rightarrow>
                    (case Load B fw0 w1 of
                       Err e \<Rightarrow> Some (Crashed e, w1)
                     | Panic e \<Rightarrow> Some (Crashed e, w1)
                     | Ok fw \<Rightarrow>
                         (let sched = NewScheduler (scheduler_config N fs) fw runners in
                          case refresh N (cluster sched) w1 of
                            ((state, Err e), w2) \<Rightarrow> Some (Exited 1, w2)
                          | ((state, Panic e), w2) \<Rightarrow> Some (Crashed e, w2)
                          | ((state, Ok _), w2) \<Rightarrow>
                              (case bootstrap_phase N B (flag_value fs ''bootstrap'' []) m
                                      (flag_int fs ''connect.retries'' 10)
                                      (flag_duration N fs ''connect.backoff'' 10000000000)
                                      (flag_value fs ''cassandra'' ''127.0.0.1'') fw w2 of
                                 None \<Rightarrow> None
                               | Some (Err e, w3) \<Rightarrow> Some (Exited 1, w3)
                               | Some (Panic e, w3) \<Rightarrow> Some (Crashed e, w3)
                               | Some (Ok (fw', cassandra), w3) \<Rightarrow>
                                   Some (start_server N fs m
                                     (sched\<lparr>cluster := state, Storage := fw'\<rparr>) cassandra w3)))))))"

definition ServerCommand_Run ::
    "('w, 'j, 'm) host \<Rightarrow> (string \<times> RunOnceRunner) list \<Rightarrow> string list \<Rightarrow> 'w
     \<Rightarrow> (('w, 'm) startup \<times> 'w) option" where
  "ServerCommand_Run N runners args w =
     (case parse_flags (server_flags N) args of
        None \<Rightarrow> Some (Exited 2, w)
      | Some fs \<Rightarrow> server_run N runners fs w)"

section \<open>Restart\<close>







section \<open>The first start\<close>

text \<open>No attempt of the loop succeeds: nothing saves the status of the bootstrap stack in the
  new state storage, which then refuses the status of its applications.\<close>

lemma run_bootstrap_fails:
  assumes "run_bootstrap N m request stack vs store w = Some (r, stack', vs', store', w')"
    and "find_state store (Name stack) (run_Zone request) = None"
  shows "r \<noteq> Ok ()" and "Name stack' = Name stack" and "find_state store' (Name stack) (run_Zone request) = None"
proof -
  from assms(1) obtain env :: "(unit, unit) run_env" and f where
    "execute_stack InMemoryStateStorage env (SkipApplications request) (Name stack) (run_Zone request) stack vs store =
       Some (r, store')" and stack': "stack' = touch_stack f stack"
    by (auto simp: run_bootstrap_def split: prod.splits)
  from execute_unknown_stack [OF assms(2) this(1)]
  show "r \<noteq> Ok ()" and "find_state store' (Name stack) (run_Zone request) = None" by simp_all
  from stack' show "Name stack' = Name stack" by (simp add: touch_stack_def)
qed

lemma bootstrap_loop_fails:
  assumes "bootstrap_loop N m backoff n err stack vs store w = Some (r, w')"
    and "find_state store (Name stack) [] = None" and "n > 0 \<or> (\<forall>x. err \<noteq> Ok x)"
  shows "r \<noteq> Ok v"
  using assms
proof (induction n arbitrary: err stack vs store w)
  case 0
  then show ?case by (cases err) auto
next
  case (Suc n)
  obtain q stack1 vs1 store1 w1 where
    run: "run_bootstrap N m bootstrap_request stack vs store w = Some (q, stack1, vs1, store1, w1)"
    using Suc.prems(1) by (auto split: option.splits)
  note left = run_bootstrap_fails [OF run, unfolded bootstrap_request_def, simplified, OF Suc.prems(2)]
  show ?case
  proof (cases q)
    case (Ok x)
    with left(1) show ?thesis by simp
  next
    case (Panic e)
    with run Suc.prems(1) show ?thesis by auto
  next
    case (Err e)
    show ?thesis
    proof (cases "marathon_down N e")
      case True
      with Err run Suc.prems(1) have
        "bootstrap_loop N m backoff n (Err e) stack1 vs1 store1 (pause N backoff w1) = Some (r, w')" by simp
      from Suc.IH [OF this] left(2,3) show ?thesis by simp
    next
      case False
      with Err run Suc.prems(1) show ?thesis by auto
    qed
  qed
qed

lemma Bootstrap_fails:
  assumes "Bootstrap N file m retries backoff w = Some (r, w')" and "0 < retries"
  shows "r \<noteq> Ok v"
proof (cases "and_then (host_file N file w) (parse_stack N)")
  case (Ok p)
  show ?thesis
  proof (cases "deref p")
    case (Ok stack)
    with assms(1) \<open>and_then (host_file N file w) (parse_stack N) = Ok p\<close> have
      "bootstrap_loop N m backoff (nat retries) (Ok ()) stack NewVariables NewInMemoryStateStorage w = Some (r, w')"
      by (simp add: Bootstrap_def)
    moreover have "find_state NewInMemoryStateStorage (Name stack) [] = None"
      by (simp add: find_state_def NewInMemoryStateStorage_def)
    ultimately show ?thesis using bootstrap_loop_fails assms(2) by (metis zero_less_nat_eq)
  qed (use assms(1) Ok in \<open>auto simp: Bootstrap_def\<close>)
qed (use assms(1) in \<open>auto simp: Bootstrap_def\<close>)

text \<open>C37: A server with a bootstrap stack never gets past its first start. As long as the
  storage holds no bootstrap context with variables, and with at least one attempt, the
  bootstrap phase never succeeds, whatever the stack, the applications and Marathon do: the
  attempts record the applications in a new in-memory state storage that does not know the
  stack, and that refusal ends the run.\<close>
theorem first_bootstrap_fails:
  assumes "file \<noteq> []" and "0 < retries"
    and "case BootstrapContext fs of None \<Rightarrow> True | Some v \<Rightarrow> All v = []"
    and "bootstrap_phase N B file m retries backoff cassandra fs w = Some (r, w')"
  shows "r \<noteq> Ok x"
proof -
  from assms(1,3,4) obtain q w1 where q: "Bootstrap N file m retries backoff w = Some (q, w1)"
    and r: "(\<forall>v. q \<noteq> Ok v) \<longrightarrow> r \<noteq> Ok x"
    by (cases "Bootstrap N file m retries backoff w"; cases "BootstrapContext fs")
       (auto simp: bootstrap_phase_def split: result.splits)
  from Bootstrap_fails [OF q assms(2)] r show ?thesis by blast
qed

section \<open>Witnesses\<close>

definition boot_vars :: Variables where
  "boot_vars = SetStackVariable ''cassandra.host'' ''c1'' NewVariables"

text \<open>A store for a framework with that one context, and a host on which both applications
  of the bootstrap stack come up.\<close>

definition boot_store :: "(string option, unit) backing" where
  "boot_store =
     \<lparr>save_bytes = (\<lambda>js w. (Ok (), Some js)), load_bytes = (\<lambda>w. Ok w),
      encode_context = (\<lambda>d. if d = variables_doc boot_vars then Ok () else Err ''unsupported''),
      decode_context = (\<lambda>_. Ok (variables_doc boot_vars)),
      encode_object = (\<lambda>(i, d). if d = None then Err ''unsupported'' else Ok i),
      decode_object = (\<lambda>js. Ok (Some js, Some (Some ())))\<rparr>"


definition no_users :: "'s user_session" where
  "no_users =
     \<lparr>create_users = (\<lambda>s. (Ok (), s)), count_users = (\<lambda>s. Ok 0), count_user = (\<lambda>n s. Ok 0),
      select_user = (\<lambda>n s. Err ''not found''), insert_user = (\<lambda>n k r s. (Ok (), s)), UUID = (\<lambda>s. (''u'', s))\<rparr>"

definition no_states :: "'s state_session" where
  "no_states =
     \<lparr>create_state_tables = (\<lambda>s. (Ok (), s)), insert_stack_state = (\<lambda>k x s. (Ok (), s)),
      insert_application_state = (\<lambda>k a x s. (Ok (), s)), insert_stack_variable = (\<lambda>k a x s. (Ok (), s)),
      select_stack_state = (\<lambda>k s. Err ''not found''), select_application_states = (\<lambda>k s. []),
      select_stack_variables = (\<lambda>k s. [])\<rparr>"

definition boot_host :: "(string option, unit, unit) host" where
  "boot_host =
     \<lparr>new_marathon = (\<lambda>a w. (Ok (), w)), pause = (\<lambda>d w. w), file_storage = (\<lambda>p. boot_store),
      zk_storage = (\<lambda>p. Ok boot_store), refresh = (\<lambda>s w. ((s, Ok ()), w)),
      host_file = (\<lambda>f w. Ok []), parse_stack = (\<lambda>t. Ok (Some sample_stack)),
      boot_run = (\<lambda>w. (sample_run_env, \<lambda>v. boot_vars, w)), marathon_down = (\<lambda>e. False),
      visit = (\<lambda>xs. xs), connect_cassandra = (\<lambda>hs p w. (Err ''down'', w)),
      users_at = (\<lambda>S. no_users), states_at = (\<lambda>S. no_states), parse_duration = (\<lambda>s. None)\<rparr>"


theorem first_bootstrap_fails_witness:
  "\<exists>r. bootstrap_phase boot_host boot_store ''Stackfile'' (Some ()) 10 0 ''c''
      \<lparr>FrameworkID = [], BootstrapContext = Some NewVariables\<rparr> None = Some (r, None) \<and>
     r = Err ErrStackStateDoesNotExist \<and> (\<forall>x. r \<noteq> Ok x)"
proof -
  let ?r = "bootstrap_phase boot_host boot_store ''Stackfile'' (Some ()) 10 0 ''c''
      \<lparr>FrameworkID = [], BootstrapContext = Some NewVariables\<rparr> None"
  have "?r = Some (Err ErrStackStateDoesNotExist, None)" by code_simp
  moreover from this have "(Err ErrStackStateDoesNotExist :: (FrameworkStorage \<times> string) result) \<noteq> Ok x" for x
    by (rule first_bootstrap_fails [rotated 3]) (simp_all add: All_def NewVariables_def)
  ultimately show ?thesis by blast
qed

text \<open>Without attempts the bootstrap stack is taken for deployed, and Marathon for connected.\<close>

lemma no_retries_no_bootstrap:
  assumes "host_file N file w = Ok text" and "parse_stack N text = Ok (Some stack)" and "retries \<le> 0"
  shows "Bootstrap N file m retries backoff w = Some (Ok NewVariables, w)"
    and "connectMarathon N address retries backoff w = (Ok None, w)"
  using assms by (simp_all add: Bootstrap_def connectMarathon_def deref_def)

end
