(* ===== verification/Catalogue.thy ===== *)
theory Catalogue
  imports Server
begin

text \<open>
  The interface between the HTTP server and the two storages of stacks: a locale with what
  both promise of the set of stored names, its interpretations on the in-memory storage and
  on the Cassandra storage, and what the handlers make of it.
\<close>

section \<open>The contract of a stack storage\<close>

locale stack_store =
  fixes St :: "('p, 'w) StackStore" and stored :: "'w \<Rightarrow> string set"
  assumes store_new: "st_StoreStack St s w = (Ok (), w') \<Longrightarrow>
      Name s \<notin> stored w \<and> stored w' = insert (Name s) (stored w)"
    and store_taken: "Name s \<in> stored w \<Longrightarrow>
      \<exists>e w'. st_StoreStack St s w = (Err e, w') \<and> stored w' = stored w"
    and remove_gone: "st_RemoveStack St n force w = Some (Ok (), w') \<Longrightarrow>
      n \<in> stored w \<and> n \<notin> stored w' \<and> stored w' \<subseteq> stored w"
    and remove_missing: "n \<notin> stored w \<Longrightarrow> \<exists>e. st_RemoveStack St n force w = Some (Err e, w)"
    and get_missing: "n \<notin> stored w \<Longrightarrow> st_GetStack St n w = Some (r, w') \<Longrightarrow> \<not> is_ok r \<and> w' = w"
begin

text \<open>A name is free again after its removal: the same stack can be stored at most once
  between two removals.\<close>

lemma stored_twice:
  "st_StoreStack St s w = (Ok (), w1) \<Longrightarrow> fst (st_StoreStack St s w1) \<noteq> Ok ()"
  using store_new store_taken [of s w1] by fastforce

lemma removed_twice:
  "st_RemoveStack St n f w = Some (Ok (), w1) \<Longrightarrow> \<exists>e. st_RemoveStack St n f' w1 = Some (Err e, w1)"
  using remove_gone remove_missing by blast

end

section \<open>The in-memory storage\<close>

lemma alloc_stack_cell:
  "alloc_stack s st = (cell, st') \<Longrightarrow> sName cell = Name s \<and> stacks st' = stacks st"
  by (auto simp: alloc_stack_def split: option.splits prod.splits)

lemma mem_remove_gone: "mem_remove ord fuel n force st = Some (Ok (), st') \<Longrightarrow> map_of (stacks st') n = None"
  by (cases fuel) (auto split: if_splits option.splits prod.splits result.splits)

interpretation memory: stack_store "InMemoryStore ord fuel" "\<lambda>st. dom (map_of (stacks st))" for ord fuel
proof
  fix s st st'
  assume "st_StoreStack (InMemoryStore ord fuel) s st = (Ok (), st')"
  then show "Name s \<notin> dom (map_of (stacks st)) \<and>
      dom (map_of (stacks st')) = insert (Name s) (dom (map_of (stacks st)))"
    by (auto simp: InMemoryStore_def mem_StoreStack_def domIff dest!: alloc_stack_cell
        split: prod.splits if_splits)
next
  fix s :: Stack and st :: InMemoryStorage
  assume "Name s \<in> dom (map_of (stacks st))"
  then show "\<exists>e st'. st_StoreStack (InMemoryStore ord fuel) s st = (Err e, st') \<and>
      dom (map_of (stacks st')) = dom (map_of (stacks st))"
    by (auto simp: InMemoryStore_def mem_StoreStack_def domIff dest!: alloc_stack_cell split: prod.splits)
next
  fix n force st st'
  assume "st_RemoveStack (InMemoryStore ord fuel) n force st = Some (Ok (), st')"
  then have n: "map_of (stacks st) n \<noteq> None" and r: "mem_remove ord fuel n force st = Some (Ok (), st')"
    by (auto simp: InMemoryStore_def mem_RemoveStack_def split: if_splits)
  have "dom (map_of (stacks st')) \<subseteq> dom (map_of (stacks st))"
    using below_lookup [OF mem_remove_below(1) [OF r]] by fastforce
  with n mem_remove_gone [OF r] show "n \<in> dom (map_of (stacks st)) \<and> n \<notin> dom (map_of (stacks st')) \<and>
      dom (map_of (stacks st')) \<subseteq> dom (map_of (stacks st))" by (simp add: domIff)
qed (auto simp: InMemoryStore_def mem_RemoveStack_def mem_GetStack_def domIff)

section \<open>The Cassandra storage\<close>

text \<open>The rows only get fewer, whatever the forest looks like.\<close>

lemma cas_remove_gone:
  assumes "cql_writes S rows"
  shows "cas_remove S fuel n force c = Some (Ok (), c') \<Longrightarrow> rows c' n = None \<and> shrinks (rows c) (rows c')"
    and "remove_children S fuel ns c = Some (Ok (), c') \<Longrightarrow> shrinks (rows c) (rows c')"
  using assms
proof (induction S fuel n force c and S fuel ns c arbitrary: c' and c'
    rule: cas_remove_remove_children.induct)
  case (2 S fuel n force c)
  then obtain c1 where "delete_stack S n c1 = (Ok (), c')" and c1: "shrinks (rows c) (rows c1)"
    by (cases force) (auto split: if_splits option.splits prod.splits result.splits)
  then have "rows c' = (rows c1)(n := None)" using 2(3) unfolding cql_writes_def by blast
  with c1 show ?case by (simp add: shrinks_def)
next
  case (4 S fuel n ns c)
  then show ?case by (auto split: option.splits prod.splits result.splits intro: shrinks_trans)
qed simp_all

locale cassandra_stacks =
  fixes Y :: yaml_codec and S :: "'c stack_session" and rows :: "'c \<Rightarrow> stack_rows" and fuel :: nat
  assumes reads: "cql_reads S rows" and writes: "cql_writes S rows"
begin

lemma cas_store_new:
  assumes "cas_StoreStack Y S s c = (Ok (), c')"
  shows "rows c (Name s) = None" and "\<exists>a. rows c' = (rows c)(Name s \<mapsto> (From s, a))"
proof -
  show new: "rows c (Name s) = None"
    using assms by (cases "rows c (Name s)") (auto simp: cas_StoreStack_def exists_iff [OF reads])
  with assms obtain a where "insert_stack S (Name s) (From s) a c = (Ok (), c')"
    by (auto simp: cas_StoreStack_def exists_iff [OF reads] split: result.splits if_splits)
  then show "\<exists>a. rows c' = (rows c)(Name s \<mapsto> (From s, a))"
    using writes unfolding cql_writes_def by blast
qed

lemma cas_store_taken: "rows c (Name s) \<noteq> None \<Longrightarrow> \<exists>e. cas_StoreStack Y S s c = (Err e, c)"
  by (simp add: cas_StoreStack_def exists_iff [OF reads])

lemma cas_removed:
  assumes "cas_RemoveStack S fuel n force c = Some (Ok (), c')"
  shows "rows c n \<noteq> None" and "rows c' n = None" and "dom (rows c') \<subseteq> dom (rows c)"
proof -
  show n: "rows c n \<noteq> None"
    using assms by (auto simp: cas_RemoveStack_def exists_iff [OF reads] split: bool.splits)
  with assms have "cas_remove S fuel n force c = Some (Ok (), c')"
    by (auto simp: cas_RemoveStack_def exists_iff [OF reads])
  from cas_remove_gone(1) [OF writes this] show "rows c' n = None" "dom (rows c') \<subseteq> dom (rows c)"
    by (auto simp: shrinks_def dom_def) (metis option.distinct(1))
qed

lemma cas_get_missing: "rows c n = None \<Longrightarrow> cas_GetStack Y S fuel n c = Some r \<Longrightarrow> \<not> is_ok r"
  using reads_none [OF reads, of c n] by (cases fuel) (auto split: result.splits)

end

sublocale cassandra_stacks \<subseteq> stack_store "CassandraStore Y S fuel" "\<lambda>c. dom (rows c)"
proof
  show "Name s \<notin> dom (rows c) \<and> dom (rows c') = insert (Name s) (dom (rows c))"
    if "st_StoreStack (CassandraStore Y S fuel) s c = (Ok (), c')" for s c c'
    using cas_store_new [of s c c'] that by (auto simp: CassandraStore_def domIff)
  show "\<exists>e c'. st_StoreStack (CassandraStore Y S fuel) s c = (Err e, c') \<and> dom (rows c') = dom (rows c)"
    if "Name s \<in> dom (rows c)" for s c
    using cas_store_taken [of c s] that by (auto simp: CassandraStore_def domIff)
  show "n \<in> dom (rows c) \<and> n \<notin> dom (rows c') \<and> dom (rows c') \<subseteq> dom (rows c)"
    if "st_RemoveStack (CassandraStore Y S fuel) n force c = Some (Ok (), c')" for n force c c'
    using cas_removed [of n force c c'] that by (simp add: CassandraStore_def domIff)
  show "\<exists>e. st_RemoveStack (CassandraStore Y S fuel) n force c = Some (Err e, c)"
    if "n \<notin> dom (rows c)" for n force c
    using that by (simp add: CassandraStore_def cas_RemoveStack_def exists_iff [OF reads] domIff)
  show "\<not> is_ok r \<and> c' = c"
    if "n \<notin> dom (rows c)" "st_GetStack (CassandraStore Y S fuel) n c = Some (r, c')" for n c c' r
    using that cas_get_missing [of c n r]
    by (cases "cas_GetStack Y S fuel n c") (simp_all add: CassandraStore_def domIff del: not_None_eq not_Some_eq)
qed

interpretation listed: cassandra_stacks Y list_session map_of fuel for Y fuel
  by unfold_locales (rule list_session_laws)+

section \<open>The handlers\<close>

lemma serve_admitted:
  assumes "serve ts r st = Some (Ok w, st')" and "map_of (routes ts) (req_path r) = Some (Auth ts h)"
    and "status_of w = 200"
  shows "us_CheckKey (userStorage ts) (req_user r) (req_key r) (sv_users st) = Ok True"
    and "h r new_writer st = Some (Ok w, st')"
proof -
  show ok: "us_CheckKey (userStorage ts) (req_user r) (req_key r) (sv_users st) = Ok True"
  proof (rule ccontr)
    assume "\<not> ?thesis"
    from Auth_refuses [OF this new_writer_status, of h] assms show False by (auto simp: serve_def)
  qed
  from assms(1,2) show "h r new_writer st = Some (Ok w, st')"
    by (simp add: serve_def Auth_admits [OF ok])
qed

lemma error_status [simp]: "status_of (http_Error e code new_writer) = code"
  by (simp add: http_Error_def Write_def WriteHeader_def status_of_def Let_def)

text \<open>What a creation answered with 200 has done, and what every creation of a stack does.\<close>

lemma CreateStackHandler_200:
  assumes "CreateStackHandler ts r new_writer st = Some (Ok w, st')" and "status_of w = 200"
  obtains q s v where "decode_create (codec ts) (req_body r) = (Some q, None)"
    "decode_stack (codec ts) (Stackfile q) = Ok (Some s)"
    "st_StoreStack (stackStorage ts) s (sv_stacks st) = (Ok (), v)" "st' = st\<lparr>sv_stacks := v\<rparr>"
proof -
  obtain d e where d: "decode_create (codec ts) (req_body r) = (d, e)" by fastforce
  with assms obtain q where q: "d = Some q" "e = None"
    by (cases d; cases e) (auto simp: CreateStackHandler_def decoded_def respond_def pure_call_def)
  with d assms obtain s where s: "decode_stack (codec ts) (Stackfile q) = Ok (Some s)"
    by (cases "decode_stack (codec ts) (Stackfile q)")
       (auto simp: CreateStackHandler_def decoded_def respond_def pure_call_def or_fail_def store_decoded_def
         split: option.splits)
  obtain x v where v: "st_StoreStack (stackStorage ts) s (sv_stacks st) = (x, v)" by fastforce
  with d q s assms have "x = Ok ()" "st' = st\<lparr>sv_stacks := v\<rparr>"
    by (cases x; auto simp: CreateStackHandler_def decoded_def respond_def pure_call_def or_fail_def
        store_decoded_def on_stacks_def)+
  with that d q s v show thesis by blast
qed

lemma CreateStackHandler_taken:
  assumes "decode_create (codec ts) (req_body r) = (Some q, None)"
    and "decode_stack (codec ts) (Stackfile q) = Ok (Some s)"
    and "st_StoreStack (stackStorage ts) s (sv_stacks st) = (Err e, v)"
  shows "CreateStackHandler ts r new_writer st = Some (Ok (http_Error e 400 new_writer), st\<lparr>sv_stacks := v\<rparr>)"
  using assms by (simp add: CreateStackHandler_def decoded_def pure_call_def or_fail_def store_decoded_def
      on_stacks_def)

lemma RemoveStackHandler_200:
  assumes "RemoveStackHandler ts r new_writer st = Some (Ok w, st')" and "status_of w = 200"
  obtains q v where "fst (decode_remove (codec ts) (req_body r)) = Some q"
    "st_RemoveStack (stackStorage ts) (remove_Name q) (remove_Force q) (sv_stacks st) = Some (Ok (), v)"
    "st' = st\<lparr>sv_stacks := v\<rparr>"
proof -
  obtain q where q: "fst (decode_remove (codec ts) (req_body r)) = Some q" "remove_Name q \<noteq> []"
    using assms by (auto simp: RemoveStackHandler_def pure_call_def respond_def split: option.splits if_splits)
  then obtain x v where v: "st_RemoveStack (stackStorage ts) (remove_Name q) (remove_Force q) (sv_stacks st) = Some (x, v)"
    using assms by (auto simp: RemoveStackHandler_def or_fail_def on_stacks_def split: option.splits)
  with q assms have "x = Ok ()" "st' = st\<lparr>sv_stacks := v\<rparr>"
    by (cases x; auto simp: RemoveStackHandler_def or_fail_def on_stacks_def respond_def)+
  with that q v show thesis by blast
qed

lemma routes_stacks:
  "map_of (routes ts) ''/createstack'' = Some (Auth ts (CreateStackHandler ts))"
  "map_of (routes ts) ''/removestack'' = Some (Auth ts (RemoveStackHandler ts))"
  "map_of (routes ts) ''/get'' = Some (Auth ts (GetStackHandler ts))"
  by (simp_all add: routes_def)

context stack_store
begin

lemma created_once:
  assumes "stackStorage ts = St" and "CreateStackHandler ts r new_writer st = Some (Ok w, st1)"
    and "status_of w = 200"
  obtains q s e v where "decode_create (codec ts) (req_body r) = (Some q, None)"
    "decode_stack (codec ts) (Stackfile q) = Ok (Some s)" "sv_users st1 = sv_users st"
    "Name s \<notin> stored (sv_stacks st)" "stored (sv_stacks st1) = insert (Name s) (stored (sv_stacks st))"
    "CreateStackHandler ts r new_writer st1 = Some (Ok (http_Error e 400 new_writer), st1\<lparr>sv_stacks := v\<rparr>)"
    "stored v = stored (sv_stacks st1)"
proof -
  obtain q s v where d: "decode_create (codec ts) (req_body r) = (Some q, None)"
    "decode_stack (codec ts) (Stackfile q) = Ok (Some s)"
    and s: "st_StoreStack (stackStorage ts) s (sv_stacks st) = (Ok (), v)" and st1: "st1 = st\<lparr>sv_stacks := v\<rparr>"
    using CreateStackHandler_200 [OF assms(2,3)] .
  from store_new [OF s [unfolded assms(1)]] st1
  have new: "Name s \<notin> stored (sv_stacks st)" "stored (sv_stacks st1) = insert (Name s) (stored (sv_stacks st))"
    "sv_users st1 = sv_users st" by simp_all
  then have "Name s \<in> stored (sv_stacks st1)" by simp
  from store_taken [OF this] obtain e v' where "st_StoreStack (stackStorage ts) s (sv_stacks st1) = (Err e, v')"
    and "stored v' = stored (sv_stacks st1)" using assms(1) by blast
  with that [OF d new(3,1,2)] CreateStackHandler_taken [OF d] show thesis by blast
qed

lemma removed_not_found:
  assumes "stackStorage ts = St" and "RemoveStackHandler ts r new_writer st = Some (Ok w, st1)"
    and "status_of w = 200" and "fst (decode_get (codec ts) (req_body g)) = Some d"
    and "fst (decode_remove (codec ts) (req_body r)) = Some q" and "get_Name d = remove_Name q"
    and "GetStackHandler ts g new_writer st1 = Some (Ok w', st2)"
  shows "remove_Name q \<in> stored (sv_stacks st) \<and> stored (sv_stacks st1) \<subseteq> stored (sv_stacks st) \<and>
    status_of w' \<in> {400, 404} \<and> st2 = st1"
proof -
  obtain v where v: "st_RemoveStack St (remove_Name q) (remove_Force q) (sv_stacks st) = Some (Ok (), v)"
    and st1: "st1 = st\<lparr>sv_stacks := v\<rparr>"
    using RemoveStackHandler_200 [OF assms(2,3)] assms(1,5) by (metis option.inject)
  note gone = remove_gone [OF v]
  have "status_of w' \<in> {400, 404} \<and> st2 = st1"
    using assms(1,4,6,7) gone st1 get_missing [of "remove_Name q" v]
    by (auto simp: GetStackHandler_def respond_def or_fail_def on_stacks_def split: if_splits option.splits
        prod.splits result.splits)
  with gone st1 show ?thesis by simp
qed

lemma created_served:
  assumes "stackStorage ts = St" and "req_path r = ''/createstack''"
    and "serve ts r st = Some (Ok w, st1)" and "status_of w = 200"
  shows "\<exists>q s w2 st2. decode_create (codec ts) (req_body r) = (Some q, None) \<and>
    decode_stack (codec ts) (Stackfile q) = Ok (Some s) \<and> Name s \<notin> stored (sv_stacks st) \<and>
    stored (sv_stacks st1) = insert (Name s) (stored (sv_stacks st)) \<and>
    serve ts r st1 = Some (Ok w2, st2) \<and> status_of w2 = 400 \<and>
    stored (sv_stacks st2) = stored (sv_stacks st1)"
proof -
  have route: "map_of (routes ts) (req_path r) = Some (Auth ts (CreateStackHandler ts))"
    by (simp add: assms(2) routes_stacks)
  note ok = serve_admitted [OF assms(3) route assms(4)]
  obtain q s e v where
    d: "decode_create (codec ts) (req_body r) = (Some q, None)"
      "decode_stack (codec ts) (Stackfile q) = Ok (Some s)"
    and st1: "sv_users st1 = sv_users st" "Name s \<notin> stored (sv_stacks st)"
      "stored (sv_stacks st1) = insert (Name s) (stored (sv_stacks st))"
    and again: "CreateStackHandler ts r new_writer st1 = Some (Ok (http_Error e 400 new_writer), st1\<lparr>sv_stacks := v\<rparr>)"
      "stored v = stored (sv_stacks st1)"
    by (rule created_once [OF assms(1) ok(2) assms(4)])
  have "serve ts r st1 = Some (Ok (http_Error e 400 new_writer), st1\<lparr>sv_stacks := v\<rparr>)"
    using route ok(1) st1(1) again(1) by (simp add: serve_def Auth_admits)
  with d st1(2,3) again(2) show ?thesis by auto
qed

lemma removed_served:
  assumes "stackStorage ts = St"
    and "req_path r = ''/removestack''" and "serve ts r st = Some (Ok w, st1)" and "status_of w = 200"
    and "fst (decode_remove (codec ts) (req_body r)) = Some q"
    and "req_path g = ''/get''" and "fst (decode_get (codec ts) (req_body g)) = Some d"
    and "get_Name d = remove_Name q" and "serve ts g st1 = Some (Ok w', st2)"
  shows "remove_Name q \<in> stored (sv_stacks st) \<and> stored (sv_stacks st1) \<subseteq> stored (sv_stacks st) \<and>
    status_of w' \<noteq> 200"
proof -
  have rm: "RemoveStackHandler ts r new_writer st = Some (Ok w, st1)"
    by (rule serve_admitted(2) [OF assms(3) _ assms(4)]) (simp add: assms(2) routes_stacks)
  obtain v where v: "st_RemoveStack (stackStorage ts) (remove_Name q) (remove_Force q) (sv_stacks st) = Some (Ok (), v)"
    and st1: "st1 = st\<lparr>sv_stacks := v\<rparr>"
    using RemoveStackHandler_200 [OF rm assms(4)] assms(5) by (metis option.inject)
  have "status_of w' \<noteq> 200"
  proof
    assume 200: "status_of w' = 200"
    have "GetStackHandler ts g new_writer st1 = Some (Ok w', st2)"
      by (rule serve_admitted(2) [OF assms(9) _ 200]) (simp add: assms(6) routes_stacks)
    from removed_not_found [OF assms(1) rm assms(4,7,5,8) this] 200 show False by simp
  qed
  with remove_gone [OF v [unfolded assms(1)]] st1 show ?thesis by auto
qed

end

context cassandra_stacks
begin

lemmas cas_created_served = created_served

end

section \<open>Properties\<close>

text \<open>A stack can be created only once. A creation answered with success means that the name of
  the sent stack was free, and the storage then has this one name more; the same request
  sent again is answered with 400 and the stored names stay.\<close>
theorem stack_created_once:
  assumes "cql_reads S rows" and "cql_writes S rows" and "stackStorage ts = CassandraStore Y S fuel"
    and "req_path r = ''/createstack''" and "serve ts r st = Some (Ok w, st1)" and "status_of w = 200"
  shows "\<exists>q s w2 st2. decode_create (codec ts) (req_body r) = (Some q, None) \<and>
    decode_stack (codec ts) (Stackfile q) = Ok (Some s) \<and> rows (sv_stacks st) (Name s) = None \<and>
    dom (rows (sv_stacks st1)) = insert (Name s) (dom (rows (sv_stacks st))) \<and>
    serve ts r st1 = Some (Ok w2, st2) \<and> status_of w2 = 400 \<and>
    dom (rows (sv_stacks st2)) = dom (rows (sv_stacks st1))"
proof -
  from assms(1,2) have "cassandra_stacks S rows" by (rule cassandra_stacks.intro)
  from cassandra_stacks.cas_created_served [OF this assms(3-6)] show ?thesis
    by (simp only: domIff not_not)
qed

text \<open>A removal answered with success was of a stored stack; after it no request for that
  stack is answered with success, and no name was added. Here with the storage in memory.\<close>
theorem removed_stack_not_found:
  assumes "stackStorage ts = InMemoryStore ord fuel"
    and "req_path r = ''/removestack''" and "serve ts r st = Some (Ok w, st1)" and "status_of w = 200"
    and "fst (decode_remove (codec ts) (req_body r)) = Some q"
    and "req_path g = ''/get''" and "fst (decode_get (codec ts) (req_body g)) = Some d"
    and "get_Name d = remove_Name q" and "serve ts g st1 = Some (Ok w', st2)"
  shows "remove_Name q \<in> dom (map_of (stacks (sv_stacks st))) \<and>
    dom (map_of (stacks (sv_stacks st1))) \<subseteq> dom (map_of (stacks (sv_stacks st))) \<and> status_of w' \<noteq> 200"
  by (rule memory.removed_served [OF assms])

section \<open>Witnesses\<close>

text \<open>The sample server with a decoder that reads the name of a stack.\<close>

definition naming_server ::
    "(Stack, (string \<times> string \<times> string) list, state_map, (string \<times> string \<times> int) list, nat) server" where
  "naming_server = (sample_server InMemoryStateStorage silent_env)
     \<lparr>codec := sample_http\<lparr>decode_stack := (\<lambda>b. Ok (Some (empty_stack\<lparr>Name := b\<rparr>)))\<rparr>\<rparr>"

lemma naming_fields:
  "userStorage naming_server = CassandraUserStorage list_users"
  "stackStorage naming_server = CassandraStore sample_codec list_session 2"
  "codec naming_server = sample_http\<lparr>decode_stack := (\<lambda>b. Ok (Some (empty_stack\<lparr>Name := b\<rparr>)))\<rparr>"
  by (simp_all add: naming_server_def sample_server_def)

theorem stack_created_once_witness:
  "\<exists>st1 w2 st2. serve naming_server
     \<lparr>req_path = ''/createstack'', req_user = ''ann'', req_key = ''k'', req_body = ''new''\<rparr> st1 = Some (Ok w2, st2) \<and>
     status_of w2 = 400 \<and> ''new'' \<in> dom (map_of (sv_stacks st1))"
proof -
  let ?r = "\<lparr>req_path = ''/createstack'', req_user = ''ann'', req_key = ''k'', req_body = ''new''\<rparr>"
  let ?st = "sample_server_state NewInMemoryStateStorage"
  have "fst (cas_StoreStack sample_codec list_session (empty_stack\<lparr>Name := ''new''\<rparr>) sample_rows) = Ok ()"
    by code_simp
  then obtain v where v: "cas_StoreStack sample_codec list_session (empty_stack\<lparr>Name := ''new''\<rparr>) sample_rows = (Ok (), v)"
    by (metis prod.collapse)
  have ann: "map_of (sv_users ?st) ''ann'' = Some (sha ''k'', UserAdmin)" by (simp add: sample_users)
  have "us_CheckKey (userStorage naming_server) (req_user ?r) (req_key ?r) (sv_users ?st) = Ok True"
    using known_user [OF list_users_laws(1) ann] by (simp add: naming_fields CassandraUserStorage_def)
  with v have "serve naming_server ?r ?st = Some (Ok (WriteHeader 200 new_writer), ?st\<lparr>sv_stacks := v\<rparr>)"
    by (simp add: serve_def routes_stacks Auth_admits CreateStackHandler_def decoded_def or_fail_def pure_call_def
        store_decoded_def on_stacks_def naming_fields sample_http_def CassandraStore_def respond_def
        sample_server_state_def)
  from stack_created_once [OF list_session_laws naming_fields(2) _ this] show ?thesis
    by (intro exI [of _ "?st\<lparr>sv_stacks := v\<rparr>"])
       (auto simp: naming_fields sample_http_def status_of_def WriteHeader_def new_writer_def)
qed

end
