(* ===== verification/Spec2Isabelle.thy ===== *)
theory Spec2Isabelle
  imports RunnerLaws Bootstrap Catalogue
begin

text \<open>
  A model of stack-deploy, a server that deploys stacks of applications on Mesos and
  Marathon, and the theorems that make it correct.

  \<^bold>\<open>The program and its model.\<close>  A user sends requests with the command line
  (src/command) through the client (src/framework/client.go) to the server
  (src/framework/server.go).  The server checks the key of the user
  (src/framework/user_storage.go), keeps stacks and layers (src/framework/storage.go),
  and runs a stack: it merges it with its ancestors and layers, launches its applications
  in the order of their dependencies (src/framework/stack.go), each by resolving its
  variables, asking Marathon or the Mesos scheduler to start it, waiting for it, and
  giving its tasks to a task runner (src/framework/application.go, src/runners), and
  records what happened (src/framework/state_storage.go).  Applications of type run-once
  are launched by the scheduler from the offers of Mesos (src/framework/scheduler.go,
  src/mesosrunners).  The theories follow this order:

  \<^item> \<open>Prelude\<close>: results with errors and panics, Go's maps (nil or made), strings, numbers and
    float64; the locale \<open>kv_store\<close> for assignments in any order.
  \<^item> \<open>Constraints\<close> (src/constraints): parsing and matching of placement constraints.  The
    placements each constraint accepts are characterised, GROUP_BY stays balanced.
  \<^item> \<open>Variables\<close> (variables.go): the context of a stack with its three layers.  \<open>Get\<close> and
    \<open>All\<close> agree; the JSON form restores a context.
  \<^item> \<open>Docker\<close>, \<open>MesosState\<close> (docker.go, mesos_state.go): the container of a Marathon request,
    the slaves of the cluster.
  \<^item> \<open>Application\<close>, \<open>ApplicationRun\<close>, \<open>Resolution\<close>, \<open>Deployment\<close> (application.go): validation,
    substitution of variables, number of instances, and \<open>Run\<close> with all its steps and early
    returns.  Resolution is independent of Go's map order and replaces exactly the bound
    references, as long as no literal text and no value of the context opens a reference of
    its own (\<open>calm\<close>; a value that does is resolved or not, depending on the order); an
    application with an open reference outside its tasks is never started; success means
    that Marathon accepted the application and a probe saw it run.
  \<^item> \<open>Stack\<close> (stack.go, layer.go, util.go): merging, layers, validation.  Every field of an
    application comes from its nearest or, for the fields that are not merged, its first
    definition.
  \<^item> \<open>StateStorage\<close> (state_storage.go): both implementations, behind the locale that a
    deployment relies on.
  \<^item> \<open>StackRun\<close>, \<open>StackOrder\<close> (stack.go, \<open>Run\<close>): the deployment as an inductive step relation
    over all interleavings of the goroutines, all orders of the range statements and all
    results of the applications.  Dependencies are launched first, nothing is launched
    twice, success means that everything runs and is recorded, a deployment makes at most
    three steps per application, it completes when the dependencies can be satisfied, and
    it waits for ever on a cycle, on an empty stack and on overlapping skip patterns.
  \<^item> \<open>StackExec\<close> (stack.go, \<open>Run\<close>): one whole run as a function of what the program does not
    decide itself (orders, interleaving, results, the answer of Marathon); it is a run of the
    machine.  The server and the bootstrap call it.
  \<^item> \<open>Storage\<close>, \<open>MemStorage\<close> (storage.go): stacks in Cassandra and in memory.  Storing keeps
    the table a forest; a stack is read as the merge of its ancestors; forced removal
    deletes exactly a stack and its descendants, for the memory by refinement of the
    Cassandra removal.  In memory the applications live at addresses of an explicit
    memory, since merging layers writes into the stored stack.
  \<^item> \<open>Users\<close> (user_storage.go): users, roles, keys, with SHA-1 written out on 32-bit words.
    Issued keys authenticate, and the table holds digests of keys only.
  \<^item> \<open>RunOnce\<close> (src/mesosrunners): the run-once runner as an inductive relation over staged
    applications, offers (each visiting the contexts in an order of its own) and status
    updates: number of instances, constraints, success.
  \<^item> \<open>Scheduler\<close> (scheduler.go, framework_storage.go): registration and failover with the
    stored state, whose bootstrap context may be nil, offers, status updates, scheduled tasks.
  \<^item> \<open>Server\<close> (server.go, requests.go): routes, authentication, all handlers and \<open>runStack\<close>
    over the storages and the deployment above.  \<open>Catalogue\<close> states what requests that create,
    read and remove stacks rely on as the locale \<open>stack_store\<close>, interpreted by both storages.
  \<^item> \<open>Client\<close> (client.go): the requests, and their composition with the server.
  \<^item> \<open>Query\<close>, \<open>Runners\<close>, \<open>RunnersAwait\<close>, \<open>RunnerLaws\<close> (src/runners, the registry of src/main.go):
    nine task runners, each an interpretation of the locale \<open>task_runner\<close>; what they write
    into the context, what their requests carry, when they return.
  \<^item> \<open>Command\<close>, \<open>Bootstrap\<close> (src/command, src/main.go): flags and client commands; the start
    of the server with its bootstrap stack, which restores a stored context and which fails
    on a storage without one.

  \<^bold>\<open>How code is modelled.\<close>  Structs are records, errors and panics are the constructors
  \<open>Err\<close> and \<open>Panic\<close> of \<open>result\<close>, state is passed explicitly.  Goroutines appear where their
  interleaving matters: in \<open>StackRun\<close> every launched application ends at any later step,
  in \<open>RunOnce\<close> offers and updates come in any order.  A method that holds a
  mutex is one step; \<open>All\<close>, \<open>String\<close> and \<open>MarshalJSON\<close> of a context take no lock and are
  modelled as reading one state of it.
  A range statement over a map takes its order as an argument or visits a list whose order
  is arbitrary; theorems hold for every order.  Libraries the sources only call are
  parameters with named laws: Marathon, Mesos driver, CQL sessions (\<open>cql_reads\<close>,
  \<open>user_reads\<close>, \<open>user_writes\<close> and their relatives), YAML and JSON codecs, the regular expression
  engine, the HTTP exchange, the clock, the cron library.

  \<^bold>\<open>Bounds and fuel.\<close>  \<open>cas_remove\<close>, \<open>cas_GetStack\<close> and the memory's removal recurse over
  the table and take fuel; \<open>None\<close> is a call that does not return, and on a forest fuel
  of the number of stacks is proved enough.  \<open>await_loop\<close>, the connection loops and the
  bootstrap loop run over their retries.  The loops of \<open>RunnersAwait\<close> are partial functions
  with value None for a loop that does not end.  A runner call that does not return ends the
  steps of its application with the context it had written; no later step is executed.  Integers that can wrap are words
  (SHA-1) or carry their range (\<open>Atoi\<close>, \<open>ParseInt\<close>, \<open>max_int\<close>).

  \<^bold>\<open>What is not modelled.\<close>  Logging; the callbacks of the scheduler that only log; Help and
  Synopsis texts of the commands; the rendering of a stack and of a context for display; the
  end of the whole process by a panic in a goroutine (a panic is the result of the step that
  has it); simultaneous use of one context by several applications inside a single call of
  \<open>SetStackVariable\<close> (each is atomic under its lock); the vendored packages.  The layers of
  a context are lists with distinct keys, which every operation keeps.  SHA-1 is the
  standard's definition; its agreement with the library is not a theorem.

  \<^bold>\<open>Order of the development.\<close>  Deployment core first (stacks, applications, storages),
  then users, run-once, scheduler, server and client, then task runners and commands.
\<close>

end
